(* ===== verification/Prelude.thy ===== *)
theory Prelude
  imports Complex_Main "HOL-Library.Word" "HOL-Library.AList"
begin

text \<open>
  Shared vocabulary of the development: the machine integer types of the Go and
  Rust sources, Go maps as association lists with distinct keys, decimal printing
  (the \<open>%d\<close> verb of \<^verbatim>\<open>fmt.Sprintf\<close>) and the lemmas on words, lists and maps that several
  components use.  Facts are collected in \<open>go_map\<close> (lookups and sizes after an update),
  \<open>word_conv\<close> (moving between words and numbers) and \<open>guards\<close> (unfolding of named
  constants).
\<close>

unbundle bit_operations_syntax

named_theorems go_map \<open>lookup, key set and size of Go maps after an update\<close>
named_theorems word_conv \<open>conversions between words and natural numbers\<close>
named_theorems guards \<open>definitions of the named numeric constants of the source\<close>

type_synonym u8 = "8 word"
type_synonym u16 = "16 word"
type_synonym u32 = "32 word"
type_synonym u64 = "64 word"

text \<open>
  A Go \<^verbatim>\<open>map[K]V\<close> is an association list.  Reading an absent key gives \<open>None\<close> (the
  comma-ok form of the source), \<open>len\<close> is the length of the list, which is the number
  of keys as long as the keys are distinct; every operation keeps them so.
\<close>

type_synonym ('k, 'v) go_map = "('k \<times> 'v) list"

abbreviation go_get :: "('k, 'v) go_map \<Rightarrow> 'k \<Rightarrow> 'v option" where
  "go_get m k \<equiv> map_of m k"

abbreviation go_set :: "('k, 'v) go_map \<Rightarrow> 'k \<Rightarrow> 'v \<Rightarrow> ('k, 'v) go_map" where
  "go_set m k v \<equiv> AList.update k v m"

abbreviation go_del :: "('k, 'v) go_map \<Rightarrow> 'k \<Rightarrow> ('k, 'v) go_map" where
  "go_del m k \<equiv> AList.delete k m"

abbreviation go_keys :: "('k, 'v) go_map \<Rightarrow> 'k set" where
  "go_keys m \<equiv> fst ` set m"

definition go_map_ok :: "('k, 'v) go_map \<Rightarrow> bool" where
  "go_map_ok m \<longleftrightarrow> distinct (map fst m)"

text \<open>Decimal printing of a number.\<close>

definition digit_char :: "nat \<Rightarrow> char" where
  "digit_char d = char_of (48 + d)"

fun dec_string :: "nat \<Rightarrow> string" where
  "dec_string n = (if n < 10 then [digit_char n]
                   else dec_string (n div 10) @ [digit_char (n mod 10)])"

declare dec_string.simps [simp del]

section \<open>Go maps\<close>

lemma go_get_set [go_map, simp]:
  "go_get (go_set m k v) k' = (if k' = k then Some v else go_get m k')"
  by (simp add: update_conv')

lemma go_get_del [go_map]:
  "go_get (go_del m k) k' = (if k' = k then None else go_get m k')"
  by (simp add: delete_conv' fun_upd_def)

lemma go_map_ok_Nil [simp]: "go_map_ok []"
  by (simp add: go_map_ok_def)

lemma go_map_ok_set [simp]: "go_map_ok m \<Longrightarrow> go_map_ok (go_set m k v)"
  by (simp add: go_map_ok_def distinct_update)

lemma go_map_ok_del [simp]: "go_map_ok m \<Longrightarrow> go_map_ok (go_del m k)"
  by (simp add: go_map_ok_def distinct_delete)

lemma go_keys_set [go_map]: "go_keys (go_set m k v) = insert k (go_keys m)"
  by (induction m) auto

lemma go_keys_del [go_map]: "go_keys (go_del m k) = go_keys m - {k}"
proof -
  have "set (map fst (go_del m k)) = set (map fst m) - {k}" by (simp only: delete_keys set_removeAll)
  then show ?thesis by simp
qed

lemma go_set_key_cases: "(a, b) \<in> set (go_set m k v) \<Longrightarrow> a = k \<or> a \<in> go_keys m"
  by (induction m) (force split: if_splits)+

lemma go_get_None_iff: "go_get m k = None \<longleftrightarrow> k \<notin> go_keys m"
  by (rule map_of_eq_None_iff)

lemma go_len_set_present [go_map]:
  "go_get m k = Some w \<Longrightarrow> length (go_set m k v) = length m"
  by (induction m) auto

lemma go_len_set_absent [go_map]:
  "go_get m k = None \<Longrightarrow> length (go_set m k v) = Suc (length m)"
  by (induction m) auto

lemma go_set_absent_append:
  "go_get m k = None \<Longrightarrow> go_set m k v = m @ [(k, v)]"
  by (induction m) auto

lemma go_map_ok_card: "go_map_ok m \<Longrightarrow> card (go_keys m) = length m"
  unfolding go_map_ok_def by (metis distinct_card length_map list.set_map)

lemma go_set_sum_list:
  fixes f :: "'v \<Rightarrow> nat"
  assumes "go_map_ok m" and "go_get m k = Some w"
  shows "sum_list (map (f \<circ> snd) (go_set m k v)) + f w = sum_list (map (f \<circ> snd) m) + f v"
  using assms
proof (induction m)
  case Nil
  then show ?case by simp
next
  case (Cons a m)
  then show ?case by (cases a) (auto simp: go_map_ok_def)
qed

lemma go_set_present_elem:
  assumes "(k', w) \<in> set (go_set m k v)" and "go_map_ok m"
  shows "(k' = k \<and> w = v) \<or> (k' \<noteq> k \<and> (k', w) \<in> set m)"
  using assms
  by (metis go_get_set go_map_ok_def go_map_ok_set map_of_eq_Some_iff option.inject)

section \<open>Words\<close>

lemma unat_less_numeral_iff [word_conv]:
  fixes x :: "'a::len word"
  assumes "numeral n < (2::nat) ^ LENGTH('a)"
  shows "x < numeral n \<longleftrightarrow> unat x < numeral n"
proof -
  have "unat (numeral n :: 'a word) = numeral n"
    using assms by (simp add: unat_numeral take_bit_nat_eq_self)
  then show ?thesis by (simp add: word_less_nat_alt)
qed

lemma unat_add_one [word_conv]:
  fixes x :: "'a::len word"
  assumes "Suc (unat x) < 2 ^ LENGTH('a)"
  shows "unat (x + 1) = Suc (unat x)"
  using assms by (simp add: unat_word_ariths(1))

lemma bit_u8_high [simp]: "8 \<le> n \<Longrightarrow> \<not> bit (x :: u8) n"
  using bit_imp_le_length [of x n] by auto

section \<open>Decimal strings\<close>

lemma ucast_u8_u32 [simp]: "ucast (ucast (x :: u8) :: u32) = x"
  by (rule bit_word_eqI) (simp add: bit_simps)

lemma of_digit_char [simp]: "d < 10 \<Longrightarrow> of_char (digit_char d) = (48 + d :: nat)"
  by (simp add: digit_char_def take_bit_nat_eq_self)

lemma digit_char_inj: "a < 10 \<Longrightarrow> b < 10 \<Longrightarrow> digit_char a = digit_char b \<Longrightarrow> a = b"
  by (metis add_left_cancel of_digit_char)

lemma dec_string_nonempty [simp]: "dec_string n \<noteq> []" "[] \<noteq> dec_string n"
  by (subst dec_string.simps, simp)+

lemma dec_string_digits:
  "c \<in> set (dec_string n) \<Longrightarrow> 48 \<le> (of_char c :: nat) \<and> (of_char c :: nat) \<le> 57"
proof (induction n rule: dec_string.induct)
  case (1 n)
  show ?case
  proof (cases "n < 10")
    case True
    with "1.prems" show ?thesis by (simp add: dec_string.simps [of n])
  next
    case False
    have "n mod 10 < 10" by simp
    then have m: "of_char (digit_char (n mod 10)) = (48 + n mod 10 :: nat)"
      by (rule of_digit_char)
    from "1.prems" False
    have "c \<in> set (dec_string (n div 10)) \<or> c = digit_char (n mod 10)"
      by (auto simp: dec_string.simps [of n])
    then show ?thesis
    proof
      assume "c \<in> set (dec_string (n div 10))"
      with False show ?thesis by (rule "1.IH")
    next
      assume "c = digit_char (n mod 10)"
      with m \<open>n mod 10 < 10\<close> show ?thesis by simp
    qed
  qed
qed

lemma dec_string_inj: "dec_string a = dec_string b \<Longrightarrow> a = b"
proof (induction a arbitrary: b rule: dec_string.induct)
  case (1 a)
  have d: "a mod 10 < 10" "b mod 10 < 10" by simp_all
  show ?case
  proof (cases "a < 10")
    case True
    then have b: "b < 10"
      using "1.prems"
      by (auto simp: dec_string.simps [of a] dec_string.simps [of b]
               split: if_splits)
    with True "1.prems" show ?thesis
      by (simp add: dec_string.simps [of a] dec_string.simps [of b] digit_char_inj)
  next
    case False
    then have nb: "\<not> b < 10"
      using "1.prems"
      by (auto simp: dec_string.simps [of a] dec_string.simps [of b] split: if_splits)
    with False "1.prems"
    have eq: "dec_string (a div 10) = dec_string (b div 10)"
      and m: "digit_char (a mod 10) = digit_char (b mod 10)"
      by (simp_all add: dec_string.simps [of a] dec_string.simps [of b])
    from "1.IH" [OF False eq] have "a div 10 = b div 10" .
    moreover from digit_char_inj [OF d m] have "a mod 10 = b mod 10" .
    ultimately show ?thesis by (metis div_mult_mod_eq)
  qed
qed

end
