(* ===== verification/GoNet.thy ===== *)
theory GoNet
  imports Prelude
begin

text \<open>
  The part of Go's standard packages \<^verbatim>\<open>net\<close> and \<^verbatim>\<open>net/netip\<close> (Go 1.22, the version of
  \<^verbatim>\<open>src/user-space/go.mod\<close>) that the program calls: addresses as byte slices, \<open>net.IPv4\<close>,
  \<open>To4\<close>, \<open>String\<close> on IPv4 addresses, \<open>ParseIP\<close>, \<open>ParseCIDR\<close>, \<open>CIDRMask\<close>, \<open>IPMask.Size\<close>,
  \<open>IP.Mask\<close> and \<open>IPNet.Contains\<close>.  A nil slice is the empty list.  The lemmas show that
  printing an IPv4 address and parsing it back is the identity, with and without a
  prefix length, and what \<open>Contains\<close> decides for an IPv4 network.
\<close>

section \<open>Addresses\<close>

type_synonym IP = "u8 list"

definition v4InV6Prefix :: "u8 list" where
  "v4InV6Prefix = replicate 10 0 @ [255, 255]"

definition IPv4 :: "u8 \<Rightarrow> u8 \<Rightarrow> u8 \<Rightarrow> u8 \<Rightarrow> IP" where
  "IPv4 a b c d = v4InV6Prefix @ [a, b, c, d]"

definition To4 :: "IP \<Rightarrow> IP" where
  "To4 ip = (if length ip = 4 then ip
             else if length ip = 16 \<and> take 12 ip = v4InV6Prefix then drop 12 ip
             else [])"

definition dotted :: "u8 \<Rightarrow> u8 \<Rightarrow> u8 \<Rightarrow> u8 \<Rightarrow> string" where
  "dotted a b c d = dec_string (unat a) @ ''.'' @ dec_string (unat b) @ ''.'' @
                    dec_string (unat c) @ ''.'' @ dec_string (unat d)"

text \<open>\<open>String\<close> is used on IPv4 addresses only; \<open>None\<close> stands for the forms it has for others.\<close>

definition IP_String :: "IP \<Rightarrow> string option" where
  "IP_String ip = (case To4 ip of [a, b, c, d] \<Rightarrow> Some (dotted a b c d) | _ \<Rightarrow> None)"

definition IsLoopback :: "IP \<Rightarrow> bool" where
  "IsLoopback ip = (case To4 ip of [a, b, c, d] \<Rightarrow> a = 127
                    | _ \<Rightarrow> ip = replicate 15 0 @ [1])"

section \<open>Parsing addresses\<close>

definition is_dec :: "char \<Rightarrow> bool" where
  "is_dec c \<longleftrightarrow> 48 \<le> (of_char c :: nat) \<and> (of_char c :: nat) \<le> 57"

definition dec_val :: "char \<Rightarrow> nat" where
  "dec_val c = of_char c - 48"

definition is_hex :: "char \<Rightarrow> bool" where
  "is_hex c \<longleftrightarrow> is_dec c \<or> (97 \<le> (of_char c :: nat) \<and> (of_char c :: nat) \<le> 102)
                       \<or> (65 \<le> (of_char c :: nat) \<and> (of_char c :: nat) \<le> 70)"

definition hex_val :: "char \<Rightarrow> nat" where
  "hex_val c = (if is_dec c then of_char c - 48
                else if 97 \<le> (of_char c :: nat) then of_char c - 87 else of_char c - 55)"

text \<open>
  \<open>netip.parseIPv4Fields\<close>: the value and the number of digits of the current octet, the
  octets so far, and whether the previous character was a dot (or there is none).
\<close>

fun v4_loop :: "nat \<Rightarrow> nat \<Rightarrow> u8 list \<Rightarrow> bool \<Rightarrow> string \<Rightarrow> u8 list option" where
  "v4_loop val digLen fields sep [] =
     (if length fields < 3 then None else Some (fields @ [of_nat val]))"
| "v4_loop val digLen fields sep (c # s) =
     (if is_dec c then
        if digLen = 1 \<and> val = 0 then None
        else if val * 10 + dec_val c > 255 then None
        else v4_loop (val * 10 + dec_val c) (Suc digLen) fields False s
      else if c = CHR ''.'' then
        if sep \<or> s = [] then None
        else if length fields = 3 then None
        else v4_loop 0 0 (fields @ [of_nat val]) True s
      else None)"

definition parseIPv4Fields :: "string \<Rightarrow> u8 list option" where
  "parseIPv4Fields s = v4_loop 0 0 [] True s"

text \<open>
  The loop of \<open>netip.parseIPv6\<close>: the position of the ellipsis, the bytes so far and the
  rest of the text; the result is the state in which the loop ends.
\<close>

function v6_loop :: "nat option \<Rightarrow> u8 list \<Rightarrow> string \<Rightarrow> (nat option \<times> u8 list \<times> string) option" where
  "v6_loop ell ip s =
     (if 16 \<le> length ip then Some (ell, ip, s)
      else if takeWhile is_hex s = [] \<or> 4 < length (takeWhile is_hex s) then None
      else if dropWhile is_hex s \<noteq> [] \<and> hd (dropWhile is_hex s) = CHR ''.'' then
        if ell = None \<and> length ip \<noteq> 12 then None
        else if 16 < length ip + 4 then None
        else map_option (\<lambda>fs. (ell, ip @ fs, [])) (parseIPv4Fields s)
      else
        let acc = foldl (\<lambda>a c. a * 16 + hex_val c) 0 (takeWhile is_hex s);
            ip' = ip @ [of_nat (acc div 256), of_nat (acc mod 256)]
        in case dropWhile is_hex s of
             [] \<Rightarrow> Some (ell, ip', [])
           | [c] \<Rightarrow> None
           | c # c2 # s2 \<Rightarrow>
               if c \<noteq> CHR '':'' then None
               else if c2 = CHR '':'' then
                 if ell \<noteq> None then None
                 else if s2 = [] then Some (Some (length ip'), ip', [])
                 else v6_loop (Some (length ip')) ip' s2
               else v6_loop ell ip' (c2 # s2))"
  by pat_completeness auto
termination
proof (relation "measure (\<lambda>(ell, ip, s). length s)", goal_cases)
  case 1
  show ?case by simp
next
  case (2 ell ip s acc ip' c cs c2 s2)
  then have "length (c # c2 # s2) \<le> length s"
    using length_dropWhile_le [of is_hex s] by simp
  then show ?case by simp
next
  case (3 ell ip s acc ip' c cs c2 s2)
  then have "length (c # c2 # s2) \<le> length s"
    using length_dropWhile_le [of is_hex s] by simp
  then show ?case by simp
qed

declare v6_loop.simps [simp del]

definition v6_finish :: "nat option \<times> u8 list \<times> string \<Rightarrow> u8 list option" where
  "v6_finish st = (case st of (ell, ip, s) \<Rightarrow>
     if s \<noteq> [] then None
     else if length ip < 16 then
       (case ell of None \<Rightarrow> None
        | Some e \<Rightarrow> Some (take e ip @ replicate (16 - length ip) 0 @ drop e ip))
     else if ell \<noteq> None then None else Some ip)"

text \<open>An address with its zone (always empty for IPv4).\<close>

datatype Addr = Addr4 "u8 list" | Addr6 "u8 list" string

definition parseIPv6 :: "string \<Rightarrow> Addr option" where
  "parseIPv6 inp =
     (let s = takeWhile (\<lambda>c. c \<noteq> CHR ''%'') inp;
          zoned = (CHR ''%'' \<in> set inp);
          zone = drop (Suc (length s)) inp
      in if zoned \<and> zone = [] then None
         else map_option (\<lambda>ip. Addr6 ip zone)
           (if take 2 s = ''::''
            then if drop 2 s = [] then Some (replicate 16 0)
                 else Option.bind (v6_loop (Some 0) [] (drop 2 s)) v6_finish
            else Option.bind (v6_loop None [] s) v6_finish))"

fun ParseAddr_scan :: "string \<Rightarrow> string \<Rightarrow> Addr option" where
  "ParseAddr_scan s [] = None"
| "ParseAddr_scan s (c # cs) =
     (if c = CHR ''.'' then map_option Addr4 (parseIPv4Fields s)
      else if c = CHR '':'' then parseIPv6 s
      else if c = CHR ''%'' then None
      else ParseAddr_scan s cs)"

definition ParseAddr :: "string \<Rightarrow> Addr option" where
  "ParseAddr s = ParseAddr_scan s s"

fun As16 :: "Addr \<Rightarrow> u8 list" where
  "As16 (Addr4 b) = v4InV6Prefix @ b"
| "As16 (Addr6 b z) = b"

fun BitLen :: "Addr \<Rightarrow> nat" where
  "BitLen (Addr4 b) = 32"
| "BitLen (Addr6 b z) = 128"

fun Zone :: "Addr \<Rightarrow> string" where
  "Zone (Addr4 b) = []"
| "Zone (Addr6 b z) = z"

definition ParseIP :: "string \<Rightarrow> IP" where
  "ParseIP s = (case ParseAddr s of
     None \<Rightarrow> [] | Some a \<Rightarrow> if Zone a \<noteq> [] then [] else As16 a)"

section \<open>Networks\<close>

record IPNet =
  net_IP :: IP
  net_Mask :: "u8 list"

fun mask_bytes :: "nat \<Rightarrow> nat \<Rightarrow> u8 list" where
  "mask_bytes 0 n = []"
| "mask_bytes (Suc l) n =
     (if 8 \<le> n then 255 # mask_bytes l (n - 8)
      else NOT (drop_bit n 255) # mask_bytes l 0)"

definition CIDRMask :: "nat \<Rightarrow> nat \<Rightarrow> u8 list" where
  "CIDRMask ones bits = mask_bytes (bits div 8) ones"

text \<open>\<open>simpleMaskLength\<close>: the leading one bits of a byte, and of the whole mask.\<close>

fun byte_ones :: "nat \<Rightarrow> u8 \<Rightarrow> nat \<Rightarrow> nat option" where
  "byte_ones 0 v n = None"
| "byte_ones (Suc fuel) v n =
     (if v AND 128 \<noteq> 0 then byte_ones fuel (push_bit 1 v) (Suc n)
      else if v \<noteq> 0 then None else Some n)"

fun simpleMaskLength :: "u8 list \<Rightarrow> nat \<Rightarrow> nat option" where
  "simpleMaskLength [] n = Some n"
| "simpleMaskLength (v # m) n =
     (if v = 255 then simpleMaskLength m (n + 8)
      else case byte_ones 9 v n of None \<Rightarrow> None
           | Some k \<Rightarrow> if \<forall>w \<in> set m. w = 0 then Some k else None)"

definition Mask_Size :: "u8 list \<Rightarrow> nat \<times> nat" where
  "Mask_Size m = (case simpleMaskLength m 0 of None \<Rightarrow> (0, 0) | Some k \<Rightarrow> (k, length m * 8))"

definition IP_Mask :: "IP \<Rightarrow> u8 list \<Rightarrow> IP" where
  "IP_Mask ip0 mask0 =
     (let mask = (if length mask0 = 16 \<and> length ip0 = 4 \<and> take 12 mask0 = replicate 12 255
                  then drop 12 mask0 else mask0);
          ip = (if length mask = 4 \<and> length ip0 = 16 \<and> take 12 ip0 = v4InV6Prefix
                then drop 12 ip0 else ip0)
      in if length ip \<noteq> length mask then [] else map2 (AND) ip mask)"

fun dtoi_loop :: "nat \<Rightarrow> string \<Rightarrow> nat option" where
  "dtoi_loop n [] = Some n"
| "dtoi_loop n (c # cs) =
     (if is_dec c then if n * 10 + dec_val c \<ge> 16777215 then None
                       else dtoi_loop (n * 10 + dec_val c) cs
      else None)"

definition dtoi :: "string \<Rightarrow> nat option" where
  "dtoi s = (if s = [] then None else dtoi_loop 0 s)"

definition ParseCIDR :: "string \<Rightarrow> (IP \<times> IPNet) option" where
  "ParseCIDR s =
     (let addr = takeWhile (\<lambda>c. c \<noteq> CHR ''/'') s;
          mask = drop (Suc (length addr)) s
      in if CHR ''/'' \<notin> set s then None
         else case ParseAddr addr of
                None \<Rightarrow> None
              | Some a \<Rightarrow>
                  if Zone a \<noteq> [] then None
                  else case dtoi mask of
                         None \<Rightarrow> None
                       | Some n \<Rightarrow>
                           if BitLen a < n then None
                           else let m = CIDRMask n (BitLen a)
                                in Some (As16 a, \<lparr>net_IP = IP_Mask (As16 a) m, net_Mask = m\<rparr>))"

definition networkNumberAndMask :: "IPNet \<Rightarrow> IP \<times> u8 list" where
  "networkNumberAndMask n =
     (let ip = (if To4 (net_IP n) = [] then net_IP n else To4 (net_IP n)); m = net_Mask n
      in if To4 (net_IP n) = [] \<and> length ip \<noteq> 16 then ([], [])
         else if length m = 4 then (if length ip \<noteq> 4 then ([], []) else (ip, m))
         else if length m = 16 then (if length ip = 4 then (ip, drop 12 m) else (ip, m))
         else ([], []))"

definition Contains :: "IPNet \<Rightarrow> IP \<Rightarrow> bool" where
  "Contains n ip0 =
     (let (nn, m) = networkNumberAndMask n;
          ip = (if To4 ip0 = [] then ip0 else To4 ip0)
      in length ip = length nn \<and>
         (\<forall>i < length ip. nn ! i AND m ! i = ip ! i AND m ! i))"

section \<open>Lemmas: printing and parsing IPv4 addresses\<close>

lemma To4_IPv4 [simp]: "To4 (IPv4 a b c d) = [a, b, c, d]"
  by (simp add: To4_def IPv4_def v4InV6Prefix_def)

lemma IP_String_IPv4 [simp]: "IP_String (IPv4 a b c d) = Some (dotted a b c d)"
  by (simp add: IP_String_def)

lemma is_dec_digit_char [simp]: "d < 10 \<Longrightarrow> is_dec (digit_char d)"
  by (simp add: is_dec_def)

lemma dec_val_digit_char [simp]: "d < 10 \<Longrightarrow> dec_val (digit_char d) = d"
  by (simp add: dec_val_def)

lemma not_is_dec [simp]:
  "\<not> is_dec CHR ''.''" "\<not> is_dec CHR ''/''" "\<not> is_dec CHR '':''" "\<not> is_dec CHR ''%''"
  by (simp_all add: is_dec_def)

lemma dec_string_is_dec: "c \<in> set (dec_string n) \<Longrightarrow> is_dec c"
  using dec_string_digits by (simp add: is_dec_def)

text \<open>The decimal form of an octet, by its number of digits.\<close>

lemma dec_string_octet_cases:
  assumes "n < 256"
  obtains "n < 10" "dec_string n = [digit_char n]"
  | "10 \<le> n" "n < 100" "dec_string n = [digit_char (n div 10), digit_char (n mod 10)]"
  | "100 \<le> n"
    "dec_string n = [digit_char (n div 100), digit_char (n div 10 mod 10), digit_char (n mod 10)]"
proof -
  consider "n < 10" | "10 \<le> n" "n < 100" | "100 \<le> n" by linarith
  then show ?thesis
  proof cases
    case 1
    then show ?thesis using that(1) by (simp add: dec_string.simps [of n])
  next
    case 2
    then have "n div 10 < 10" by simp
    with 2 that(2) show ?thesis
      by (simp add: dec_string.simps [of n] dec_string.simps [of "n div 10"])
  next
    case 3
    with assms have "\<not> n div 10 < 10" "n div 100 < 10" by simp_all
    with 3 that(3) show ?thesis
      by (simp add: dec_string.simps [of n] dec_string.simps [of "n div 10"]
            dec_string.simps [of "n div 100"] div_mult2_eq [symmetric])
  qed
qed

lemma unat_u8_less [simp]: "unat (x :: u8) < 256"
  using unsigned_less [of x] by simp

lemma div_100_10: "n div 100 * 10 + n div 10 mod 10 = n div (10::nat)"
proof -
  have "n div 100 = n div 10 div 10" by (simp add: div_mult2_eq [symmetric])
  then show ?thesis by (simp only: div_mult_mod_eq)
qed

lemma v4_loop_octet:
  assumes "n < 256"
  shows "v4_loop 0 0 fs sep (dec_string n @ s) =
         v4_loop n (length (dec_string n)) fs False s"
  using assms
proof (cases rule: dec_string_octet_cases)
  case 1
  then show ?thesis by simp
next
  case 2
  have "n div 10 * 10 + n mod 10 = n" by (rule div_mult_mod_eq)
  moreover have "n div 10 < 10" "0 < n div 10" using 2 by (simp_all add: div_greater_zero_iff)
  ultimately show ?thesis using 2 assms by simp
next
  case 3
  have "(n div 100 * 10 + n div 10 mod 10) = n div 10"
    by (rule div_100_10)
  moreover have "n div 10 * 10 + n mod 10 = n" by (rule div_mult_mod_eq)
  moreover have "n div 10 \<le> 255" "n div 100 \<noteq> 0" "n div 100 < 10"
    using 3 assms by simp_all
  ultimately show ?thesis using 3 assms by simp
qed

lemma parseIPv4Fields_dotted [simp]: "parseIPv4Fields (dotted a b c d) = Some [a, b, c, d]"
proof -
  have "v4_loop 0 0 fs sep (dec_string (unat x)) =
        v4_loop (unat x) (length (dec_string (unat x))) fs False []" for x :: u8 and fs sep
    using v4_loop_octet [OF unat_u8_less, of fs sep x "[]"] by simp
  then show ?thesis
    by (simp add: parseIPv4Fields_def dotted_def v4_loop_octet)
qed

lemma ParseAddr_scan_skip:
  "\<forall>c \<in> set p. is_dec c \<Longrightarrow> ParseAddr_scan s (p @ q) = ParseAddr_scan s q"
  by (induction p) auto

lemma ParseAddr_dotted [simp]: "ParseAddr (dotted a b c d) = Some (Addr4 [a, b, c, d])"
proof -
  have "ParseAddr_scan s (dotted a b c d) =
        map_option Addr4 (parseIPv4Fields s)" for s
    unfolding dotted_def by (simp add: ParseAddr_scan_skip dec_string_is_dec)
  then show ?thesis by (simp add: ParseAddr_def)
qed

lemma ParseIP_dotted [simp]: "ParseIP (dotted a b c d) = IPv4 a b c d"
  by (simp add: ParseIP_def IPv4_def)

lemma slash_notin_dotted [simp]: "CHR ''/'' \<notin> set (dotted a b c d)"
proof -
  have "CHR ''/'' \<notin> set (dec_string n)" for n
    using dec_string_is_dec [of "CHR ''/''"] by auto
  then show ?thesis by (simp add: dotted_def)
qed

lemma dtoi_loop_octet:
  assumes "n < 256"
  shows "dtoi_loop 0 (dec_string n) = Some n"
  using assms
proof (cases rule: dec_string_octet_cases)
  case 3
  then show ?thesis using assms div_100_10 [of n] by simp
qed simp_all

lemma dtoi_octet [simp]: "n < 256 \<Longrightarrow> dtoi (dec_string n) = Some n"
  by (simp add: dtoi_def dtoi_loop_octet)

text \<open>Masks built from a prefix length have that length.\<close>

lemma length_mask_bytes [simp]: "length (mask_bytes l n) = l"
  by (induction l n rule: mask_bytes.induct) simp_all

lemma set_mask_bytes_0: "w \<in> set (mask_bytes l 0) \<Longrightarrow> w = 0"
  by (induction l) auto

lemma less_8_cases:
  "(n::nat) < 8 \<Longrightarrow> n = 0 \<or> n = 1 \<or> n = 2 \<or> n = 3 \<or> n = 4 \<or> n = 5 \<or> n = 6 \<or> n = 7"
  by arith

lemma byte_ones_9:
  "byte_ones 9 v n = byte_ones (Suc (Suc (Suc (Suc (Suc (Suc (Suc (Suc (Suc 0))))))))) v n"
  by (simp add: eval_nat_numeral)

lemma byte_ones_mask:
  "n < 8 \<Longrightarrow> byte_ones 9 (NOT (drop_bit n 255)) k = Some (k + n) \<and> NOT (drop_bit n 255 :: u8) \<noteq> 255"
  by (drule less_8_cases) (elim disjE; simp add: byte_ones_9)

lemma simpleMaskLength_mask_bytes:
  "n \<le> 8 * l \<Longrightarrow> simpleMaskLength (mask_bytes l n) k = Some (k + n)"
proof (induction l n arbitrary: k rule: mask_bytes.induct)
  case (2 l n)
  then show ?case
    using byte_ones_mask [of n k] set_mask_bytes_0 [of _ l] by (auto simp: not_le)
qed simp

lemma Mask_Size_CIDRMask:
  "n \<le> 8 * l \<Longrightarrow> Mask_Size (CIDRMask n (8 * l)) = (n, 8 * l)"
  by (simp add: Mask_Size_def CIDRMask_def simpleMaskLength_mask_bytes)

lemma ParseCIDR_dotted:
  assumes "n \<le> 32"
  shows "ParseCIDR (dotted a b c d @ ''/'' @ dec_string n) =
         Some (IPv4 a b c d, \<lparr>net_IP = map2 (AND) [a, b, c, d] (CIDRMask n 32),
                              net_Mask = CIDRMask n 32\<rparr>)"
proof -
  let ?s = "dotted a b c d @ ''/'' @ dec_string n"
  have t: "takeWhile (\<lambda>x. x \<noteq> CHR ''/'') ?s = dotted a b c d"
    using slash_notin_dotted [of a b c d] by (subst takeWhile_append2) fastforce+
  have "IP_Mask (IPv4 a b c d) (CIDRMask n 32) = map2 (AND) [a, b, c, d] (CIDRMask n 32)"
    by (simp add: IP_Mask_def IPv4_def v4InV6Prefix_def CIDRMask_def)
  then show ?thesis
    using assms unfolding ParseCIDR_def Let_def t by (simp add: IPv4_def [symmetric])
qed

lemma ParseCIDR_no_slash: "CHR ''/'' \<notin> set s \<Longrightarrow> ParseCIDR s = None"
  by (simp add: ParseCIDR_def Let_def)

end
