(* ===== verification/Contracts.thy ===== *)
theory Contracts
  imports GoNet
begin

text \<open>
  \<^verbatim>\<open>src/user-space/pkg/types/contracts.go\<close>: log severities, drop reasons and actions (Go
  types over \<open>uint8\<close>, so every byte is a value of them), the 24-byte telemetry record with
  its decoder, the textual renderings the monitor prints, and the construction of LPM
  trie keys from addresses and CIDR strings.  Strings are ASCII: \<open>strings.ToLower\<close> and
  \<open>strings.TrimSpace\<close> are given on ASCII characters and leave other bytes alone.
\<close>

section \<open>Severities, drop reasons, actions\<close>

type_synonym LogSeverity = u8
type_synonym DropReason = u8
type_synonym Action = u8

definition LogLevelOff :: LogSeverity where [guards, code_unfold]: "LogLevelOff = 0"
definition LogLevelDebug :: LogSeverity where [guards, code_unfold]: "LogLevelDebug = 1"
definition LogLevelInfo :: LogSeverity where [guards, code_unfold]: "LogLevelInfo = 2"
definition LogLevelWarn :: LogSeverity where [guards, code_unfold]: "LogLevelWarn = 3"
definition LogLevelError :: LogSeverity where [guards, code_unfold]: "LogLevelError = 4"

text \<open>Errors of this package: the format arguments of the message.\<close>

datatype types_error =
    UnknownLogLevel string
  | InvalidPayloadSize nat
  | InvalidIPv4Address string
  | OnlyIPv4Supported

definition to_lower_char :: "char \<Rightarrow> char" where
  "to_lower_char c = (if 65 \<le> (of_char c :: nat) \<and> (of_char c :: nat) \<le> 90
                      then char_of (of_char c + 32 :: nat) else c)"

definition ToLower :: "string \<Rightarrow> string" where
  "ToLower s = map to_lower_char s"

definition is_space_char :: "char \<Rightarrow> bool" where
  "is_space_char c \<longleftrightarrow> (of_char c :: nat) \<in> {9, 10, 11, 12, 13, 32}"

definition TrimSpace :: "string \<Rightarrow> string" where
  "TrimSpace s = rev (dropWhile is_space_char (rev (dropWhile is_space_char s)))"

definition ParseLogLevel :: "string \<Rightarrow> types_error + LogSeverity" where
  "ParseLogLevel level =
     (let s = ToLower (TrimSpace level)
      in if s = ''debug'' then Inr LogLevelDebug
         else if s = ''info'' then Inr LogLevelInfo
         else if s = ''warn'' \<or> s = ''warning'' then Inr LogLevelWarn
         else if s = ''error'' then Inr LogLevelError
         else if s = ''off'' \<or> s = ''none'' \<or> s = ''disabled'' then Inr LogLevelOff
         else Inl (UnknownLogLevel level))"

definition LogSeverity_String :: "LogSeverity \<Rightarrow> string" where
  "LogSeverity_String s =
     (if s = LogLevelDebug then ''DEBUG''
      else if s = LogLevelInfo then ''INFO''
      else if s = LogLevelWarn then ''WARN''
      else if s = LogLevelError then ''ERROR''
      else ''OFF'')"

text \<open>The escape character that starts a terminal colour sequence.\<close>

abbreviation esc :: char where "esc \<equiv> CHR 0x1B"

definition ColoredPrefix :: "LogSeverity \<Rightarrow> string" where
  "ColoredPrefix s =
     (if s = LogLevelDebug then esc # ''[36m[DEBUG]'' @ esc # ''[0m''
      else if s = LogLevelInfo then esc # ''[32m[INFO]'' @ esc # ''[0m ''
      else if s = LogLevelWarn then esc # ''[33m[WARN]'' @ esc # ''[0m ''
      else if s = LogLevelError then esc # ''[31m[ERROR]'' @ esc # ''[0m''
      else ''[OFF]  '')"

definition DropReasonNone :: DropReason where [guards, code_unfold]: "DropReasonNone = 0"
definition DropReasonEthParseFailed :: DropReason where [guards, code_unfold]: "DropReasonEthParseFailed = 1"
definition DropReasonIpv4ParseFailed :: DropReason where [guards, code_unfold]: "DropReasonIpv4ParseFailed = 2"
definition DropReasonTcpParseFailed :: DropReason where [guards, code_unfold]: "DropReasonTcpParseFailed = 3"
definition DropReasonUdpParseFailed :: DropReason where [guards, code_unfold]: "DropReasonUdpParseFailed = 4"
definition DropReasonArpParseFailed :: DropReason where [guards, code_unfold]: "DropReasonArpParseFailed = 5"
definition DropReasonMalformedPacket :: DropReason where [guards, code_unfold]: "DropReasonMalformedPacket = 6"
definition DropReasonRfcLandAttack :: DropReason where [guards, code_unfold]: "DropReasonRfcLandAttack = 10"
definition DropReasonRfcNullScan :: DropReason where [guards, code_unfold]: "DropReasonRfcNullScan = 11"
definition DropReasonRfcSynFin :: DropReason where [guards, code_unfold]: "DropReasonRfcSynFin = 12"
definition DropReasonRfcXmasScan :: DropReason where [guards, code_unfold]: "DropReasonRfcXmasScan = 13"
definition DropReasonBlacklistHit :: DropReason where [guards, code_unfold]: "DropReasonBlacklistHit = 14"
definition DropReasonPortBlocked :: DropReason where [guards, code_unfold]: "DropReasonPortBlocked = 20"
definition DropReasonRateLimited :: DropReason where [guards, code_unfold]: "DropReasonRateLimited = 21"

definition Severity :: "DropReason \<Rightarrow> LogSeverity" where
  "Severity r =
     (if 1 \<le> r \<and> r \<le> 9 then LogLevelError
      else if 10 \<le> r \<and> r \<le> 19 then LogLevelWarn
      else if 20 \<le> r \<and> r \<le> 29 then LogLevelInfo
      else LogLevelDebug)"

definition DropReason_String :: "DropReason \<Rightarrow> string" where
  "DropReason_String r =
     (if r = DropReasonNone then ''PASS_CLEAN''
      else if r = DropReasonEthParseFailed then ''ERR_ETH_PARSE_FAILED''
      else if r = DropReasonIpv4ParseFailed then ''ERR_IPV4_PARSE_FAILED''
      else if r = DropReasonTcpParseFailed then ''ERR_TCP_PARSE_FAILED''
      else if r = DropReasonUdpParseFailed then ''ERR_UDP_PARSE_FAILED''
      else if r = DropReasonArpParseFailed then ''ERR_ARP_PARSE_FAILED''
      else if r = DropReasonMalformedPacket then ''ERR_MALFORMED_PACKET''
      else if r = DropReasonRfcLandAttack then ''WARN_RFC_LAND_ATTACK''
      else if r = DropReasonRfcNullScan then ''WARN_RFC_NULL_SCAN''
      else if r = DropReasonRfcSynFin then ''WARN_RFC_SYN_FIN_CONFLICT''
      else if r = DropReasonRfcXmasScan then ''WARN_RFC_XMAS_SCAN''
      else if r = DropReasonBlacklistHit then ''WARN_LPM_BLACKLIST_HIT''
      else if r = DropReasonPortBlocked then ''INFO_PORT_GATE_BLOCKED''
      else if r = DropReasonRateLimited then ''INFO_RATE_LIMIT_EXCEEDED''
      else ''UNKNOWN_REASON_'' @ dec_string (unat r))"

definition ActionDrop :: Action where [guards, code_unfold]: "ActionDrop = 1"
definition ActionPass :: Action where [guards, code_unfold]: "ActionPass = 2"
definition ActionTx :: Action where [guards, code_unfold]: "ActionTx = 3"
definition ActionRedirect :: Action where [guards, code_unfold]: "ActionRedirect = 4"
definition ActionWouldDrop :: Action where [guards, code_unfold]: "ActionWouldDrop = 5"

definition Action_String :: "Action \<Rightarrow> string" where
  "Action_String a =
     (if a = ActionDrop then ''DROP''
      else if a = ActionPass then ''PASS''
      else if a = ActionTx then ''TX''
      else if a = ActionRedirect then ''REDIRECT''
      else if a = ActionWouldDrop then ''WOULD_DROP''
      else ''ACTION_'' @ dec_string (unat a))"

definition ColoredBadge :: "Action \<Rightarrow> string" where
  "ColoredBadge a =
     (if a = ActionDrop then esc # ''[41;97m DROP '' @ esc # ''[0m''
      else if a = ActionPass then esc # ''[42;97m PASS '' @ esc # ''[0m''
      else if a = ActionTx then esc # ''[44;97m  TX  '' @ esc # ''[0m''
      else if a = ActionRedirect then esc # ''[45;97m RDRT '' @ esc # ''[0m''
      else if a = ActionWouldDrop then esc # ''[43;30m WDRP '' @ esc # ''[0m''
      else ''['' @ Action_String a @ '']'')"

section \<open>The telemetry record\<close>

record FlowPacketMeta =
  SrcIP :: u32
  DstIP :: u32
  SrcPort :: u16
  DstPort :: u16
  Protocol :: u8
  TCPFlags :: u8
  m_Action :: u8
  m_DropReason :: u8
  TimestampNS :: u64

text \<open>\<open>encoding/binary\<close>: the readers of big- and little-endian integers.\<close>

definition be_u32 :: "u8 list \<Rightarrow> u32" where
  "be_u32 b = ucast (b ! 3) OR push_bit 8 (ucast (b ! 2)) OR
              push_bit 16 (ucast (b ! 1)) OR push_bit 24 (ucast (b ! 0))"

definition le_u16 :: "u8 list \<Rightarrow> u16" where
  "le_u16 b = ucast (b ! 0) OR push_bit 8 (ucast (b ! 1))"

definition le_u64 :: "u8 list \<Rightarrow> u64" where
  "le_u64 b = ucast (b ! 0) OR push_bit 8 (ucast (b ! 1)) OR
              push_bit 16 (ucast (b ! 2)) OR push_bit 24 (ucast (b ! 3)) OR
              push_bit 32 (ucast (b ! 4)) OR push_bit 40 (ucast (b ! 5)) OR
              push_bit 48 (ucast (b ! 6)) OR push_bit 56 (ucast (b ! 7))"

text \<open>A slice expression \<open>data[i:j]\<close>; every use is in range after the length check.\<close>

definition slice :: "u8 list \<Rightarrow> nat \<Rightarrow> nat \<Rightarrow> u8 list" where
  "slice data i j = take (j - i) (drop i data)"

text \<open>The method assigns to its receiver, which is left alone when the payload is short.\<close>

definition UnmarshalBinary :: "FlowPacketMeta \<Rightarrow> u8 list \<Rightarrow> types_error + FlowPacketMeta" where
  "UnmarshalBinary m data =
     (if length data < 24 then Inl (InvalidPayloadSize (length data))
      else Inr (m\<lparr>SrcIP := be_u32 (slice data 0 4),
                  DstIP := be_u32 (slice data 4 8),
                  SrcPort := le_u16 (slice data 8 10),
                  DstPort := le_u16 (slice data 10 12),
                  Protocol := data ! 12,
                  TCPFlags := data ! 13,
                  m_Action := data ! 14,
                  m_DropReason := data ! 15,
                  TimestampNS := le_u64 (slice data 16 24)\<rparr>))"

definition SrcIPNet :: "FlowPacketMeta \<Rightarrow> IP" where
  "SrcIPNet m = IPv4 (ucast (drop_bit 24 (SrcIP m))) (ucast (drop_bit 16 (SrcIP m)))
                     (ucast (drop_bit 8 (SrcIP m))) (ucast (SrcIP m))"

definition DstIPNet :: "FlowPacketMeta \<Rightarrow> IP" where
  "DstIPNet m = IPv4 (ucast (drop_bit 24 (DstIP m))) (ucast (drop_bit 16 (DstIP m)))
                     (ucast (drop_bit 8 (DstIP m))) (ucast (DstIP m))"

definition ProtocolName :: "FlowPacketMeta \<Rightarrow> string" where
  "ProtocolName m =
     (if Protocol m = 1 then ''ICMP''
      else if Protocol m = 6 then ''TCP''
      else if Protocol m = 17 then ''UDP''
      else if Protocol m = 58 then ''ICMPv6''
      else ''IP_'' @ dec_string (unat (Protocol m)))"

text \<open>\<open>strings.Join\<close>.\<close>

fun Join :: "string list \<Rightarrow> string \<Rightarrow> string" where
  "Join [] sep = []"
| "Join [s] sep = s"
| "Join (s # t # ss) sep = s @ sep @ Join (t # ss) sep"

definition flag_names :: "u8 \<Rightarrow> string list" where
  "flag_names f =
     (if f AND 0x01 \<noteq> 0 then [''FIN''] else []) @
     (if f AND 0x02 \<noteq> 0 then [''SYN''] else []) @
     (if f AND 0x04 \<noteq> 0 then [''RST''] else []) @
     (if f AND 0x08 \<noteq> 0 then [''PSH''] else []) @
     (if f AND 0x10 \<noteq> 0 then [''ACK''] else []) @
     (if f AND 0x20 \<noteq> 0 then [''URG''] else [])"

definition TCPFlagsString :: "FlowPacketMeta \<Rightarrow> string" where
  "TCPFlagsString m =
     (if Protocol m \<noteq> 6 then ''-''
      else let flags = flag_names (TCPFlags m)
           in if length flags = 0 then ''NONE'' else Join flags ''|'')"

text \<open>
  \<open>time.Now().Format("15:04:05.000000")\<close>: the local time of day, here an argument in nanoseconds
  since midnight, cut off (not rounded) to microseconds.
\<close>

definition pad_digits :: "nat \<Rightarrow> nat \<Rightarrow> string" where
  "pad_digits k n = map (\<lambda>i. digit_char (n div 10 ^ i mod 10)) (rev [0..<k])"

definition FormattedTime :: "nat \<Rightarrow> string" where
  "FormattedTime now =
     pad_digits 2 (now div 3600000000000 mod 24) @ '':'' @ pad_digits 2 (now div 60000000000 mod 60) @ '':'' @
     pad_digits 2 (now div 1000000000 mod 60) @ ''.'' @ pad_digits 6 (now div 1000 mod 1000000)"

section \<open>LPM trie keys\<close>

record LpmIpv4Key =
  PrefixLen :: u32
  KeyAddr :: "u8 list"

record RateLimitState =
  LastUpdateNS :: u64
  Tokens :: u64

text \<open>
  \<open>copy(addr[:], src)\<close> into a zeroed 4-byte array: at most four bytes are taken, the rest
  of the array stays zero.
\<close>

definition copy4 :: "u8 list \<Rightarrow> u8 list" where
  "copy4 src = take 4 src @ replicate (4 - length src) 0"

definition NewLpmKey :: "string \<Rightarrow> types_error + LpmIpv4Key" where
  "NewLpmKey cidrStr =
     (case ParseCIDR cidrStr of
        None \<Rightarrow>
          (let parsedIP = To4 (ParseIP cidrStr)
           in if parsedIP = [] then Inl (InvalidIPv4Address cidrStr)
              else Inr \<lparr>PrefixLen = 32, KeyAddr = copy4 parsedIP\<rparr>)
      | Some (ip, ipNet) \<Rightarrow>
          (let ipv4 = To4 ip
           in if ipv4 = [] then Inl OnlyIPv4Supported
              else let ones = fst (Mask_Size (net_Mask ipNet))
                   in Inr \<lparr>PrefixLen = of_nat ones, KeyAddr = copy4 ipv4\<rparr>))"

end
