(* ===== verification/KernelWire.thy ===== *)
theory KernelWire
  imports Contracts
begin

text \<open>
  The crate \<^verbatim>\<open>src/common\<close> that the kernel program shares with user space: the enumerations
  of \<^verbatim>\<open>rules.rs\<close> with their discriminants and the \<open>repr(C)\<close> telemetry struct of
  \<^verbatim>\<open>telemetry.rs\<close>, as the bytes a little-endian eBPF target stores.  The lemmas relate
  both sides of the ring buffer: the Go decoder reads back what the kernel wrote, and both
  classify a drop reason alike.
\<close>

section \<open>Protocol numbers\<close>

definition eth_types_IPV4 :: u16 where [guards, code_unfold]: "eth_types_IPV4 = 0x0800"
definition eth_types_IPV6 :: u16 where [guards, code_unfold]: "eth_types_IPV6 = 0x86DD"
definition eth_types_ARP :: u16 where [guards, code_unfold]: "eth_types_ARP = 0x0806"
definition VLAN_8021Q :: u16 where [guards, code_unfold]: "VLAN_8021Q = 0x8100"
definition QINQ_8021AD :: u16 where [guards, code_unfold]: "QINQ_8021AD = 0x88A8"

definition ip_proto_ICMP :: u8 where [guards, code_unfold]: "ip_proto_ICMP = 1"
definition ip_proto_TCP :: u8 where [guards, code_unfold]: "ip_proto_TCP = 6"
definition ip_proto_UDP :: u8 where [guards, code_unfold]: "ip_proto_UDP = 17"
definition ip_proto_ICMPV6 :: u8 where [guards, code_unfold]: "ip_proto_ICMPV6 = 58"

definition tcp_FIN :: u8 where [guards, code_unfold]: "tcp_FIN = 0x01"
definition tcp_SYN :: u8 where [guards, code_unfold]: "tcp_SYN = 0x02"
definition tcp_RST :: u8 where [guards, code_unfold]: "tcp_RST = 0x04"
definition tcp_PSH :: u8 where [guards, code_unfold]: "tcp_PSH = 0x08"
definition tcp_ACK :: u8 where [guards, code_unfold]: "tcp_ACK = 0x10"
definition tcp_URG :: u8 where [guards, code_unfold]: "tcp_URG = 0x20"
definition tcp_ECE :: u8 where [guards, code_unfold]: "tcp_ECE = 0x40"
definition tcp_CWR :: u8 where [guards, code_unfold]: "tcp_CWR = 0x80"

section \<open>Enumerations of rules.rs\<close>

datatype rs_LogSeverity = rs_Off | rs_Debug | rs_Info | rs_Warn | rs_Error

fun rs_LogSeverity_u8 :: "rs_LogSeverity \<Rightarrow> u8" where
  "rs_LogSeverity_u8 rs_Off = 0"
| "rs_LogSeverity_u8 rs_Debug = 1"
| "rs_LogSeverity_u8 rs_Info = 2"
| "rs_LogSeverity_u8 rs_Warn = 3"
| "rs_LogSeverity_u8 rs_Error = 4"

definition rs_LogSeverity_from_u8 :: "u8 \<Rightarrow> rs_LogSeverity" where
  "rs_LogSeverity_from_u8 val =
     (if val = 1 then rs_Debug else if val = 2 then rs_Info else if val = 3 then rs_Warn
      else if val = 4 then rs_Error else rs_Off)"

definition rs_LogSeverity_from_u32 :: "u32 \<Rightarrow> rs_LogSeverity" where
  "rs_LogSeverity_from_u32 val = rs_LogSeverity_from_u8 (ucast val)"

datatype rs_DropReason =
    rs_None
  | rs_EthParseFailed | rs_Ipv4ParseFailed | rs_TcpParseFailed | rs_UdpParseFailed
  | rs_ArpParseFailed | rs_MalformedPacket
  | rs_RfcLandAttack | rs_RfcNullScan | rs_RfcSynFin | rs_RfcXmasScan | rs_BlacklistHit
  | rs_PortBlocked | rs_RateLimited

fun rs_DropReason_u8 :: "rs_DropReason \<Rightarrow> u8" where
  "rs_DropReason_u8 rs_None = 0"
| "rs_DropReason_u8 rs_EthParseFailed = 1"
| "rs_DropReason_u8 rs_Ipv4ParseFailed = 2"
| "rs_DropReason_u8 rs_TcpParseFailed = 3"
| "rs_DropReason_u8 rs_UdpParseFailed = 4"
| "rs_DropReason_u8 rs_ArpParseFailed = 5"
| "rs_DropReason_u8 rs_MalformedPacket = 6"
| "rs_DropReason_u8 rs_RfcLandAttack = 10"
| "rs_DropReason_u8 rs_RfcNullScan = 11"
| "rs_DropReason_u8 rs_RfcSynFin = 12"
| "rs_DropReason_u8 rs_RfcXmasScan = 13"
| "rs_DropReason_u8 rs_BlacklistHit = 14"
| "rs_DropReason_u8 rs_PortBlocked = 20"
| "rs_DropReason_u8 rs_RateLimited = 21"

definition rs_severity :: "rs_DropReason \<Rightarrow> rs_LogSeverity" where
  "rs_severity r =
     (let v = rs_DropReason_u8 r
      in if 1 \<le> v \<and> v \<le> 9 then rs_Error
         else if 10 \<le> v \<and> v \<le> 19 then rs_Warn
         else if 20 \<le> v \<and> v \<le> 29 then rs_Info
         else rs_Debug)"

definition rs_DropReason_from_u8 :: "u8 \<Rightarrow> rs_DropReason" where
  "rs_DropReason_from_u8 val =
     (if val = 1 then rs_EthParseFailed
      else if val = 2 then rs_Ipv4ParseFailed
      else if val = 3 then rs_TcpParseFailed
      else if val = 4 then rs_UdpParseFailed
      else if val = 5 then rs_ArpParseFailed
      else if val = 6 then rs_MalformedPacket
      else if val = 10 then rs_RfcLandAttack
      else if val = 11 then rs_RfcNullScan
      else if val = 12 then rs_RfcSynFin
      else if val = 13 then rs_RfcXmasScan
      else if val = 14 then rs_BlacklistHit
      else if val = 20 then rs_PortBlocked
      else if val = 21 then rs_RateLimited
      else rs_None)"

datatype rs_Action = rs_Drop | rs_Pass | rs_Tx | rs_Redirect | rs_WouldDrop

fun rs_Action_u8 :: "rs_Action \<Rightarrow> u8" where
  "rs_Action_u8 rs_Drop = 1"
| "rs_Action_u8 rs_Pass = 2"
| "rs_Action_u8 rs_Tx = 3"
| "rs_Action_u8 rs_Redirect = 4"
| "rs_Action_u8 rs_WouldDrop = 5"

record rs_LpmIpv4Key =
  prefix_len :: u32
  key_addr :: "u8 list"

definition rs_LpmIpv4Key_new :: "u8 list \<Rightarrow> u32 \<Rightarrow> rs_LpmIpv4Key" where
  "rs_LpmIpv4Key_new addr plen = \<lparr>prefix_len = plen, key_addr = addr\<rparr>"

record rs_RateLimitState =
  last_update_ns :: u64
  tokens :: u64

section \<open>The telemetry struct of telemetry.rs\<close>

record rs_FlowPacketMeta =
  src_ip :: u32
  dst_ip :: u32
  src_port :: u16
  dst_port :: u16
  protocol :: u8
  tcp_flags :: u8
  action :: u8
  drop_reason :: u8
  timestamp_ns :: u64

definition le_bytes16 :: "u16 \<Rightarrow> u8 list" where
  "le_bytes16 x = [ucast x, ucast (drop_bit 8 x)]"

definition le_bytes32 :: "u32 \<Rightarrow> u8 list" where
  "le_bytes32 x = [ucast x, ucast (drop_bit 8 x), ucast (drop_bit 16 x), ucast (drop_bit 24 x)]"

definition le_bytes64 :: "u64 \<Rightarrow> u8 list" where
  "le_bytes64 x = [ucast x, ucast (drop_bit 8 x), ucast (drop_bit 16 x), ucast (drop_bit 24 x),
                   ucast (drop_bit 32 x), ucast (drop_bit 40 x), ucast (drop_bit 48 x),
                   ucast (drop_bit 56 x)]"

text \<open>The memory of the struct: fields in declaration order, no padding.\<close>

definition rs_wire :: "rs_FlowPacketMeta \<Rightarrow> u8 list" where
  "rs_wire k = le_bytes32 (src_ip k) @ le_bytes32 (dst_ip k) @
               le_bytes16 (src_port k) @ le_bytes16 (dst_port k) @
               [protocol k, tcp_flags k, action k, drop_reason k] @
               le_bytes64 (timestamp_ns k)"

text \<open>
  An address the parser loads from the packet without byte-order conversion: four bytes
  in network order, read as a native little-endian word.
\<close>

definition raw_u32 :: "u8 \<Rightarrow> u8 \<Rightarrow> u8 \<Rightarrow> u8 \<Rightarrow> u32" where
  "raw_u32 a b c d = ucast a OR push_bit 8 (ucast b) OR push_bit 16 (ucast c) OR
                     push_bit 24 (ucast d)"

section \<open>Bytes of words\<close>

lemma le_u16_bytes [simp]: "le_u16 (le_bytes16 x) = x"
  unfolding le_u16_def le_bytes16_def
  by (rule bit_word_eqI) (auto simp: bit_simps)

lemma le_u64_bytes [simp]: "le_u64 (le_bytes64 x) = x"
proof (rule bit_word_eqI)
  fix n :: nat
  assume "n < LENGTH(64)"
  then consider "n < 8" | "8 \<le> n \<and> n < 16" | "16 \<le> n \<and> n < 24" | "24 \<le> n \<and> n < 32"
    | "32 \<le> n \<and> n < 40" | "40 \<le> n \<and> n < 48" | "48 \<le> n \<and> n < 56" | "56 \<le> n \<and> n < 64"
    by (simp add: linorder_not_less) linarith
  then show "bit (le_u64 (le_bytes64 x)) n = bit x n"
    by cases (auto simp: le_u64_def le_bytes64_def bit_simps less_diff_conv2)
qed

lemma le_bytes32_raw [simp]: "le_bytes32 (raw_u32 a b c d) = [a, b, c, d]"
  unfolding le_bytes32_def raw_u32_def
  by (auto intro!: bit_word_eqI simp: bit_simps)

lemma raw_u32_eq_iff: "raw_u32 a b c d = raw_u32 a' b' c' d' \<longleftrightarrow> [a, b, c, d] = [a', b', c', d']"
proof
  assume "raw_u32 a b c d = raw_u32 a' b' c' d'"
  then have "le_bytes32 (raw_u32 a b c d) = le_bytes32 (raw_u32 a' b' c' d')" by (rule arg_cong)
  then show "[a, b, c, d] = [a', b', c', d']" by (simp only: le_bytes32_raw)
qed simp

lemma be_u32_octets:
  "ucast (drop_bit 24 (be_u32 [a, b, c, d])) = a"
  "ucast (drop_bit 16 (be_u32 [a, b, c, d])) = b"
  "ucast (drop_bit 8 (be_u32 [a, b, c, d])) = c"
  "ucast (be_u32 [a, b, c, d]) = d"
  unfolding be_u32_def
  by (auto intro!: bit_word_eqI simp: bit_simps)

lemma rs_wire_length: "length (rs_wire k) = 24"
  by (simp add: rs_wire_def le_bytes16_def le_bytes32_def le_bytes64_def)

text \<open>Where each field of the struct lies in the bytes.\<close>

lemma rs_wire_fields:
  "slice (rs_wire k @ rest) 0 4 = le_bytes32 (src_ip k)"
  "slice (rs_wire k @ rest) 4 8 = le_bytes32 (dst_ip k)"
  "slice (rs_wire k @ rest) 8 10 = le_bytes16 (src_port k)"
  "slice (rs_wire k @ rest) 10 12 = le_bytes16 (dst_port k)"
  "(rs_wire k @ rest) ! 12 = protocol k"
  "(rs_wire k @ rest) ! 13 = tcp_flags k"
  "(rs_wire k @ rest) ! 14 = action k"
  "(rs_wire k @ rest) ! 15 = drop_reason k"
  "slice (rs_wire k @ rest) 16 24 = le_bytes64 (timestamp_ns k)"
  by (simp_all add: slice_def rs_wire_def le_bytes16_def le_bytes32_def le_bytes64_def)

section \<open>Properties\<close>

text \<open>
  The Go decoder reads back what the kernel program emitted.  For any telemetry struct
  whose addresses were loaded from the packet as the bytes \<open>s0..s3\<close> and \<open>d0..d3\<close>, decoding
  the struct's memory (followed by any further bytes) into any previous value of \<open>meta\<close>
  succeeds; the ports, protocol, flags, action, reason and timestamp are those of the
  struct, and the source and destination shown are the packet's addresses in network order.
\<close>

theorem telemetry_roundtrip:
  fixes k :: rs_FlowPacketMeta
  assumes "src_ip k = raw_u32 s0 s1 s2 s3" and "dst_ip k = raw_u32 d0 d1 d2 d3"
  shows "\<exists>m. UnmarshalBinary prev (rs_wire k @ rest) = Inr m \<and>
           SrcIPNet m = IPv4 s0 s1 s2 s3 \<and> DstIPNet m = IPv4 d0 d1 d2 d3 \<and>
           SrcPort m = src_port k \<and> DstPort m = dst_port k \<and>
           Protocol m = protocol k \<and> TCPFlags m = tcp_flags k \<and>
           m_Action m = action k \<and> m_DropReason m = drop_reason k \<and>
           TimestampNS m = timestamp_ns k"
proof -
  have "\<not> length (rs_wire k @ rest) < 24" by (simp add: rs_wire_length)
  then show ?thesis
    unfolding UnmarshalBinary_def rs_wire_fields assms le_bytes32_raw
    by (simp add: SrcIPNet_def DstIPNet_def be_u32_octets)
qed

theorem telemetry_roundtrip_witness:
  "\<exists>m. UnmarshalBinary
         \<lparr>SrcIP = 1, DstIP = 2, SrcPort = 3, DstPort = 4, Protocol = 5, TCPFlags = 6,
          m_Action = 7, m_DropReason = 8, TimestampNS = 9\<rparr>
         (rs_wire \<lparr>src_ip = raw_u32 192 168 1 100, dst_ip = raw_u32 10 0 0 1, src_port = 443,
                   dst_port = 80, protocol = 6, tcp_flags = 0x12, action = 1,
                   drop_reason = 14, timestamp_ns = 1234567890\<rparr> @ []) = Inr m \<and>
       SrcIPNet m = IPv4 192 168 1 100 \<and> DstIPNet m = IPv4 10 0 0 1 \<and>
       SrcPort m = 443 \<and> DstPort m = 80 \<and> Protocol m = 6 \<and> TCPFlags m = 0x12 \<and>
       m_Action m = 1 \<and> m_DropReason m = 14 \<and> TimestampNS m = 1234567890"
  by (rule exE [OF telemetry_roundtrip
        [where k = "\<lparr>src_ip = raw_u32 192 168 1 100, dst_ip = raw_u32 10 0 0 1, src_port = 443,
                     dst_port = 80, protocol = 6, tcp_flags = 0x12, action = 1,
                     drop_reason = 14, timestamp_ns = 1234567890\<rparr>"
          and rest = "[]"
          and prev = "\<lparr>SrcIP = 1, DstIP = 2, SrcPort = 3, DstPort = 4, Protocol = 5,
                      TCPFlags = 6, m_Action = 7, m_DropReason = 8, TimestampNS = 9\<rparr>"]])
     (simp_all, blast)

text \<open>
  Both sides of the ring buffer classify every drop reason alike: the severity the Go
  monitor computes from the byte is the one the kernel filters on, the byte determines the
  reason, and the names the monitor prints tell the kernel's reasons apart.
\<close>

theorem severity_agrees:
  "Severity (rs_DropReason_u8 r) = rs_LogSeverity_u8 (rs_severity r) \<and>
   rs_DropReason_from_u8 (rs_DropReason_u8 r) = r \<and>
   (DropReason_String (rs_DropReason_u8 r) = DropReason_String (rs_DropReason_u8 r') \<longleftrightarrow> r = r')"
  by (intro conjI; cases r; cases r')
     (simp_all add: Severity_def rs_severity_def rs_DropReason_from_u8_def DropReason_String_def
        guards)

end
