(* ===== verification/LpmKeys.thy ===== *)
theory LpmKeys
  imports Contracts
begin

text \<open>
  Lemmas and properties of the parsing operations of \<^verbatim>\<open>types/contracts.go\<close>: log levels
  (\<open>ParseLogLevel\<close> against \<open>LogSeverity.String\<close>) and LPM trie keys (\<open>NewLpmKey\<close>), with the
  characters that the text of an address can have.
\<close>

section \<open>Parsed addresses\<close>

text \<open>A round of the IPv6 loop that reads a group of hexadecimal digits.\<close>

lemma v6_loop_group:
  fixes ell ip s
  defines "acc \<equiv> foldl (\<lambda>a c. a * 16 + hex_val c) 0 (takeWhile is_hex s)"
  defines "x \<equiv> [of_nat (acc div 256), of_nat (acc mod 256)]"
  assumes "length ip < 16" and "\<not> (dropWhile is_hex s \<noteq> [] \<and> hd (dropWhile is_hex s) = CHR ''.'')"
  shows "v6_loop ell ip s =
     (if takeWhile is_hex s = [] \<or> 4 < length (takeWhile is_hex s) then None
      else case dropWhile is_hex s of [] \<Rightarrow> Some (ell, ip @ x, [])
      | [c] \<Rightarrow> None
      | c # c2 # s2 \<Rightarrow>
          if c \<noteq> CHR '':'' then None
          else if c2 = CHR '':'' then
            if ell \<noteq> None then None
            else if s2 = [] then Some (Some (length (ip @ x)), ip @ x, [])
            else v6_loop (Some (length (ip @ x))) (ip @ x) s2
          else v6_loop ell (ip @ x) (c2 # s2))"
  using assms(3,4) unfolding x_def acc_def Let_def v6_loop.simps [of ell ip s] by auto

lemma To4_length: "To4 ip \<noteq> [] \<Longrightarrow> length (To4 ip) = 4"
  by (simp add: To4_def split: if_splits)

lemma copy4_4 [simp]: "length a = 4 \<Longrightarrow> copy4 a = a"
  by (simp add: copy4_def)

lemma BitLen_cases: "BitLen a = 8 * 4 \<or> BitLen a = 8 * 16"
  by (cases a) auto

lemma CIDR_mask_ones: "n \<le> BitLen a \<Longrightarrow> fst (Mask_Size (CIDRMask n (BitLen a))) = n"
  using BitLen_cases [of a] Mask_Size_CIDRMask [of n 4] Mask_Size_CIDRMask [of n 16] by auto

section \<open>Log levels\<close>

lemma ToLower_String:
  "ToLower (LogSeverity_String s) =
     (if s = 1 then ''debug'' else if s = 2 then ''info'' else if s = 3 then ''warn''
      else if s = 4 then ''error'' else ''off'')"
  by (simp add: ToLower_def LogSeverity_String_def guards to_lower_char_def char_of_eq_iff)

lemma no_space_String: "c \<in> set (LogSeverity_String s) \<Longrightarrow> \<not> is_space_char c"
  by (auto simp: LogSeverity_String_def is_space_char_def split: if_splits)

lemma dropWhile_spaces:
  assumes "\<forall>c \<in> set p. is_space_char c" and "w \<noteq> []" and "\<not> is_space_char (hd w)"
  shows "dropWhile is_space_char (p @ w) = w"
  using assms by (induction p) (auto simp: neq_Nil_conv)

lemma TrimSpace_padded:
  assumes "\<forall>c \<in> set p. is_space_char c" and "\<forall>c \<in> set q. is_space_char c"
    and "w \<noteq> []" and "\<forall>c \<in> set w. \<not> is_space_char c"
  shows "TrimSpace (p @ w @ q) = w"
proof -
  have "\<not> is_space_char (hd w)" "\<not> is_space_char (hd (rev w))"
    using assms(3,4) hd_in_set [of w] hd_in_set [of "rev w"] by auto
  moreover have "dropWhile is_space_char (p @ (w @ q)) = w @ q"
    using assms by (intro dropWhile_spaces) auto
  moreover have "dropWhile is_space_char (rev q @ rev w) = rev w"
    using assms calculation by (intro dropWhile_spaces) auto
  ultimately show ?thesis by (simp add: TrimSpace_def)
qed

section \<open>Dotted addresses\<close>

lemma NewLpmKey_host:
  "NewLpmKey (dotted a b c d) = Inr \<lparr>PrefixLen = 32, KeyAddr = [a, b, c, d]\<rparr>"
  by (simp add: NewLpmKey_def ParseCIDR_no_slash)

lemma NewLpmKey_prefix:
  assumes "n \<le> 32"
  shows "NewLpmKey (dotted a b c d @ ''/'' @ dec_string n) =
           Inr \<lparr>PrefixLen = of_nat n, KeyAddr = [a, b, c, d]\<rparr>"
proof -
  have "fst (Mask_Size (CIDRMask n 32)) = n"
    using Mask_Size_CIDRMask [of n 4] assms by simp
  then show ?thesis
    unfolding NewLpmKey_def by (simp add: ParseCIDR_dotted [OF assms, simplified])
qed

section \<open>The accepted strings\<close>

text \<open>The characters of an address without a zone.\<close>

lemma v4_loop_chars: "v4_loop val n fs sep s = Some r \<Longrightarrow> c \<in> set s \<Longrightarrow> is_dec c \<or> c = CHR ''.''"
  by (induction val n fs sep s rule: v4_loop.induct) (auto split: if_splits)

lemma v6_loop_chars:
  assumes "v6_loop ell ip s = Some (ell', ip', s')" and "c \<in> set s"
  shows "is_hex c \<or> c = CHR ''.'' \<or> c = CHR '':'' \<or> c \<in> set s'"
  using assms
proof (induction "length s" arbitrary: ell ip s rule: less_induct)
  case less
  consider (full) "16 \<le> length ip"
    | (dot) "length ip < 16" "dropWhile is_hex s \<noteq> [] \<and> hd (dropWhile is_hex s) = CHR ''.''"
    | (group) "length ip < 16" "\<not> (dropWhile is_hex s \<noteq> [] \<and> hd (dropWhile is_hex s) = CHR ''.'')"
    by linarith
  then show ?case
  proof cases
    case full
    then show ?thesis using less.prems by (simp add: v6_loop.simps [of ell ip s])
  next
    case dot
    then obtain fs where "v4_loop 0 0 [] True s = Some fs"
      using less.prems(1) by (auto simp: v6_loop.simps [of ell ip s] parseIPv4Fields_def split: if_splits)
    from v4_loop_chars [OF this less.prems(2)] show ?thesis by (auto simp: is_hex_def)
  next
    case group
    note eq = less.prems(1) [unfolded v6_loop_group [OF group]]
    have len: "length (dropWhile is_hex s) \<le> length s" by (rule length_dropWhile_le)
    show ?thesis
    proof (cases "c \<in> set (takeWhile is_hex s)")
      case True
      then show ?thesis by (auto dest: set_takeWhileD)
    next
      case False
      then have "c \<in> set (dropWhile is_hex s)"
        using less.prems(2) by (metis Un_iff set_append takeWhile_dropWhile_id)
      then obtain d ds where d: "dropWhile is_hex s = d # ds" "c \<in> set (d # ds)"
        by (cases "dropWhile is_hex s") auto
      with eq obtain c2 s2 where ds: "ds = c2 # s2" by (cases ds) (auto split: if_splits)
      have less': "length (c2 # s2) < length s" "length s2 < length s" using len d(1) ds by simp_all
      show ?thesis
        using eq d(2) less.hyps [OF less'(1)] less.hyps [OF less'(2)] unfolding d(1) ds
        by (auto split: if_splits)
    qed
  qed
qed

lemma ParseAddr_no_slash:
  assumes "ParseAddr s = Some a" and "Zone a = []"
  shows "CHR ''/'' \<notin> set s"
proof -
  have slash: "\<not> is_dec (CHR ''/'')" "\<not> is_hex (CHR ''/'')" by (simp_all add: is_dec_def is_hex_def)
  have v4: "CHR ''/'' \<notin> set s" if "parseIPv4Fields s = Some r" for r
    using v4_loop_chars [OF that [unfolded parseIPv4Fields_def], of "CHR ''/''"] slash by auto
  have loop: "CHR ''/'' \<notin> set t" if "Option.bind (v6_loop ell [] t) v6_finish = Some r" for ell t r
    using that slash v6_loop_chars [of ell "[]" t _ _ _ "CHR ''/''"]
    by (force simp: Option.bind_eq_Some_conv v6_finish_def split: if_splits)
  have v6: "CHR ''/'' \<notin> set s" if "parseIPv6 s = Some a"
  proof -
    have pct: "CHR ''%'' \<notin> set s"
      using that assms(2) by (auto simp: parseIPv6_def Let_def split: if_splits)
    then have tw: "takeWhile (\<lambda>c. c \<noteq> CHR ''%'') s = s" by (intro takeWhile_eq_all_conv [THEN iffD2]) auto
    show ?thesis
    proof (cases "take 2 s = ''::''")
      case True
      then have "set s = {CHR '':''} \<union> set (drop 2 s)" by (metis append_take_drop_id set_append list.set(1) list.set(2) insert_absorb2)
      moreover have "CHR ''/'' \<notin> set (drop 2 s)"
        using that True pct tw loop by (auto simp: parseIPv6_def Let_def split: if_splits)
      ultimately show ?thesis by simp
    next
      case False
      then show ?thesis using that pct tw loop by (auto simp: parseIPv6_def Let_def)
    qed
  qed
  have "ParseAddr_scan s t = Some a \<Longrightarrow> CHR ''/'' \<notin> set s" for t
    by (induction t) (auto split: if_splits dest: v4 v6)
  with assms(1) show ?thesis by (simp add: ParseAddr_def)
qed

lemma takeWhile_slash: "CHR ''/'' \<notin> set addr \<Longrightarrow> takeWhile (\<lambda>c. c \<noteq> CHR ''/'') (addr @ ''/'' @ digits) = addr"
  by (subst takeWhile_append2) auto

lemma ParseCIDR_iff:
  "ParseCIDR s = Some (ip, nt) \<longleftrightarrow>
     (\<exists>addr a digits n. s = addr @ ''/'' @ digits \<and> ParseAddr addr = Some a \<and> Zone a = [] \<and>
        dtoi digits = Some n \<and> n \<le> BitLen a \<and> ip = As16 a \<and>
        nt = \<lparr>net_IP = IP_Mask (As16 a) (CIDRMask n (BitLen a)), net_Mask = CIDRMask n (BitLen a)\<rparr>)"
  (is "?L \<longleftrightarrow> ?R")
proof
  let ?addr = "takeWhile (\<lambda>c. c \<noteq> CHR ''/'') s"
  assume L: ?L
  then have "CHR ''/'' \<in> set s" by (auto simp: ParseCIDR_def Let_def split: if_splits)
  then obtain addr digits where s: "s = addr @ CHR ''/'' # digits" "CHR ''/'' \<notin> set addr"
    using split_list_first by metis
  then have "?addr = addr" using takeWhile_slash [of addr digits] by simp
  with L s show ?R
    by (auto simp: ParseCIDR_def Let_def not_less split: if_splits option.splits)
next
  assume ?R
  then obtain addr a digits n where r: "s = addr @ ''/'' @ digits" "ParseAddr addr = Some a" "Zone a = []"
    "dtoi digits = Some n" "n \<le> BitLen a" "ip = As16 a"
    "nt = \<lparr>net_IP = IP_Mask (As16 a) (CIDRMask n (BitLen a)), net_Mask = CIDRMask n (BitLen a)\<rparr>" by blast
  have "takeWhile (\<lambda>c. c \<noteq> CHR ''/'') s = addr"
    unfolding r(1) by (rule takeWhile_slash [OF ParseAddr_no_slash [OF r(2,3)]])
  then show ?L using r by (simp add: ParseCIDR_def Let_def)
qed

lemma NewLpmKey_iff:
  "NewLpmKey s = Inr k \<longleftrightarrow>
     (\<exists>addr a. ParseAddr addr = Some a \<and> Zone a = [] \<and> To4 (As16 a) \<noteq> [] \<and> KeyAddr k = To4 (As16 a) \<and>
        (s = addr \<and> PrefixLen k = 32 \<or>
         (\<exists>digits n. s = addr @ ''/'' @ digits \<and> dtoi digits = Some n \<and> n \<le> BitLen a \<and> PrefixLen k = of_nat n)))"
  (is "?L \<longleftrightarrow> ?R")
proof -
  define A where "A addr a \<longleftrightarrow>
    ParseAddr addr = Some a \<and> Zone a = [] \<and> To4 (As16 a) \<noteq> [] \<and> KeyAddr k = To4 (As16 a)" for addr a
  define net where "net addr a \<longleftrightarrow>
    (\<exists>digits n. s = addr @ ''/'' @ digits \<and> dtoi digits = Some n \<and> n \<le> BitLen a \<and> PrefixLen k = of_nat n)" for addr a
  have "?R \<longleftrightarrow> (\<exists>addr a. A addr a \<and> (s = addr \<and> PrefixLen k = 32 \<or> net addr a))"
    unfolding A_def net_def by simp
  also have "\<dots> \<longleftrightarrow> ?L"
  proof (cases "ParseCIDR s")
    case None
    have "?L \<longleftrightarrow> (\<exists>a. A s a \<and> PrefixLen k = 32)"
      unfolding NewLpmKey_def None ParseIP_def A_def
      by (cases "ParseAddr s") (auto simp: Let_def To4_length To4_def [of "[]"] intro: LpmIpv4Key.equality)
    moreover have "\<not> (A addr a \<and> net addr a)" for addr a
      using None ParseCIDR_iff [of s] unfolding A_def net_def by fastforce
    ultimately show ?thesis by blast
  next
    case (Some r)
    obtain ip nt where r: "r = (ip, nt)" by (cases r)
    with Some ParseCIDR_iff [of s ip nt] obtain addr a digits n where c: "s = addr @ ''/'' @ digits"
      "ParseAddr addr = Some a" "Zone a = []" "dtoi digits = Some n" "n \<le> BitLen a" "ip = As16 a"
      "net_Mask nt = CIDRMask n (BitLen a)" by auto
    have key: "?L \<longleftrightarrow> To4 (As16 a) \<noteq> [] \<and> k = \<lparr>PrefixLen = of_nat n, KeyAddr = To4 (As16 a)\<rparr>"
      unfolding NewLpmKey_def Some r using CIDR_mask_ones [OF c(5)] c(6,7) by (auto simp: Let_def To4_length)
    have no_host: "\<not> (A addr' a' \<and> s = addr')" for addr' a'
      using ParseAddr_no_slash [of s a'] c(1) by (auto simp: A_def)
    have uniq: "addr' = addr \<and> digits' = digits" if "A addr' a'" "s = addr' @ ''/'' @ digits'" for addr' a' digits'
    proof -
      have "CHR ''/'' \<notin> set addr'" "CHR ''/'' \<notin> set addr"
        using ParseAddr_no_slash that(1) c(2,3) unfolding A_def by blast+
      with that(2) c(1) takeWhile_slash have "addr' = addr" by metis
      with that(2) c(1) show ?thesis by simp
    qed
    have "(\<exists>addr a. A addr a \<and> net addr a) \<longleftrightarrow> A addr a \<and> PrefixLen k = of_nat n"
    proof
      assume "\<exists>addr a. A addr a \<and> net addr a"
      then obtain addr' a' digits' n' where x: "A addr' a'" "s = addr' @ ''/'' @ digits'" "dtoi digits' = Some n'"
        "PrefixLen k = of_nat n'" unfolding net_def by blast
      from uniq [OF x(1,2)] x c show "A addr a \<and> PrefixLen k = of_nat n" by (auto simp: A_def)
    qed (use c in \<open>auto simp: net_def\<close>)
    then show ?thesis using key no_host c(2,3) by (auto simp: A_def intro: LpmIpv4Key.equality)
  qed
  finally show ?thesis by blast
qed

lemma NewLpmKey_printed:
  assumes "n < 256"
  shows "NewLpmKey (dotted p q u v @ ''/'' @ dec_string n) =
           (if n \<le> 32 then Inr \<lparr>PrefixLen = of_nat n, KeyAddr = [p, q, u, v]\<rparr>
            else Inl (InvalidIPv4Address (dotted p q u v @ ''/'' @ dec_string n)))"
proof (cases "n \<le> 32")
  case False
  let ?s = "dotted p q u v @ ''/'' @ dec_string n"
  have "takeWhile (\<lambda>c. c \<noteq> CHR ''/'') ?s = dotted p q u v"
    using slash_notin_dotted by (intro takeWhile_slash) auto
  then have "ParseCIDR ?s = None" using False assms by (simp add: ParseCIDR_def Let_def)
  moreover have "ParseIP ?s = []" using ParseAddr_no_slash [of ?s] by (auto simp: ParseIP_def split: option.splits)
  ultimately show ?thesis using False by (simp add: NewLpmKey_def Let_def To4_def)
qed (simp add: NewLpmKey_prefix [simplified])

section \<open>Mapped addresses\<close>

text \<open>
  The prefix length of a key can exceed the 32 bits of its address: an IPv4-mapped IPv6
  CIDR string passes the IPv4 check (its address has a 4-byte form) while its mask is
  counted over 128 bits.
\<close>

lemma NewLpmKey_mapped_prefix:
  "NewLpmKey ''::ffff:10.0.0.0/104'' = Inr \<lparr>PrefixLen = 104, KeyAddr = [10, 0, 0, 0]\<rparr>"
proof -
  have v4: "parseIPv4Fields ''10.0.0.0'' = Some [10, 0, 0, 0]"
    by (simp add: parseIPv4Fields_def is_dec_def dec_val_def)
  have "v6_loop (Some 0) [] ''ffff:10.0.0.0'' = Some (Some 0, [255, 255, 10, 0, 0, 0], [])"
    by (simp add: v6_loop.simps is_hex_def is_dec_def hex_val_def v4)
  then have "ParseAddr ''::ffff:10.0.0.0'' = Some (Addr6 (v4InV6Prefix @ [10, 0, 0, 0]) [])"
    by (simp add: ParseAddr_def parseIPv6_def v6_finish_def v4InV6Prefix_def numeral_eq_Suc)
  moreover have "dtoi ''104'' = Some 104"
    by (simp add: dtoi_def is_dec_def dec_val_def)
  moreover have "To4 (v4InV6Prefix @ [10, 0, 0, 0]) = [10, 0, 0, 0]"
    using To4_IPv4 by (simp add: IPv4_def)
  ultimately show ?thesis
    using Mask_Size_CIDRMask [of 104 16] by (simp add: NewLpmKey_def ParseCIDR_def Let_def)
qed

section \<open>Properties\<close>

text \<open>
  Parsing a log level undoes printing it: the name of each severity, with any white
  space around it, parses to that severity, and the name of a byte outside the defined
  levels parses to \<open>LogLevelOff\<close>.
\<close>

theorem ParseLogLevel_String:
  assumes "\<forall>c \<in> set p. is_space_char c" and "\<forall>c \<in> set q. is_space_char c"
  shows "ParseLogLevel (p @ LogSeverity_String s @ q) =
           Inr (if s \<le> LogLevelError then s else LogLevelOff)"
proof -
  have "LogSeverity_String s \<noteq> []" by (simp add: LogSeverity_String_def)
  then have t: "TrimSpace (p @ LogSeverity_String s @ q) = LogSeverity_String s"
    using assms no_space_String by (intro TrimSpace_padded) auto
  have "s \<le> 4 \<longleftrightarrow> s = 0 \<or> s = 1 \<or> s = 2 \<or> s = 3 \<or> s = 4"
    by (auto simp: word_le_nat_alt word_unat_eq_iff)
  then show ?thesis
    by (auto simp: ParseLogLevel_def t ToLower_String guards)
qed

theorem ParseLogLevel_String_witness:
  "ParseLogLevel ('' '' @ LogSeverity_String 3 @ [CHR 0x09]) =
     Inr (if (3::u8) \<le> LogLevelError then 3 else LogLevelOff)"
  by (rule ParseLogLevel_String) (simp_all add: is_space_char_def)

text \<open>
  (C36) Which strings \<open>NewLpmKey\<close> accepts, and with what key.  It returns a key exactly for the
  text of an address that has a four-byte form (an IPv4 address, or an IPv4-mapped IPv6 one
  without a zone), with prefix length 32, and for such a text followed by a slash and a decimal
  number up to the width of the address as it is written (32 or 128), with exactly that number
  as the prefix length; the key has the four bytes of the address as they are written, host bits
  included.  Every other string, any other IPv6 address or prefix among them, is an error.  In
  particular the printed form of each IPv4 prefix gives it back, and 33 to 255 after the slash
  is refused as an invalid address.
\<close>

theorem NewLpmKey_accepts:
  "(NewLpmKey s = Inr k \<longleftrightarrow>
      (\<exists>addr a. ParseAddr addr = Some a \<and> Zone a = [] \<and> To4 (As16 a) \<noteq> [] \<and> KeyAddr k = To4 (As16 a) \<and>
         (s = addr \<and> PrefixLen k = 32 \<or>
          (\<exists>digits n. s = addr @ ''/'' @ digits \<and> dtoi digits = Some n \<and> n \<le> BitLen a \<and> PrefixLen k = of_nat n)))) \<and>
   (n < 256 \<longrightarrow> NewLpmKey (dotted p q u v @ ''/'' @ dec_string n) =
      (if n \<le> 32 then Inr \<lparr>PrefixLen = of_nat n, KeyAddr = [p, q, u, v]\<rparr>
       else Inl (InvalidIPv4Address (dotted p q u v @ ''/'' @ dec_string n))))"
  using NewLpmKey_iff [of s k] NewLpmKey_printed [of n p q u v] by blast

theorem NewLpmKey_accepts_witness:
  "NewLpmKey (dotted 10 0 0 1 @ ''/'' @ dec_string 24) = Inr \<lparr>PrefixLen = 24, KeyAddr = [10, 0, 0, 1]\<rparr> \<and>
   NewLpmKey (dotted 10 0 0 1 @ ''/'' @ dec_string 33) =
     Inl (InvalidIPv4Address (dotted 10 0 0 1 @ ''/'' @ dec_string 33)) \<and>
   (\<forall>k. NewLpmKey ''::1'' \<noteq> Inr k)"
proof (intro conjI allI)
  show "NewLpmKey (dotted 10 0 0 1 @ ''/'' @ dec_string 24) = Inr \<lparr>PrefixLen = 24, KeyAddr = [10, 0, 0, 1]\<rparr>"
    using conjunct2 [OF NewLpmKey_accepts [where n = 24 and p = 10 and q = 0 and u = 0 and v = 1]] by simp
  show "NewLpmKey (dotted 10 0 0 1 @ ''/'' @ dec_string 33) =
      Inl (InvalidIPv4Address (dotted 10 0 0 1 @ ''/'' @ dec_string 33))"
    using conjunct2 [OF NewLpmKey_accepts [where n = 33 and p = 10 and q = 0 and u = 0 and v = 1]] by simp
  fix k
  have "v6_loop (Some 0) [] ''1'' = Some (Some 0, [0, 1], [])"
    by (simp add: v6_loop.simps [of "Some 0" "[]"] is_hex_def is_dec_def hex_val_def)
  then have "ParseAddr ''::1'' = Some (Addr6 [0, 0, 0, 0, 0, 0, 0, 0, 0, 0, 0, 0, 0, 0, 0, 1] [])"
    by (simp add: ParseAddr_def parseIPv6_def v6_finish_def numeral_eq_Suc)
  moreover have "''::1'' \<noteq> addr @ ''/'' @ digits" for addr digits
    by (simp add: Cons_eq_append_conv)
  ultimately show "NewLpmKey ''::1'' \<noteq> Inr k"
    using conjunct1 [OF NewLpmKey_accepts, of "''::1''" k] by (auto simp: To4_def v4InV6Prefix_def)
qed

end
