(* ===== verification/Sharding.thy ===== *)
theory Sharding
  imports Prelude
begin

text \<open>
  Maps split into shards by a hash of the key, as the aggregator keeps its flows and its
  port trackers.  The locale \<open>sharded\<close> takes the shard index of a key and the number of
  shards; it shows that a list of shards behaves as one map: lookups after an update, the
  set of keys, and the total size, with one lemma for each.  It is interpreted on both
  hash functions of the aggregator.
\<close>

definition shard_get :: "('k \<Rightarrow> nat) \<Rightarrow> ('k, 'v) go_map list \<Rightarrow> 'k \<Rightarrow> 'v option" where
  "shard_get idx shards k = go_get (shards ! idx k) k"

definition shard_set :: "('k \<Rightarrow> nat) \<Rightarrow> ('k, 'v) go_map list \<Rightarrow> 'k \<Rightarrow> 'v \<Rightarrow> ('k, 'v) go_map list" where
  "shard_set idx shards k v = shards[idx k := go_set (shards ! idx k) k v]"

definition shard_keys :: "('k, 'v) go_map list \<Rightarrow> 'k set" where
  "shard_keys shards = (\<Union>m \<in> set shards. go_keys m)"

definition shard_size :: "('k, 'v) go_map list \<Rightarrow> nat" where
  "shard_size shards = sum_list (map length shards)"

text \<open>Every shard is a map, and holds only keys that hash to it.\<close>

definition shard_ok :: "('k \<Rightarrow> nat) \<Rightarrow> nat \<Rightarrow> ('k, 'v) go_map list \<Rightarrow> bool" where
  "shard_ok idx n shards \<longleftrightarrow>
     length shards = n \<and>
     (\<forall>i < n. go_map_ok (shards ! i) \<and> (\<forall>k v. (k, v) \<in> set (shards ! i) \<longrightarrow> idx k = i))"

lemma sum_list_update_nat:
  fixes f :: "'a \<Rightarrow> nat"
  assumes "i < length xs"
  shows "sum_list (map f (xs[i := y])) + f (xs ! i) = sum_list (map f xs) + f y"
  using assms by (induction xs arbitrary: i) (auto split: nat.splits)

lemma sum_list_update_word:
  fixes f :: "'a \<Rightarrow> 'b::len word"
  assumes "i < length xs"
  shows "sum_list (map f (xs[i := y])) = sum_list (map f xs) - f (xs ! i) + f y"
  using assms by (induction xs arbitrary: i) (auto split: nat.splits)

lemma sum_list_go_set_word:
  fixes f :: "'v \<Rightarrow> 'b::len word"
  shows "go_map_ok m \<Longrightarrow> sum_list (map (f \<circ> snd) (go_set m k v)) =
           sum_list (map (f \<circ> snd) m) - (case go_get m k of None \<Rightarrow> 0 | Some w \<Rightarrow> f w) + f v"
  by (induction m) (auto simp: go_map_ok_def split: option.splits)

locale sharded =
  fixes idx :: "'k \<Rightarrow> nat" and n :: nat
  assumes idx_less: "idx k < n"
begin

lemma ok_empty: "shard_ok idx n (replicate n [])"
  by (simp add: shard_ok_def)

lemma ok_length: "shard_ok idx n s \<Longrightarrow> length s = n"
  by (simp add: shard_ok_def)

lemma ok_nth: "shard_ok idx n s \<Longrightarrow> i < n \<Longrightarrow> go_map_ok (s ! i)"
  by (simp add: shard_ok_def)

lemma ok_idx: "shard_ok idx n s \<Longrightarrow> i < n \<Longrightarrow> (k, v) \<in> set (s ! i) \<Longrightarrow> idx k = i"
  unfolding shard_ok_def by blast

lemma okI:
  assumes "length s = n" and "\<And>i. i < n \<Longrightarrow> go_map_ok (s ! i)"
    and "\<And>i k v. i < n \<Longrightarrow> (k, v) \<in> set (s ! i) \<Longrightarrow> idx k = i"
  shows "shard_ok idx n s"
  unfolding shard_ok_def using assms by blast

lemma ok_set:
  assumes ok: "shard_ok idx n s"
  shows "shard_ok idx n (shard_set idx s k v)"
proof (rule okI)
  fix i k' v'
  assume i: "i < n" and mem: "(k', v') \<in> set (shard_set idx s k v ! i)"
  show "idx k' = i"
  proof (cases "i = idx k")
    case True
    with mem i ok have "k' = k \<or> k' \<in> go_keys (s ! idx k)"
      by (intro go_set_key_cases) (simp add: shard_set_def ok_length)
    with True ok_idx [OF ok i] show ?thesis by auto
  next
    case False
    with mem ok_idx [OF ok i] show ?thesis by (simp add: shard_set_def)
  qed
qed (use ok idx_less [of k] in
      \<open>auto simp: shard_set_def ok_length ok_nth nth_list_update\<close>)

lemma ok_clear: "shard_ok idx n s \<Longrightarrow> shard_ok idx n (s[i := []])"
  by (cases "i < n") (auto simp: shard_ok_def nth_list_update split: if_splits)

lemma get_set:
  "shard_ok idx n s \<Longrightarrow>
     shard_get idx (shard_set idx s k v) k' = (if k' = k then Some v else shard_get idx s k')"
  using idx_less [of k]
  by (cases "idx k' = idx k") (auto simp: shard_ok_def shard_get_def shard_set_def)

lemma get_Some_iff:
  assumes ok: "shard_ok idx n s"
  shows "shard_get idx s k = Some v \<longleftrightarrow> (\<exists>i < n. (k, v) \<in> set (s ! i))"
proof -
  have "go_map_ok (s ! idx k)" using ok idx_less by (rule ok_nth)
  then have "shard_get idx s k = Some v \<longleftrightarrow> (k, v) \<in> set (s ! idx k)"
    by (simp add: shard_get_def go_map_ok_def)
  then show ?thesis using ok_idx [OF ok] idx_less [of k] by blast
qed

lemma keys_iff:
  assumes ok: "shard_ok idx n s"
  shows "k \<in> shard_keys s \<longleftrightarrow> shard_get idx s k \<noteq> None"
proof -
  have "k \<in> shard_keys s \<longleftrightarrow> (\<exists>m \<in> set s. \<exists>v. (k, v) \<in> set m)"
    by (force simp: shard_keys_def)
  also have "\<dots> \<longleftrightarrow> (\<exists>v. \<exists>i < n. (k, v) \<in> set (s ! i))"
    using ok_length [OF ok] by (metis in_set_conv_nth)
  finally show ?thesis using get_Some_iff [OF ok] by auto
qed

lemma keys_set: "shard_ok idx n s \<Longrightarrow> shard_keys (shard_set idx s k v) = insert k (shard_keys s)"
  by (auto simp: keys_iff ok_set get_set split: if_splits)

lemma size_set:
  assumes ok: "shard_ok idx n s"
  shows "shard_size (shard_set idx s k v) =
         (if shard_get idx s k = None then Suc (shard_size s) else shard_size s)"
proof -
  have "idx k < length s" using ok idx_less by (simp add: shard_ok_def)
  from sum_list_update_nat [OF this, of length "go_set (s ! idx k) k v"]
  show ?thesis
    by (cases "shard_get idx s k")
       (auto simp: shard_size_def shard_set_def shard_get_def go_map)
qed

lemma finite_keys: "finite (shard_keys s)"
  by (simp add: shard_keys_def)

lemma card_keys: "shard_ok idx n s \<Longrightarrow> card (shard_keys s) = shard_size s"
proof -
  assume ok: "shard_ok idx n s"
  have "set s = (\<lambda>i. s ! i) ` {..<n}"
    using ok by (auto simp: shard_ok_def set_conv_nth)
  then have "shard_keys s = (\<Union>i \<in> {..<n}. go_keys (s ! i))"
    by (simp add: shard_keys_def)
  also have "card \<dots> = (\<Sum>i \<in> {..<n}. card (go_keys (s ! i)))"
  proof (intro card_UN_disjoint ballI impI)
    fix i j
    assume ij: "i \<in> {..<n}" "j \<in> {..<n}" "i \<noteq> j"
    show "go_keys (s ! i) \<inter> go_keys (s ! j) = {}"
    proof (rule ccontr)
      assume "\<not> ?thesis"
      then obtain k v w where "(k, v) \<in> set (s ! i)" "(k, w) \<in> set (s ! j)" by force
      with ij ok_idx [OF ok] show False by (metis lessThan_iff)
    qed
  qed simp_all
  also have "\<dots> = (\<Sum>i \<in> {..<n}. length (s ! i))"
    using ok by (intro sum.cong) (auto simp: shard_ok_def go_map_ok_card)
  also have "\<dots> = shard_size s"
    using ok by (simp add: shard_size_def shard_ok_def sum_list_sum_nth atLeast0LessThan)
  finally show ?thesis .
qed

lemma size_bound:
  assumes "shard_ok idx n s" and "\<And>i. i < n \<Longrightarrow> length (s ! i) \<le> b"
  shows "shard_size s \<le> n * b"
proof -
  have "shard_size s = (\<Sum>i \<in> {..<n}. length (s ! i))"
    using assms(1) by (simp add: shard_size_def shard_ok_def sum_list_sum_nth atLeast0LessThan)
  also have "\<dots> \<le> (\<Sum>i \<in> {..<n}. b)" using assms(2) by (intro sum_mono) simp
  finally show ?thesis by simp
qed

text \<open>A quantity summed over all entries, modulo the word size.\<close>

lemma sum_set_word:
  fixes f :: "'v \<Rightarrow> 'b::len word"
  assumes ok: "shard_ok idx n s"
  shows "sum_list (map (\<lambda>m. sum_list (map (f \<circ> snd) m)) (shard_set idx s k v)) =
         sum_list (map (\<lambda>m. sum_list (map (f \<circ> snd) m)) s) -
         (case shard_get idx s k of None \<Rightarrow> 0 | Some w \<Rightarrow> f w) + f v"
proof -
  have l: "idx k < length s" and m: "go_map_ok (s ! idx k)"
    using ok idx_less [of k] by (auto simp: shard_ok_def)
  show ?thesis
    unfolding shard_set_def shard_get_def
      sum_list_update_word [OF l, of "\<lambda>m. sum_list (map (f \<circ> snd) m)"]
      sum_list_go_set_word [OF m]
    by simp
qed

end

end
