(* ===== verification/Float64.thy ===== *)
theory Float64
  imports Prelude
begin

text \<open>
  Go's \<open>float64\<close>.  A finite value is a real number; the arithmetic operators return the exact
  result rounded to the nearest binary64 value, ties to even (\<open>fl64\<close>), with gradual
  underflow.  The exponent is not bounded above: every float the program computes is far
  below the overflow threshold, no operation divides by zero, so infinities and NaN do not
  arise, except for the initial \<open>math.Inf(-1)\<close> of the classifier, modelled as an absent
  value.  The floating-point code of the aggregator and of the classifier takes the rounding
  as an argument: \<open>fl64\<close> gives the program, the identity gives the same algorithm over
  exact arithmetic.  The locale \<open>rounding\<close> states what the proofs rely on; it is
  interpreted for both.
\<close>

section \<open>Definitions\<close>

text \<open>Round to the nearest integer, ties to even.\<close>

definition rne :: "real \<Rightarrow> int" where
  "rne y = (let f = \<lfloor>y\<rfloor>; d = y - of_int f
            in if d < 1/2 then f
               else if 1/2 < d then f + 1
               else if even f then f else f + 1)"

text \<open>Exponent of the last place: 53 significant bits, not below the subnormal exponent.\<close>

definition ulp_exp :: "real \<Rightarrow> int" where
  "ulp_exp x = max (\<lfloor>log 2 \<bar>x\<bar>\<rfloor> - 52) (-1074)"

definition fl64 :: "real \<Rightarrow> real" where
  "fl64 x = (if x = 0 then 0
             else of_int (rne (x / 2 powi ulp_exp x)) * 2 powi ulp_exp x)"

text \<open>Conversion of a float to an integer type drops the fraction.\<close>

definition trunc :: "real \<Rightarrow> int" where
  "trunc x = (if 0 \<le> x then \<lfloor>x\<rfloor> else \<lceil>x\<rceil>)"

section \<open>The contract of a rounding\<close>

text \<open>
  Monotone, odd, idempotent, exact on dyadic numbers of 53 bits, never more than doubling a
  magnitude, and such that half of a rounded number does not round above the original.
\<close>

locale rounding =
  fixes r :: "real \<Rightarrow> real"
  assumes r_mono: "x \<le> y \<Longrightarrow> r x \<le> r y"
    and r_minus: "r (- x) = - r x"
    and r_idem: "r (r x) = r x"
    and r_dyadic: "\<bar>n\<bar> \<le> 2 ^ 53 \<Longrightarrow> k \<le> 1000 \<Longrightarrow> r (of_int n / 2 ^ k) = of_int n / 2 ^ k"
    and r_double: "0 \<le> x \<Longrightarrow> r x \<le> 2 * x"
    and r_half: "0 \<le> x \<Longrightarrow> r (r x / 2) \<le> x"
begin

lemma r_of_int: "\<bar>n\<bar> \<le> 2 ^ 53 \<Longrightarrow> r (of_int n) = of_int n"
  using r_dyadic [of n 0] by simp

lemma r_0: "r 0 = 0"
  using r_of_int [of 0] by simp

lemma r_1: "r 1 = 1"
  using r_of_int [of 1] by simp

lemma r_numeral: "(numeral n :: int) \<le> 2 ^ 53 \<Longrightarrow> r (numeral n) = numeral n"
  using r_of_int [of "numeral n"] by simp

lemma r_neg_numeral: "(numeral n :: int) \<le> 2 ^ 53 \<Longrightarrow> r (- numeral n) = - numeral n"
  using r_numeral [of n] by (simp add: r_minus)

lemma r_nonneg: "0 \<le> x \<Longrightarrow> 0 \<le> r x"
  using r_mono [of 0 x] by (simp add: r_0)

lemma r_nonpos: "x \<le> 0 \<Longrightarrow> r x \<le> 0"
  using r_mono [of x 0] by (simp add: r_0)

lemma r_le: "x \<le> y \<Longrightarrow> r y = y \<Longrightarrow> r x \<le> y"
  using r_mono [of x y] by simp

lemma r_ge: "y \<le> x \<Longrightarrow> r y = y \<Longrightarrow> y \<le> r x"
  using r_mono [of y x] by simp

lemma r_le_dyadic:
  "x \<le> of_int n / 2 ^ k \<Longrightarrow> \<bar>n\<bar> \<le> 2 ^ 53 \<Longrightarrow> k \<le> 1000 \<Longrightarrow> r x \<le> of_int n / 2 ^ k"
  by (intro r_le r_dyadic)

lemma r_ge_dyadic:
  "of_int n / 2 ^ k \<le> x \<Longrightarrow> \<bar>n\<bar> \<le> 2 ^ 53 \<Longrightarrow> k \<le> 1000 \<Longrightarrow> of_int n / 2 ^ k \<le> r x"
  by (intro r_ge r_dyadic)

end

section \<open>Rounding to an integer\<close>

lemma rne_bounds: "y - 1/2 \<le> of_int (rne y)" "of_int (rne y) \<le> y + 1/2"
  using floor_correct [of y] by (auto simp: rne_def Let_def field_simps; linarith)+

lemma rne_of_int [simp]: "rne (of_int n) = n"
  by (simp add: rne_def)

lemma rne_mono: "x \<le> y \<Longrightarrow> rne x \<le> rne y"
proof -
  assume le: "x \<le> y"
  then have f: "\<lfloor>x\<rfloor> \<le> \<lfloor>y\<rfloor>" by (rule floor_mono)
  show ?thesis
  proof (cases "\<lfloor>x\<rfloor> = \<lfloor>y\<rfloor>")
    case True
    with le show ?thesis by (simp add: rne_def Let_def)
  next
    case False
    with f have "\<lfloor>x\<rfloor> + 1 \<le> \<lfloor>y\<rfloor>" by simp
    moreover have "rne x \<le> \<lfloor>x\<rfloor> + 1" "\<lfloor>y\<rfloor> \<le> rne y"
      by (simp_all add: rne_def Let_def)
    ultimately show ?thesis by linarith
  qed
qed

lemma rne_minus: "rne (- y) = - rne y"
proof (cases "y = of_int \<lfloor>y\<rfloor>")
  case True
  then show ?thesis by (metis of_int_minus rne_of_int)
next
  case False
  then have "\<lfloor>- y\<rfloor> = - \<lfloor>y\<rfloor> - 1"
    using floor_correct [of y] by linarith
  then show ?thesis by (auto simp: rne_def Let_def)
qed

lemma rne_double: "0 \<le> y \<Longrightarrow> of_int (rne y) \<le> 2 * y"
proof (cases "y \<le> 1/2")
  case True
  assume "0 \<le> y"
  with True have "\<lfloor>y\<rfloor> = 0" by (intro floor_unique) auto
  with True \<open>0 \<le> y\<close> show ?thesis by (simp add: rne_def)
next
  case False
  with rne_bounds(2) [of y] show ?thesis by simp
qed

lemma rne_half: "0 \<le> y \<Longrightarrow> of_int (rne (of_int (rne y) / 2)) \<le> y"
proof -
  assume y: "0 \<le> y"
  consider "rne y \<le> 0" | "rne y = 1" | "2 \<le> rne y" by linarith
  then show ?thesis
  proof cases
    case 1
    then have "rne (of_int (rne y) / 2) \<le> rne (of_int 0)" by (intro rne_mono) simp
    then have "rne (of_int (rne y) / 2) \<le> 0" by (metis rne_of_int)
    then have "of_int (rne (of_int (rne y) / 2)) \<le> (0 :: real)" by simp
    with y show ?thesis by (rule order.trans [rotated])
  next
    case 2
    have "rne (1/2) = 0" by (simp add: rne_def)
    with 2 y show ?thesis by simp
  next
    case 3
    have "of_int (rne (of_int (rne y) / 2)) \<le> of_int (rne y) / 2 + (1/2 :: real)"
      by (rule rne_bounds)
    also have "\<dots> \<le> of_int (rne y) - 1/2" using 3 by simp
    also have "\<dots> \<le> y" using rne_bounds(2) [of y] by simp
    finally show ?thesis .
  qed
qed

lemma rne_le_of_int: "y \<le> of_int n \<Longrightarrow> rne y \<le> n"
  using rne_mono [of y "of_int n"] by simp

lemma rne_ge_of_int: "of_int n \<le> y \<Longrightarrow> n \<le> rne y"
  using rne_mono [of "of_int n" y] by simp

section \<open>Rounding to binary64\<close>

lemma floor_log2_bounds:
  assumes "0 < x"
  shows "2 powi \<lfloor>log 2 x\<rfloor> \<le> x" "x < 2 powi (\<lfloor>log 2 x\<rfloor> + 1)"
  using floor_log_eq_powr_iff [of x 2 "\<lfloor>log 2 x\<rfloor>"] assms
  by (simp_all flip: powr_real_of_int')

lemma floor_log2_less:
  assumes "x \<noteq> 0" and "\<bar>x\<bar> < 2 powi k"
  shows "\<lfloor>log 2 \<bar>x\<bar>\<rfloor> < k"
proof -
  have "2 powi k = 2 powr real_of_int k" by (simp flip: powr_real_of_int')
  with assms have "log 2 \<bar>x\<bar> < real_of_int k" by (simp add: log_less_iff)
  then show ?thesis by linarith
qed

lemma ulp_exp_ge: "- 1074 \<le> ulp_exp x"
  by (simp add: ulp_exp_def)

lemma ulp_exp_minus [simp]: "ulp_exp (- x) = ulp_exp x"
  by (simp add: ulp_exp_def)

lemma ulp_exp_mono: "0 < x \<Longrightarrow> x \<le> y \<Longrightarrow> ulp_exp x \<le> ulp_exp y"
  unfolding ulp_exp_def by (intro max.mono diff_right_mono floor_mono) auto

lemma powi2_mono: "i \<le> j \<Longrightarrow> 2 powi i \<le> (2 powi j :: real)"
  by (intro power_int_increasing) auto

lemma powi2_add_nat: "2 powi (e + int n) = (2 powi e :: real) * 2 ^ n"
  by (simp add: power_int_add)

lemma scaled_upper:
  assumes "0 < x"
  shows "x / 2 powi ulp_exp x \<le> 2 ^ 53"
proof -
  have "x < 2 powi (\<lfloor>log 2 x\<rfloor> + 1)" using assms by (rule floor_log2_bounds)
  also have "\<dots> \<le> 2 powi (ulp_exp x + int 53)"
    using assms by (intro powi2_mono) (auto simp: ulp_exp_def)
  finally show ?thesis by (simp only: powi2_add_nat) (simp add: field_simps)
qed

lemma scaled_lower:
  assumes "0 < x" and "- 1074 < ulp_exp x"
  shows "2 ^ 52 \<le> x / 2 powi ulp_exp x"
proof -
  have "ulp_exp x + int 52 = \<lfloor>log 2 x\<rfloor>" using assms by (simp add: ulp_exp_def)
  moreover have "2 powi \<lfloor>log 2 x\<rfloor> \<le> x" using assms(1) by (rule floor_log2_bounds)
  ultimately have "2 powi ulp_exp x * 2 ^ 52 \<le> x" by (metis powi2_add_nat)
  then show ?thesis by (simp add: field_simps)
qed

lemma fl64_minus: "fl64 (- x) = - fl64 x"
  by (simp add: fl64_def rne_minus)

lemma fl64_nonneg: "0 \<le> x \<Longrightarrow> 0 \<le> fl64 x"
  using rne_ge_of_int [of 0 "x / 2 powi ulp_exp x"] by (simp add: fl64_def)

lemma fl64_mono_pos:
  assumes "0 < x" and "x \<le> y"
  shows "fl64 x \<le> fl64 y"
proof -
  let ?e = "ulp_exp x" and ?f = "ulp_exp y"
  have x0: "x \<noteq> 0" "y \<noteq> 0" "0 < y" using assms by auto
  have ef: "?e \<le> ?f" using assms by (rule ulp_exp_mono)
  show ?thesis
  proof (cases "?e = ?f")
    case True
    have "rne (x / 2 powi ?e) \<le> rne (y / 2 powi ?e)"
      using assms by (intro rne_mono divide_right_mono) auto
    then show ?thesis using x0 True by (simp add: fl64_def mult_right_mono)
  next
    case False
    with ef have lt: "?e + 1 \<le> ?f" by simp
    have "rne (x / 2 powi ?e) \<le> 2 ^ 53"
      using scaled_upper [OF assms(1)] by (intro rne_le_of_int) simp
    then have "of_int (rne (x / 2 powi ?e)) \<le> (2 ^ 53 :: real)"
      by (metis of_int_le_iff of_int_numeral of_int_power)
    then have "fl64 x \<le> 2 ^ 53 * 2 powi ?e"
      using x0 by (simp add: fl64_def mult_right_mono)
    also have "\<dots> = 2 ^ 52 * 2 powi (?e + 1)" by (simp add: power_int_add)
    also have "\<dots> \<le> 2 ^ 52 * 2 powi ?f" using powi2_mono [OF lt] by simp
    also have "\<dots> \<le> fl64 y"
    proof -
      have "2 ^ 52 \<le> rne (y / 2 powi ?f)"
        using scaled_lower [OF x0(3)] lt ulp_exp_ge [of x] by (intro rne_ge_of_int) simp
      then have "(2 ^ 52 :: real) \<le> of_int (rne (y / 2 powi ?f))"
        by (metis of_int_le_iff of_int_numeral of_int_power)
      then show ?thesis using x0 by (simp add: fl64_def mult_right_mono)
    qed
    finally show ?thesis .
  qed
qed

lemma fl64_mono: "x \<le> y \<Longrightarrow> fl64 x \<le> fl64 y"
proof -
  assume le: "x \<le> y"
  consider "0 < x" | "y < 0" | "x \<le> 0 \<and> 0 \<le> y" by linarith
  then show ?thesis
  proof cases
    case 1
    then show ?thesis using le by (rule fl64_mono_pos)
  next
    case 2
    with le fl64_mono_pos [of "- y" "- x"] show ?thesis by (simp add: fl64_minus)
  next
    case 3
    then show ?thesis using fl64_nonneg [of y] fl64_nonneg [of "- x"] by (simp add: fl64_minus)
  qed
qed

lemma fl64_exact_small:
  assumes "\<bar>m\<bar> < 2 ^ 53" and "- 1074 \<le> e" and "m \<noteq> 0"
  shows "fl64 (of_int m * 2 powi e) = of_int m * 2 powi e"
proof -
  let ?v = "of_int m * 2 powi e :: real"
  have v0: "?v \<noteq> 0" using assms by simp
  have "\<bar>of_int m\<bar> < (2 ^ 53 :: real)"
    using assms(1) by (metis of_int_abs of_int_less_iff of_int_numeral of_int_power)
  then have "\<bar>?v\<bar> < 2 powi (e + int 53)"
    by (simp only: powi2_add_nat abs_mult) simp
  then have "\<lfloor>log 2 \<bar>?v\<bar>\<rfloor> < e + int 53" using v0 by (intro floor_log2_less)
  with assms(2) have le: "ulp_exp ?v \<le> e" by (simp add: ulp_exp_def)
  define d where "d = nat (e - ulp_exp ?v)"
  have "e = ulp_exp ?v + int d" using le by (simp add: d_def)
  then have "?v = of_int (m * 2 ^ d) * 2 powi ulp_exp ?v"
    by (metis mult.assoc mult.commute of_int_mult of_int_numeral of_int_power powi2_add_nat)
  then have "?v / 2 powi ulp_exp ?v = of_int (m * 2 ^ d)"
    by (simp add: divide_eq_eq)
  then have "rne (?v / 2 powi ulp_exp ?v) = m * 2 ^ d" by (metis rne_of_int)
  with \<open>?v = of_int (m * 2 ^ d) * 2 powi ulp_exp ?v\<close> v0 show ?thesis
    by (simp only: fl64_def if_False)
qed

lemma fl64_exact:
  assumes "\<bar>m\<bar> \<le> 2 ^ 53" and "- 1074 \<le> e"
  shows "fl64 (of_int m * 2 powi e) = of_int m * 2 powi e"
proof -
  consider "m = 0" | "m \<noteq> 0" "\<bar>m\<bar> < 2 ^ 53" | "\<bar>m\<bar> = 2 ^ 53" using assms(1) by linarith
  then show ?thesis
  proof cases
    case 3
    then obtain s :: int where s: "m = s * 2 ^ 53" "\<bar>s\<bar> = 1"
      by (metis abs_mult abs_numeral abs_of_nonneg mult.commute mult_cancel_left1
          mult_sgn_abs power_abs sgn_mult abs_sgn_eq_1 power_eq_0_iff zero_neq_numeral abs_0_eq)
    then have "of_int m * 2 powi e = of_int (s * 2 ^ 52) * (2 powi (e + int 1) :: real)"
      by (simp only: powi2_add_nat) simp
    moreover have "fl64 (of_int (s * 2 ^ 52) * 2 powi (e + int 1)) =
                   of_int (s * 2 ^ 52) * 2 powi (e + int 1)"
      using s(2) assms(2) by (intro fl64_exact_small) (auto simp: abs_mult)
    ultimately show ?thesis by simp
  qed (simp_all add: fl64_def [of 0] fl64_exact_small assms(2))
qed

lemma fl64_repr: "\<exists>m e. fl64 x = of_int m * 2 powi e \<and> \<bar>m\<bar> \<le> 2 ^ 53 \<and> - 1074 \<le> e"
proof -
  have pos: "\<bar>rne (y / 2 powi ulp_exp y)\<bar> \<le> 2 ^ 53" if "0 < y" for y
  proof -
    have "rne (y / 2 powi ulp_exp y) \<le> 2 ^ 53"
      using scaled_upper [OF that] by (intro rne_le_of_int) simp
    moreover have "0 \<le> rne (y / 2 powi ulp_exp y)"
      using that by (intro rne_ge_of_int) simp
    ultimately show ?thesis by simp
  qed
  have "\<bar>rne (x / 2 powi ulp_exp x)\<bar> \<le> 2 ^ 53" if "x \<noteq> 0"
    using pos [of x] pos [of "- x"] that by (cases "0 < x") (auto simp: rne_minus)
  then show ?thesis
    using ulp_exp_ge [of x] by (cases "x = 0") (auto simp: fl64_def intro: exI [of _ 0])
qed

lemma fl64_double: "0 \<le> x \<Longrightarrow> fl64 x \<le> 2 * x"
proof -
  assume "0 \<le> x"
  then have "of_int (rne (x / 2 powi ulp_exp x)) * 2 powi ulp_exp x \<le>
             2 * (x / 2 powi ulp_exp x) * 2 powi ulp_exp x"
    by (intro mult_right_mono rne_double) auto
  then show ?thesis by (simp add: fl64_def)
qed

lemma ulp_exp_subnormal:
  assumes "x \<noteq> 0" and "\<bar>x\<bar> \<le> 2 ^ 52 * 2 powi (- 1074)"
  shows "ulp_exp x = - 1074"
proof -
  define u :: real where "u = 2 powi (- 1074)"
  have "0 < u" unfolding u_def by (rule zero_less_power_int) simp
  with assms(2) have "\<bar>x\<bar> < u * 2 ^ 53" unfolding u_def [symmetric] by simp
  then have "\<bar>x\<bar> < 2 powi (- 1074 + int 53)" unfolding powi2_add_nat u_def .
  then have "\<lfloor>log 2 \<bar>x\<bar>\<rfloor> < - 1074 + int 53" using assms(1) by (intro floor_log2_less)
  then have "\<lfloor>log 2 \<bar>x\<bar>\<rfloor> - 52 \<le> - 1074" by linarith
  then show ?thesis by (simp only: ulp_exp_def max_absorb2)
qed

lemma fl64_half_subnormal:
  assumes x: "0 < x" and e: "ulp_exp x = - 1074"
  shows "fl64 (fl64 x / 2) \<le> x"
proof -
  define u :: real where "u = 2 powi (- 1074)"
  let ?m = "rne (x / u)"
  have u: "0 < u" unfolding u_def by (rule zero_less_power_int) simp
  have half: "fl64 x / 2 = (of_int ?m / 2) * u" using x e by (simp add: fl64_def u_def)
  have m: "0 \<le> ?m" "?m \<le> 2 ^ 53"
    using scaled_upper [OF x] x u e by (auto simp: u_def intro!: rne_le_of_int rne_ge_of_int)
  show ?thesis
  proof (cases "?m = 0")
    case True
    then show ?thesis using half x by (simp add: fl64_def)
  next
    case False
    have "of_int ?m \<le> (2 ^ 53 :: real)"
      using m(2) by (metis of_int_le_iff of_int_numeral of_int_power)
    then have "\<bar>fl64 x / 2\<bar> \<le> 2 ^ 52 * u"
      using m(1) u unfolding half abs_mult by (intro mult_mono) auto
    then have ex: "ulp_exp (fl64 x / 2) = - 1074"
      using False u unfolding u_def by (intro ulp_exp_subnormal) (auto simp: half u_def)
    have "fl64 x / 2 \<noteq> 0" using half False u by simp
    then have "fl64 (fl64 x / 2) = of_int (rne (fl64 x / 2 / u)) * u"
      using ex unfolding u_def by (simp only: fl64_def if_False)
    also have "fl64 x / 2 / u = of_int ?m / 2" using u half by simp
    also have "of_int (rne (of_int ?m / 2)) * u \<le> (x / u) * u"
      using rne_half [of "x / u"] x u by (intro mult_right_mono) auto
    finally show ?thesis using u by simp
  qed
qed

lemma fl64_half:
  assumes "0 \<le> x"
  shows "fl64 (fl64 x / 2) \<le> x"
proof (cases "x = 0 \<or> ulp_exp x = - 1074")
  case True
  then show ?thesis using fl64_half_subnormal [of x] assms by (auto simp: fl64_def)
next
  case False
  with assms have x: "0 < x" by simp
  let ?e = "ulp_exp x" and ?m = "rne (x / 2 powi ulp_exp x)"
  have fx: "fl64 x = of_int ?m * 2 powi ?e" using False by (simp add: fl64_def)
  have m: "0 \<le> ?m" "?m \<le> 2 ^ 53"
    using scaled_upper [OF x] x by (auto intro!: rne_le_of_int rne_ge_of_int)
  have "fl64 (of_int ?m * 2 powi (?e - 1)) = of_int ?m * 2 powi (?e - 1)"
    using False m ulp_exp_ge [of x] by (intro fl64_exact) auto
  moreover have "of_int ?m * 2 powi (?e - 1) = fl64 x / 2"
    by (simp add: fx power_int_diff)
  ultimately show ?thesis using fl64_double [OF assms] by simp
qed

interpretation b64: rounding fl64
proof unfold_locales
  show "fl64 (fl64 x) = fl64 x" for x
    using fl64_repr [of x] fl64_exact by metis
  show "fl64 (of_int n / 2 ^ k) = of_int n / 2 ^ k" if "\<bar>n\<bar> \<le> 2 ^ 53" "k \<le> 1000" for n k
    using fl64_exact [OF that(1), of "- int k"] that(2)
    by (simp add: power_int_minus divide_inverse)
qed (auto intro: fl64_mono fl64_minus fl64_double fl64_half)

text \<open>Exact arithmetic satisfies the same contract.\<close>

interpretation exact: rounding "\<lambda>x. x"
  by unfold_locales auto

end
