(* ===== verification/Aggregator.thy ===== *)
theory Aggregator
  imports Contracts Float64 Sharding
begin

text \<open>
  \<^verbatim>\<open>src/user-space/pkg/aggregator/flow.go\<close>: the rolling-window flow aggregator.  Records
  for the flow key, the per-flow accumulator, the per-source port tracker, the feature
  vector and the aggregator itself; one definition per method.  Maps of pointers are maps of
  values: an entry is mutated under its shard's lock, which the model does by storing the
  new value.  Floating-point code takes the rounding \<open>r\<close> (see \<open>Float64\<close>); \<open>range\<close> over a map
  visits the entries in an unspecified order, given as an argument (\<open>ordP\<close> for port counts,
  \<open>ordF\<close> for flows).  Times are nanoseconds; \<open>time.Now()\<close> is an argument.
\<close>

section \<open>Constants\<close>

definition WindowInterval :: int where [guards]: "WindowInterval = 100 * 1000000"
definition numShards :: nat where [guards]: "numShards = 16"
definition maxFlowsPerShard :: nat where [guards]: "maxFlowsPerShard = 16384"
definition maxPortsPerSrcIP :: nat where [guards]: "maxPortsPerSrcIP = 256"
definition overflowPortKey :: u16 where [guards]: "overflowPortKey = 0xFFFF"
definition outputBufferSize :: nat where [guards]: "outputBufferSize = 4096"
definition minIATSamplesForVariance :: u64 where [guards]: "minIATSamplesForVariance = 30"
definition neutralIATStdDevNS :: real where [guards]: "neutralIATStdDevNS = 5000000"
definition tcpFlagSYN :: u8 where [guards]: "tcpFlagSYN = 0x02"
definition tcpFlagPSH :: u8 where [guards]: "tcpFlagPSH = 0x08"
definition tcpFlagACK :: u8 where [guards]: "tcpFlagACK = 0x10"
definition protocolTCP :: u8 where [guards]: "protocolTCP = 6"

section \<open>Flow keys\<close>

record FlowKey =
  IPLo :: u32
  IPHi :: u32
  PortLo :: u16
  PortHi :: u16
  KProtocol :: u8

definition canonicalize :: "FlowPacketMeta \<Rightarrow> FlowKey \<times> bool" where
  "canonicalize m =
     (if SrcIP m < DstIP m \<or> (SrcIP m = DstIP m \<and> SrcPort m \<le> DstPort m)
      then (\<lparr>IPLo = SrcIP m, IPHi = DstIP m, PortLo = SrcPort m, PortHi = DstPort m,
             KProtocol = Protocol m\<rparr>, True)
      else (\<lparr>IPLo = DstIP m, IPHi = SrcIP m, PortLo = DstPort m, PortHi = SrcPort m,
             KProtocol = Protocol m\<rparr>, False))"

definition shardIndex :: "FlowKey \<Rightarrow> u32" where
  "shardIndex k =
     (let h = IPLo k * 2654435761 XOR IPHi k * 40503 XOR push_bit 16 (ucast (PortLo k)) XOR
              ucast (PortHi k) XOR ucast (KProtocol k)
      in h mod of_nat numShards)"

definition srcIPShardIndex :: "u32 \<Rightarrow> u32" where
  "srcIPShardIndex srcIP = (srcIP * 2654435761) mod of_nat numShards"

section \<open>Per-flow accumulator\<close>

record flowAccumulator =
  firstSrcIP :: u32
  firstDstIP :: u32
  firstSrcPort :: u16
  firstDstPort :: u16
  acc_protocol :: u8
  packetCount :: u64
  forwardCount :: u64
  reverseCount :: u64
  synCount :: u64
  ackPshCount :: u64
  lastTimestamp :: u64
  iatMean :: real
  iatM2 :: real
  iatSamples :: u64

definition zero_accumulator :: flowAccumulator where
  "zero_accumulator =
     \<lparr>firstSrcIP = 0, firstDstIP = 0, firstSrcPort = 0, firstDstPort = 0, acc_protocol = 0,
      packetCount = 0, forwardCount = 0, reverseCount = 0, synCount = 0, ackPshCount = 0,
      lastTimestamp = 0, iatMean = 0, iatM2 = 0, iatSamples = 0\<rparr>"

text \<open>Conversion of a \<open>uint64\<close> to \<open>float64\<close>.\<close>

definition float_u64 :: "(real \<Rightarrow> real) \<Rightarrow> u64 \<Rightarrow> real" where
  "float_u64 r x = r (real (unat x))"

text \<open>\<open>observe\<close> in its four blocks: first packet, counters, TCP flags, inter-arrival time.\<close>

definition observe_first :: "FlowPacketMeta \<Rightarrow> flowAccumulator \<Rightarrow> flowAccumulator" where
  "observe_first m fa =
     (if packetCount fa = 0
      then fa\<lparr>firstSrcIP := SrcIP m, firstDstIP := DstIP m, firstSrcPort := SrcPort m,
              firstDstPort := DstPort m, acc_protocol := Protocol m\<rparr>
      else fa)"

definition observe_counts :: "bool \<Rightarrow> flowAccumulator \<Rightarrow> flowAccumulator" where
  "observe_counts srcIsLo fa =
     (let fa = fa\<lparr>packetCount := packetCount fa + 1\<rparr>
      in if srcIsLo then fa\<lparr>forwardCount := forwardCount fa + 1\<rparr>
         else fa\<lparr>reverseCount := reverseCount fa + 1\<rparr>)"

definition observe_flags :: "FlowPacketMeta \<Rightarrow> flowAccumulator \<Rightarrow> flowAccumulator" where
  "observe_flags m fa =
     (if Protocol m = protocolTCP
      then let fa = (if TCPFlags m AND tcpFlagSYN \<noteq> 0
                     then fa\<lparr>synCount := synCount fa + 1\<rparr> else fa)
           in if TCPFlags m AND (tcpFlagACK OR tcpFlagPSH) \<noteq> 0
              then fa\<lparr>ackPshCount := ackPshCount fa + 1\<rparr> else fa
      else fa)"

definition welford :: "(real \<Rightarrow> real) \<Rightarrow> real \<Rightarrow> flowAccumulator \<Rightarrow> flowAccumulator" where
  "welford r iat fa =
     (let n = iatSamples fa + 1;
          delta = r (iat - iatMean fa);
          mean = r (iatMean fa + r (delta / float_u64 r n));
          delta2 = r (iat - mean)
      in fa\<lparr>iatSamples := n, iatMean := mean, iatM2 := r (iatM2 fa + r (delta * delta2))\<rparr>)"

definition observe_iat :: "(real \<Rightarrow> real) \<Rightarrow> FlowPacketMeta \<Rightarrow> flowAccumulator \<Rightarrow> flowAccumulator" where
  "observe_iat r m fa =
     (let fa = (if lastTimestamp fa \<noteq> 0 \<and> TimestampNS m > lastTimestamp fa
                then welford r (float_u64 r (TimestampNS m - lastTimestamp fa)) fa
                else fa)
      in fa\<lparr>lastTimestamp := TimestampNS m\<rparr>)"

definition observe :: "(real \<Rightarrow> real) \<Rightarrow> FlowPacketMeta \<Rightarrow> bool \<Rightarrow> flowAccumulator \<Rightarrow> flowAccumulator" where
  "observe r m srcIsLo fa =
     observe_iat r m (observe_flags m (observe_counts srcIsLo (observe_first m fa)))"

definition iatStdDevNS :: "(real \<Rightarrow> real) \<Rightarrow> flowAccumulator \<Rightarrow> real" where
  "iatStdDevNS r fa =
     (if iatSamples fa < minIATSamplesForVariance then neutralIATStdDevNS
      else let variance = r (iatM2 fa / float_u64 r (iatSamples fa))
           in if variance < 0 then 0 else r (sqrt variance))"

section \<open>Per-source port tracker\<close>

record portTracker =
  counts :: "(u16, u32) go_map"
  total :: u32

definition newPortTracker :: portTracker where
  "newPortTracker = \<lparr>counts = [], total = 0\<rparr>"

text \<open>\<open>m[k]++\<close>: an absent key counts from zero.\<close>

definition incr_count :: "u16 \<Rightarrow> (u16, u32) go_map \<Rightarrow> (u16, u32) go_map" where
  "incr_count k m = go_set m k ((case go_get m k of None \<Rightarrow> 0 | Some c \<Rightarrow> c) + 1)"

definition observe_port :: "u16 \<Rightarrow> portTracker \<Rightarrow> portTracker" where
  "observe_port dstPort pt0 =
     (let pt = pt0\<lparr>total := total pt0 + 1\<rparr>
      in if go_get (counts pt) dstPort \<noteq> None
         then pt\<lparr>counts := incr_count dstPort (counts pt)\<rparr>
         else if length (counts pt) \<ge> maxPortsPerSrcIP
         then pt\<lparr>counts := incr_count overflowPortKey (counts pt)\<rparr>
         else pt\<lparr>counts := go_set (counts pt) dstPort 1\<rparr>)"

text \<open>One round of the entropy loop, and the loop over the counts in the order visited.\<close>

definition entropy_step :: "(real \<Rightarrow> real) \<Rightarrow> real \<Rightarrow> u32 \<Rightarrow> real \<Rightarrow> real" where
  "entropy_step r tot c h =
     (if c = 0 then h
      else let p = r (r (real (unat c)) / tot) in r (h - r (p * r (log 2 p))))"

definition entropyBits ::
    "(real \<Rightarrow> real) \<Rightarrow> ((u16 \<times> u32) list \<Rightarrow> (u16 \<times> u32) list) \<Rightarrow> portTracker \<Rightarrow> real" where
  "entropyBits r ordP pt =
     (if total pt = 0 then 0
      else fold (entropy_step r (r (real (unat (total pt))))) (map snd (ordP (counts pt))) 0)"

section \<open>Feature vectors and the aggregator\<close>

record FlowFeatures =
  ff_SrcIP :: IP
  ff_DstIP :: IP
  ff_SrcPort :: u16
  ff_DstPort :: u16
  ff_Protocol :: u8
  PacketCount :: u64
  ForwardCount :: u64
  ReverseCount :: u64
  SynCount :: u64
  AckPshCount :: u64
  IATStdDevNS :: real
  RatioFlow :: real
  PortEntropyBits :: real
  WindowStart :: int
  WindowEnd :: int

definition u32ToIP :: "u32 \<Rightarrow> IP" where
  "u32ToIP v = IPv4 (ucast (drop_bit 24 v)) (ucast (drop_bit 16 v))
                    (ucast (drop_bit 8 v)) (ucast v)"

type_synonym flow_shard = "(FlowKey, flowAccumulator) go_map"
type_synonym port_shard = "(u32, portTracker) go_map"

record Aggregator =
  flowShards :: "flow_shard list"
  portShards :: "port_shard list"
  out :: "FlowFeatures list"
  out_closed :: bool
  windowStart :: int
  droppedNewFlows :: u64
  droppedOutput :: u64

definition NewAggregator :: "int \<Rightarrow> Aggregator" where
  "NewAggregator now =
     \<lparr>flowShards = replicate numShards [], portShards = replicate numShards [], out = [],
      out_closed = False, windowStart = now, droppedNewFlows = 0, droppedOutput = 0\<rparr>"

definition Output :: "Aggregator \<Rightarrow> FlowFeatures list" where
  "Output a = out a"

definition DroppedNewFlows :: "Aggregator \<Rightarrow> u64" where
  "DroppedNewFlows a = droppedNewFlows a"

definition DroppedOutput :: "Aggregator \<Rightarrow> u64" where
  "DroppedOutput a = droppedOutput a"

text \<open>The second half of \<open>Ingest\<close>: the port tracker of the packet's source.\<close>

definition Ingest_port :: "FlowPacketMeta \<Rightarrow> Aggregator \<Rightarrow> Aggregator" where
  "Ingest_port m a =
     (let i = unat (srcIPShardIndex (SrcIP m)); ports = portShards a ! i;
          pt = (case go_get ports (SrcIP m) of None \<Rightarrow> newPortTracker | Some pt \<Rightarrow> pt)
      in a\<lparr>portShards := (portShards a)[i := go_set ports (SrcIP m) (observe_port (DstPort m) pt)]\<rparr>)"

definition Ingest :: "(real \<Rightarrow> real) \<Rightarrow> FlowPacketMeta \<Rightarrow> Aggregator \<Rightarrow> Aggregator" where
  "Ingest r m a =
     (case canonicalize m of (key, srcIsLo) \<Rightarrow>
        let i = unat (shardIndex key); flows = flowShards a ! i
        in if go_get flows key = None \<and> length flows \<ge> maxFlowsPerShard
           then a\<lparr>droppedNewFlows := droppedNewFlows a + 1\<rparr>
           else let fa = (case go_get flows key of None \<Rightarrow> zero_accumulator | Some fa \<Rightarrow> fa)
                in Ingest_port m
                     (a\<lparr>flowShards := (flowShards a)[i := go_set flows key (observe r m srcIsLo fa)]\<rparr>))"

definition max64 :: "u64 \<Rightarrow> u64 \<Rightarrow> u64" where
  "max64 a b = (if a > b then a else b)"

text \<open>The feature vector \<open>flush\<close> builds for one flow.\<close>

definition flow_features ::
    "(real \<Rightarrow> real) \<Rightarrow> ((u16 \<times> u32) list \<Rightarrow> (u16 \<times> u32) list) \<Rightarrow> port_shard \<Rightarrow>
     int \<Rightarrow> int \<Rightarrow> flowAccumulator \<Rightarrow> FlowFeatures" where
  "flow_features r ordP portSnapshot wstart wend fa =
     \<lparr>ff_SrcIP = u32ToIP (firstSrcIP fa), ff_DstIP = u32ToIP (firstDstIP fa),
      ff_SrcPort = firstSrcPort fa, ff_DstPort = firstDstPort fa,
      ff_Protocol = acc_protocol fa,
      PacketCount = packetCount fa, ForwardCount = forwardCount fa,
      ReverseCount = reverseCount fa, SynCount = synCount fa, AckPshCount = ackPshCount fa,
      IATStdDevNS = iatStdDevNS r fa,
      RatioFlow = r (float_u64 r (forwardCount fa) / float_u64 r (max64 (reverseCount fa) 1)),
      PortEntropyBits = (case go_get portSnapshot (firstSrcIP fa) of
                           None \<Rightarrow> 0 | Some pt \<Rightarrow> entropyBits r ordP pt),
      WindowStart = wstart, WindowEnd = wend\<rparr>"

text \<open>The non-blocking send: a full channel counts a dropped output instead.\<close>

definition send_out :: "FlowFeatures \<Rightarrow> Aggregator \<Rightarrow> Aggregator" where
  "send_out ff a =
     (if length (out a) < outputBufferSize then a\<lparr>out := out a @ [ff]\<rparr>
      else a\<lparr>droppedOutput := droppedOutput a + 1\<rparr>)"

definition port_snapshot :: "port_shard list \<Rightarrow> port_shard" where
  "port_snapshot shards = fold (\<lambda>(ip, pt) snap. go_set snap ip pt) (concat shards) []"

text \<open>Shard \<open>i\<close>: swap the map for an empty one, then send the features of its flows.\<close>

definition flush_shard ::
    "(flowAccumulator \<Rightarrow> FlowFeatures) \<Rightarrow> (flow_shard \<Rightarrow> flow_shard) \<Rightarrow> nat \<Rightarrow>
     Aggregator \<Rightarrow> Aggregator" where
  "flush_shard feat ordF i a =
     (let flows = flowShards a ! i
      in fold (\<lambda>(k, fa). send_out (feat fa)) (ordF flows)
           (a\<lparr>flowShards := (flowShards a)[i := []]\<rparr>))"

definition flush ::
    "(real \<Rightarrow> real) \<Rightarrow> ((u16 \<times> u32) list \<Rightarrow> (u16 \<times> u32) list) \<Rightarrow> (flow_shard \<Rightarrow> flow_shard) \<Rightarrow>
     int \<Rightarrow> Aggregator \<Rightarrow> Aggregator" where
  "flush r ordP ordF now a =
     (let wstart = windowStart a;
          snap = port_snapshot (portShards a);
          a1 = a\<lparr>windowStart := now, portShards := replicate numShards []\<rparr>
      in fold (flush_shard (flow_features r ordP snap wstart now) ordF) [0..<numShards] a1)"

text \<open>
  \<open>Run\<close>: what happens at one receive of its select, and whether the loop goes on.  Any
  number of \<open>Ingest\<close> calls and receives by the consumer may come between two of them.
\<close>

datatype run_event = Tick int | CtxDone int

fun Run_event ::
    "(real \<Rightarrow> real) \<Rightarrow> ((u16 \<times> u32) list \<Rightarrow> (u16 \<times> u32) list) \<Rightarrow> (flow_shard \<Rightarrow> flow_shard) \<Rightarrow>
     run_event \<Rightarrow> Aggregator \<Rightarrow> Aggregator \<times> bool" where
  "Run_event r ordP ordF (Tick now) a = (flush r ordP ordF now a, True)"
| "Run_event r ordP ordF (CtxDone now) a = ((flush r ordP ordF now a)\<lparr>out_closed := True\<rparr>, False)"

section \<open>The shards as maps\<close>

abbreviation flow_idx :: "FlowKey \<Rightarrow> nat" where
  "flow_idx k \<equiv> unat (shardIndex k)"

abbreviation port_idx :: "u32 \<Rightarrow> nat" where
  "port_idx ip \<equiv> unat (srcIPShardIndex ip)"

lemma shardIndex_less: "flow_idx k < numShards"
  by (simp add: shardIndex_def Let_def unat_mod numShards_def)

lemma srcIPShardIndex_less: "port_idx ip < numShards"
  by (simp add: srcIPShardIndex_def unat_mod numShards_def)

interpretation fsh: sharded flow_idx numShards
  by unfold_locales (rule shardIndex_less)

interpretation psh: sharded port_idx numShards
  by unfold_locales (rule srcIPShardIndex_less)

end
