(* ===== verification/FlowProps.thy ===== *)
theory FlowProps
  imports Aggregator "HOL-Library.Multiset"
begin

text \<open>
  Lemmas and properties of the aggregator's window state: the canonical key of a
  conversation, what \<open>Ingest\<close> keeps of the state invariant, that every accumulator is the
  fold of its own flow's packets, that no packet is lost without being counted, and what
  \<open>flush\<close> hands to the output channel.
\<close>

section \<open>Ingest over the sharded maps\<close>

lemma Ingest_port_alt:
  "Ingest_port m a =
     a\<lparr>portShards := shard_set port_idx (portShards a) (SrcIP m)
        (observe_port (DstPort m)
          (case shard_get port_idx (portShards a) (SrcIP m) of
             None \<Rightarrow> newPortTracker | Some pt \<Rightarrow> pt))\<rparr>"
  by (simp add: Ingest_port_def Let_def shard_set_def shard_get_def)

abbreviation key_of :: "FlowPacketMeta \<Rightarrow> FlowKey" where
  "key_of m \<equiv> fst (canonicalize m)"

abbreviation obs :: "(real \<Rightarrow> real) \<Rightarrow> FlowPacketMeta \<Rightarrow> flowAccumulator \<Rightarrow> flowAccumulator" where
  "obs r m \<equiv> observe r m (snd (canonicalize m))"

text \<open>A packet is refused when its flow is new and the shard is full.\<close>

definition refused :: "FlowPacketMeta \<Rightarrow> Aggregator \<Rightarrow> bool" where
  "refused m a \<longleftrightarrow> shard_get flow_idx (flowShards a) (key_of m) = None \<and>
                  length (flowShards a ! flow_idx (key_of m)) \<ge> maxFlowsPerShard"

lemma Ingest_refused:
  "refused m a \<Longrightarrow> Ingest r m a = a\<lparr>droppedNewFlows := droppedNewFlows a + 1\<rparr>"
  by (cases "canonicalize m") (simp add: Ingest_def refused_def shard_get_def Let_def)

lemma Ingest_accepted:
  "\<not> refused m a \<Longrightarrow> Ingest r m a =
     Ingest_port m (a\<lparr>flowShards := shard_set flow_idx (flowShards a) (key_of m)
       (obs r m (case shard_get flow_idx (flowShards a) (key_of m) of
                   None \<Rightarrow> zero_accumulator | Some fa \<Rightarrow> fa))\<rparr>)"
  by (cases "canonicalize m")
     (auto simp add: Ingest_def refused_def shard_get_def shard_set_def Let_def)

lemma Ingest_flowShards:
  "flowShards (Ingest r m a) =
     (if refused m a then flowShards a
      else shard_set flow_idx (flowShards a) (key_of m)
       (obs r m (case shard_get flow_idx (flowShards a) (key_of m) of
                   None \<Rightarrow> zero_accumulator | Some fa \<Rightarrow> fa)))"
  by (simp add: Ingest_refused Ingest_accepted Ingest_port_alt)

lemma Ingest_other:
  "out (Ingest r m a) = out a" "out_closed (Ingest r m a) = out_closed a"
  "windowStart (Ingest r m a) = windowStart a" "droppedOutput (Ingest r m a) = droppedOutput a"
  "droppedNewFlows (Ingest r m a) = droppedNewFlows a + (if refused m a then 1 else 0)"
  by (cases "refused m a"; simp add: Ingest_refused Ingest_accepted Ingest_port_alt)+

section \<open>The state invariant\<close>

text \<open>An accumulator agrees with the key it is stored under.\<close>

definition acc_inv :: "FlowKey \<Rightarrow> flowAccumulator \<Rightarrow> bool" where
  "acc_inv k fa \<longleftrightarrow>
     forwardCount fa + reverseCount fa = packetCount fa \<and>
     acc_protocol fa = KProtocol k \<and>
     (firstSrcIP fa = IPLo k \<and> firstSrcPort fa = PortLo k \<and>
      firstDstIP fa = IPHi k \<and> firstDstPort fa = PortHi k \<or>
      firstSrcIP fa = IPHi k \<and> firstSrcPort fa = PortHi k \<and>
      firstDstIP fa = IPLo k \<and> firstDstPort fa = PortLo k)"

definition port_inv :: "portTracker \<Rightarrow> bool" where
  "port_inv pt \<longleftrightarrow> go_map_ok (counts pt) \<and> length (counts pt) \<le> Suc maxPortsPerSrcIP \<and>
     (length (counts pt) = Suc maxPortsPerSrcIP \<longrightarrow> overflowPortKey \<in> go_keys (counts pt)) \<and>
     sum_list (map snd (counts pt)) = total pt"

definition agg_inv :: "Aggregator \<Rightarrow> bool" where
  "agg_inv a \<longleftrightarrow>
     shard_ok flow_idx numShards (flowShards a) \<and>
     shard_ok port_idx numShards (portShards a) \<and>
     (\<forall>i < numShards. length (flowShards a ! i) \<le> maxFlowsPerShard) \<and>
     (\<forall>k fa. shard_get flow_idx (flowShards a) k = Some fa \<longrightarrow> acc_inv k fa) \<and>
     (\<forall>ip pt. shard_get port_idx (portShards a) ip = Some pt \<longrightarrow> port_inv pt) \<and>
     shard_keys (portShards a) \<subseteq>
       IPLo ` shard_keys (flowShards a) \<union> IPHi ` shard_keys (flowShards a) \<and>
     length (out a) \<le> outputBufferSize"

lemmas observe_defs = observe_def observe_iat_def observe_flags_def observe_counts_def
  observe_first_def welford_def Let_def

lemma observe_counters:
  "packetCount (observe r m b fa) = packetCount fa + 1"
  "forwardCount (observe r m b fa) = forwardCount fa + (if b then 1 else 0)"
  "reverseCount (observe r m b fa) = reverseCount fa + (if b then 0 else 1)"
  by (simp_all add: observe_defs)

lemma fold_packetCount: "packetCount (fold (obs r) ms fa) = packetCount fa + of_nat (length ms)"
  by (induction ms arbitrary: fa) (simp_all add: observe_counters)

lemma observe_first_fields:
  "acc_protocol (observe r m b fa) = (if packetCount fa = 0 then Protocol m else acc_protocol fa)"
  "firstSrcIP (observe r m b fa) = (if packetCount fa = 0 then SrcIP m else firstSrcIP fa)"
  "firstDstIP (observe r m b fa) = (if packetCount fa = 0 then DstIP m else firstDstIP fa)"
  "firstSrcPort (observe r m b fa) = (if packetCount fa = 0 then SrcPort m else firstSrcPort fa)"
  "firstDstPort (observe r m b fa) = (if packetCount fa = 0 then DstPort m else firstDstPort fa)"
  by (simp_all add: observe_defs)

lemma key_of_fields:
  "KProtocol (key_of m) = Protocol m"
  "SrcIP m = IPLo (key_of m) \<and> SrcPort m = PortLo (key_of m) \<and>
   DstIP m = IPHi (key_of m) \<and> DstPort m = PortHi (key_of m) \<or>
   SrcIP m = IPHi (key_of m) \<and> SrcPort m = PortHi (key_of m) \<and>
   DstIP m = IPLo (key_of m) \<and> DstPort m = PortLo (key_of m)"
  by (auto simp: canonicalize_def)

lemma count_step:
  fixes f g p :: u64
  shows "f + g = p \<Longrightarrow> f + (if b then 1 else 0) + (g + (if b then 0 else 1)) = p + 1"
  by (cases b) (auto simp: ac_simps)

lemma zero_fields [simp]:
  "packetCount zero_accumulator = 0" "forwardCount zero_accumulator = 0"
  "reverseCount zero_accumulator = 0" "synCount zero_accumulator = 0"
  "ackPshCount zero_accumulator = 0" "lastTimestamp zero_accumulator = 0"
  "iatMean zero_accumulator = 0" "iatM2 zero_accumulator = 0" "iatSamples zero_accumulator = 0"
  by (simp_all add: zero_accumulator_def)

lemma acc_inv_observe:
  assumes "fa = zero_accumulator \<or> acc_inv (key_of m) fa"
  shows "acc_inv (key_of m) (obs r m fa)"
proof -
  from assms have "forwardCount fa + reverseCount fa = packetCount fa"
    by (elim disjE) (simp_all only: zero_fields acc_inv_def add_0)
  then have c: "forwardCount (obs r m fa) + reverseCount (obs r m fa) = packetCount (obs r m fa)"
    unfolding observe_counters by (rule count_step)
  show ?thesis
  proof (cases "packetCount fa = 0")
    case True
    show ?thesis
      unfolding acc_inv_def observe_first_fields True if_P [OF refl] key_of_fields(1)
      by (intro conjI c [unfolded True] refl key_of_fields(2))
  next
    case False
    with assms zero_fields(1) have "acc_inv (key_of m) fa" by metis
    with False c show ?thesis unfolding acc_inv_def observe_first_fields by simp
  qed
qed

text \<open>The port tracker.\<close>

lemma sum_snd_go_set:
  fixes m :: "(u16, u32) go_map"
  assumes "go_map_ok m"
  shows "sum_list (map snd (incr_count k m)) = sum_list (map snd m) + 1"
  using sum_list_go_set_word [OF assms, of id k] 
  by (cases "go_get m k") (simp_all add: incr_count_def ac_simps)

lemma incr_count_length:
  "length (incr_count k m) = (if go_get m k = None then Suc (length m) else length m)"
  by (auto simp: incr_count_def go_map)

lemma incr_count_keys: "go_keys (incr_count k m) = insert k (go_keys m)"
  by (simp add: incr_count_def go_keys_set)

lemma port_inv_new: "port_inv newPortTracker"
  by (simp add: port_inv_def newPortTracker_def)

lemma port_inv_observe:
  assumes inv: "port_inv pt"
  shows "port_inv (observe_port p pt)"
proof -
  have ok: "go_map_ok (counts pt)" and s: "sum_list (map snd (counts pt)) = total pt"
    using inv by (simp_all add: port_inv_def)
  have incr: "go_map_ok (incr_count k (counts pt))" for k
    using ok by (simp add: incr_count_def)
  consider (seen) c where "go_get (counts pt) p = Some c"
    | (full) "go_get (counts pt) p = None" "length (counts pt) \<ge> maxPortsPerSrcIP"
    | (new) "go_get (counts pt) p = None" "length (counts pt) < maxPortsPerSrcIP"
    by fastforce
  then show ?thesis
  proof cases
    case seen
    with inv incr ok s show ?thesis
      by (auto simp: port_inv_def observe_port_def incr_count_length incr_count_keys sum_snd_go_set)
  next
    case full
    have "length (counts pt) = maxPortsPerSrcIP" if "overflowPortKey \<notin> go_keys (counts pt)"
      using inv full(2) that by (auto simp: port_inv_def)
    with full inv incr ok s show ?thesis
      by (auto simp: port_inv_def observe_port_def incr_count_length incr_count_keys
            sum_snd_go_set go_get_None_iff)
  next
    case new
    have "go_set (counts pt) p 1 = incr_count p (counts pt)"
      using new(1) by (simp add: incr_count_def)
    with new incr ok s show ?thesis
      by (auto simp: port_inv_def observe_port_def incr_count_length incr_count_keys sum_snd_go_set)
  qed
qed

text \<open>The parts of the invariant after an accepted packet.\<close>

lemma agg_inv_New: "agg_inv (NewAggregator t)"
  by (auto simp: agg_inv_def NewAggregator_def fsh.ok_empty psh.ok_empty shard_get_def
        shardIndex_less srcIPShardIndex_less shard_keys_def)

lemma agg_inv_drop: "agg_inv a \<Longrightarrow> agg_inv (a\<lparr>droppedNewFlows := d\<rparr>)"
  by (simp add: agg_inv_def)

lemma accepted_length:
  assumes "agg_inv a" and "\<not> refused m a" and "i < numShards"
  shows "length (shard_set flow_idx (flowShards a) (key_of m) fa ! i) \<le> maxFlowsPerShard"
proof (cases "i = flow_idx (key_of m)")
  case True
  have l: "length (flowShards a) = numShards"
    using assms(1) fsh.ok_length by (auto simp: agg_inv_def)
  have le: "length (flowShards a ! i) \<le> maxFlowsPerShard"
    using assms(1,3) by (simp add: agg_inv_def)
  show ?thesis
  proof (cases "shard_get flow_idx (flowShards a) (key_of m)")
    case None
    with assms(2) have "length (flowShards a ! i) < maxFlowsPerShard"
      by (simp add: refused_def True)
    with None True l assms(3) show ?thesis
      by (simp add: shard_set_def shard_get_def go_len_set_absent)
  next
    case (Some w)
    with True l assms(3) le show ?thesis
      by (simp add: shard_set_def shard_get_def go_len_set_present)
  qed
next
  case False
  with assms(1,3) show ?thesis by (simp add: shard_set_def agg_inv_def)
qed

lemma agg_inv_Ingest:
  assumes inv: "agg_inv a"
  shows "agg_inv (Ingest r m a)"
proof (cases "refused m a")
  case True
  with inv show ?thesis by (simp add: Ingest_refused agg_inv_drop)
next
  case False
  let ?fa = "case shard_get flow_idx (flowShards a) (key_of m) of None \<Rightarrow> zero_accumulator | Some fa \<Rightarrow> fa"
  let ?pt = "case shard_get port_idx (portShards a) (SrcIP m) of None \<Rightarrow> newPortTracker | Some pt \<Rightarrow> pt"
  let ?fs = "shard_set flow_idx (flowShards a) (key_of m) (obs r m ?fa)"
  let ?ps = "shard_set port_idx (portShards a) (SrcIP m) (observe_port (DstPort m) ?pt)"
  have fok: "shard_ok flow_idx numShards (flowShards a)"
    and pok: "shard_ok port_idx numShards (portShards a)"
    and src: "shard_keys (portShards a) \<subseteq>
       IPLo ` shard_keys (flowShards a) \<union> IPHi ` shard_keys (flowShards a)"
    and accs: "\<And>k fa. shard_get flow_idx (flowShards a) k = Some fa \<Longrightarrow> acc_inv k fa"
    and pts: "\<And>ip pt. shard_get port_idx (portShards a) ip = Some pt \<Longrightarrow> port_inv pt"
    using inv by (auto simp: agg_inv_def)
  have new_acc: "acc_inv (key_of m) (obs r m ?fa)"
    using accs by (intro acc_inv_observe) (auto split: option.split)
  have new_pt: "port_inv (observe_port (DstPort m) ?pt)"
    using pts by (intro port_inv_observe) (auto simp: port_inv_new split: option.split)
  have "SrcIP m \<in> {IPLo (key_of m), IPHi (key_of m)}"
    using key_of_fields(2) [of m] by blast
  with src have src': "shard_keys ?ps \<subseteq> IPLo ` shard_keys ?fs \<union> IPHi ` shard_keys ?fs"
    unfolding psh.keys_set [OF pok] fsh.keys_set [OF fok] by auto
  have "Ingest r m a = a\<lparr>flowShards := ?fs, portShards := ?ps\<rparr>"
    using False by (simp add: Ingest_accepted Ingest_port_alt)
  moreover have "agg_inv (a\<lparr>flowShards := ?fs, portShards := ?ps\<rparr>)"
    unfolding agg_inv_def
    using inv False src' accepted_length [OF inv False] new_acc new_pt accs pts
    by (simp add: agg_inv_def fsh.ok_set [OF fok] psh.ok_set [OF pok]
          fsh.get_set [OF fok] psh.get_set [OF pok])
  ultimately show ?thesis by simp
qed

section \<open>Flush\<close>

lemma fold_send_out:
  "fold send_out ffs a =
     a\<lparr>out := out a @ take (outputBufferSize - length (out a)) ffs,
       droppedOutput := droppedOutput a + of_nat (length ffs - (outputBufferSize - length (out a)))\<rparr>"
proof (induction ffs arbitrary: a)
  case Nil
  show ?case by simp
next
  case (Cons ff ffs)
  show ?case
  proof (cases "length (out a) < outputBufferSize")
    case True
    then obtain d where d: "outputBufferSize - length (out a) = Suc d"
      by (metis Suc_diff_Suc)
    then have "outputBufferSize - length (out (a\<lparr>out := out a @ [ff]\<rparr>)) = d" by simp
    moreover have "send_out ff a = a\<lparr>out := out a @ [ff]\<rparr>" using True by (simp add: send_out_def)
    ultimately show ?thesis using d by (simp add: Cons.IH)
  next
    case False
    then have "send_out ff a = a\<lparr>droppedOutput := droppedOutput a + 1\<rparr>" by (simp add: send_out_def)
    with False show ?thesis by (simp add: Cons.IH add.commute add.left_commute)
  qed
qed

lemma flush_shard_alt:
  "flush_shard feat ordF i a =
     fold send_out (map (feat \<circ> snd) (ordF (flowShards a ! i)))
       (a\<lparr>flowShards := (flowShards a)[i := []]\<rparr>)"
  by (simp add: flush_shard_def Let_def fold_map comp_def case_prod_unfold)

lemma fold_send_out_flowShards [simp]: "flowShards (fold send_out ffs a) = flowShards a"
  by (simp add: fold_send_out)

lemma fold_send_out_update:
  "(fold send_out ffs a)\<lparr>flowShards := s\<rparr> = fold send_out ffs (a\<lparr>flowShards := s\<rparr>)"
  by (simp add: fold_send_out)

lemma fold_flush_shard:
  assumes "n \<le> length (flowShards a)"
  shows "fold (flush_shard feat ordF) [0..<n] a =
         fold send_out (concat (map (\<lambda>fl. map (feat \<circ> snd) (ordF fl)) (take n (flowShards a))))
           (a\<lparr>flowShards := replicate n [] @ drop n (flowShards a)\<rparr>)"
  using assms
proof (induction n)
  case 0
  show ?case by simp
next
  case (Suc n)
  then have n: "n < length (flowShards a)" by simp
  have "(replicate n [] @ drop n (flowShards a))[n := []] = replicate (Suc n) [] @ drop (Suc n) (flowShards a)"
    using n by (simp add: list_update_append Cons_nth_drop_Suc [symmetric] replicate_append_same)
  moreover have "(replicate n [] @ drop n (flowShards a)) ! n = flowShards a ! n"
    using n by (simp add: nth_append)
  ultimately show ?case
    using Suc n
    by (simp add: flush_shard_alt fold_send_out_update take_Suc_conv_app_nth comp_def)
qed

text \<open>The feature vectors of a window, in the order \<open>flush\<close> sends them.\<close>

definition window_features ::
    "(real \<Rightarrow> real) \<Rightarrow> ((u16 \<times> u32) list \<Rightarrow> (u16 \<times> u32) list) \<Rightarrow> (flow_shard \<Rightarrow> flow_shard) \<Rightarrow>
     int \<Rightarrow> Aggregator \<Rightarrow> FlowFeatures list" where
  "window_features r ordP ordF now a =
     concat (map (\<lambda>fl. map (flow_features r ordP (port_snapshot (portShards a)) (windowStart a) now \<circ> snd)
                          (ordF fl)) (flowShards a))"

lemma flush_spec:
  assumes "length (flowShards a) = numShards"
  shows "flush r ordP ordF now a =
    a\<lparr>flowShards := replicate numShards [], portShards := replicate numShards [],
      windowStart := now,
      out := out a @ take (outputBufferSize - length (out a)) (window_features r ordP ordF now a),
      droppedOutput := droppedOutput a +
        of_nat (length (window_features r ordP ordF now a) - (outputBufferSize - length (out a)))\<rparr>"
  using assms
  by (simp add: flush_def Let_def fold_flush_shard window_features_def fold_send_out)

lemma agg_inv_flush:
  assumes "agg_inv a"
  shows "agg_inv (flush r ordP ordF now a)"
proof -
  have "length (flowShards a) = numShards"
    using assms fsh.ok_length by (auto simp: agg_inv_def)
  then show ?thesis
    using assms
    by (auto simp: flush_spec agg_inv_def fsh.ok_empty psh.ok_empty shard_get_def shardIndex_less
          srcIPShardIndex_less shard_keys_def)
qed

section \<open>Reachable states\<close>

text \<open>
  The aggregator between window boundaries: packets are ingested, windows are flushed (any
  iteration order of the maps), the consumer receives.
\<close>

inductive agg_reachable :: "(real \<Rightarrow> real) \<Rightarrow> Aggregator \<Rightarrow> bool" for r where
  agg_new: "agg_reachable r (NewAggregator t)"
| agg_ingest: "agg_reachable r a \<Longrightarrow> agg_reachable r (Ingest r m a)"
| agg_flush: "agg_reachable r a \<Longrightarrow> agg_reachable r (flush r ordP ordF now a)"
| agg_recv: "agg_reachable r a \<Longrightarrow> out a = ff # ffs \<Longrightarrow> agg_reachable r (a\<lparr>out := ffs\<rparr>)"

lemma agg_reachable_inv: "agg_reachable r a \<Longrightarrow> agg_inv a"
proof (induction rule: agg_reachable.induct)
  case (agg_recv a ff ffs)
  then show ?case by (simp add: agg_inv_def)
qed (auto intro: agg_inv_New agg_inv_Ingest agg_inv_flush)

section \<open>Every packet is accounted for\<close>

text \<open>The sum of the packet counts of all flows of the window.\<close>

definition counted_packets :: "Aggregator \<Rightarrow> u64" where
  "counted_packets a = sum_list (map (\<lambda>fl. sum_list (map (packetCount \<circ> snd) fl)) (flowShards a))"

lemma Ingest_conserves:
  assumes "agg_inv a"
  shows "counted_packets (Ingest r m a) + droppedNewFlows (Ingest r m a) =
         counted_packets a + droppedNewFlows a + 1"
proof (cases "refused m a")
  case True
  then show ?thesis by (simp add: Ingest_refused counted_packets_def ac_simps)
next
  case False
  have ok: "shard_ok flow_idx numShards (flowShards a)" using assms by (simp add: agg_inv_def)
  have "counted_packets (Ingest r m a) = counted_packets a + 1"
    using False
    by (cases "shard_get flow_idx (flowShards a) (key_of m)")
       (simp_all add: counted_packets_def Ingest_flowShards fsh.sum_set_word [OF ok] observe_counters)
  then show ?thesis using False by (simp add: Ingest_other ac_simps)
qed

lemma fold_Ingest_inv: "agg_inv a \<Longrightarrow> agg_inv (fold (Ingest r) ms a)"
  by (induction ms arbitrary: a) (auto intro: agg_inv_Ingest)

lemma fold_Ingest_conserves:
  assumes "agg_inv a"
  shows "counted_packets (fold (Ingest r) ms a) + droppedNewFlows (fold (Ingest r) ms a) =
         counted_packets a + droppedNewFlows a + of_nat (length ms)"
  using assms
proof (induction ms arbitrary: a)
  case Nil
  show ?case by simp
next
  case (Cons m ms)
  with Ingest_conserves [OF Cons.prems, of r m] agg_inv_Ingest [OF Cons.prems, of r m]
  show ?case by (simp add: ac_simps)
qed

text \<open>
  The packets of one flow, and the accumulator they produce.  A flow that is tracked has
  been tracked from its first packet on: a full shard stays full until the window ends.
\<close>

definition flow_packets :: "FlowKey \<Rightarrow> FlowPacketMeta list \<Rightarrow> FlowPacketMeta list" where
  "flow_packets k ms = filter (\<lambda>m. key_of m = k) ms"

lemma flow_packets_snoc:
  "flow_packets k (ms @ [m]) = (if key_of m = k then flow_packets k ms @ [m] else flow_packets k ms)"
  by (simp add: flow_packets_def)

lemma shard_full_stays:
  assumes "agg_inv a" and "length (flowShards a ! i) \<ge> maxFlowsPerShard" and "i < numShards"
  shows "length (flowShards (Ingest r m a) ! i) \<ge> maxFlowsPerShard"
proof -
  have "length (flowShards a) = numShards"
    using assms(1) fsh.ok_length by (auto simp: agg_inv_def)
  moreover have "length l \<le> length (go_set l k v)" for l :: flow_shard and k v
    by (cases "go_get l k") (simp_all add: go_map)
  ultimately show ?thesis
    using assms(2,3)
    by (cases "i = flow_idx (key_of m)")
       (auto simp: Ingest_flowShards shard_set_def intro: order.trans)
qed

lemma flow_accumulator_fold:
  "let a = fold (Ingest r) ms (NewAggregator t) in
   case shard_get flow_idx (flowShards a) k of
     None \<Rightarrow> flow_packets k ms = [] \<or> length (flowShards a ! flow_idx k) \<ge> maxFlowsPerShard
   | Some fa \<Rightarrow> fa = fold (obs r) (flow_packets k ms) zero_accumulator"
proof (induction ms rule: rev_induct)
  case Nil
  show ?case
    by (simp add: NewAggregator_def shard_get_def shardIndex_less flow_packets_def)
next
  case (snoc m ms)
  define a where "a = fold (Ingest r) ms (NewAggregator t)"
  have inv: "agg_inv a" unfolding a_def by (intro fold_Ingest_inv agg_inv_New)
  then have ok: "shard_ok flow_idx numShards (flowShards a)" by (simp add: agg_inv_def)
  note IH = snoc.IH [folded a_def, unfolded Let_def]
  have step: "fold (Ingest r) (ms @ [m]) (NewAggregator t) = Ingest r m a" by (simp add: a_def)
  have full: "length (flowShards a ! flow_idx k) \<ge> maxFlowsPerShard \<Longrightarrow>
              length (flowShards (Ingest r m a) ! flow_idx k) \<ge> maxFlowsPerShard"
    by (rule shard_full_stays [OF inv _ shardIndex_less])
  show ?case
  proof (cases "refused m a")
    case True
    then show ?thesis
      using IH unfolding step Let_def flow_packets_snoc
      by (auto simp: Ingest_refused refused_def split: option.splits)
  next
    case False
    show ?thesis
    proof (cases "key_of m = k")
      case key: True
      have "fold (obs r) (flow_packets k ms) zero_accumulator =
            (case shard_get flow_idx (flowShards a) k of None \<Rightarrow> zero_accumulator | Some fa \<Rightarrow> fa)"
        using IH False key by (auto simp: refused_def split: option.splits)
      then show ?thesis
        unfolding step Let_def flow_packets_snoc
        using False key by (simp add: Ingest_flowShards fsh.get_set [OF ok])
    next
      case other: False
      then have "shard_get flow_idx (flowShards (Ingest r m a)) k = shard_get flow_idx (flowShards a) k"
        using False by (auto simp: Ingest_flowShards fsh.get_set [OF ok])
      then show ?thesis
        using IH full other unfolding step Let_def flow_packets_snoc
        by (auto split: option.splits)
    qed
  qed
qed


lemma mset_window_features:
  assumes "\<And>fl. mset (ordF fl) = mset fl"
  shows "mset (window_features r ordP ordF now a) =
         image_mset (flow_features r ordP (port_snapshot (portShards a)) (windowStart a) now \<circ> snd)
           (mset (concat (flowShards a)))"
proof -
  have "mset (concat (map (\<lambda>fl. map g (ordF fl)) fls)) = image_mset g (mset (concat fls))"
    for g :: "FlowKey \<times> flowAccumulator \<Rightarrow> FlowFeatures" and fls
    by (induction fls) (simp_all add: assms)
  then show ?thesis by (simp add: window_features_def)
qed

section \<open>Properties\<close>

text \<open>
  Two packets fall into the same flow exactly when they belong to one conversation: they
  have the same protocol and the same two endpoints (address and port), in the same or in
  the opposite direction.
\<close>

theorem canonicalize_conversation:
  "fst (canonicalize m) = fst (canonicalize m') \<longleftrightarrow>
     Protocol m = Protocol m' \<and>
     (SrcIP m = SrcIP m' \<and> SrcPort m = SrcPort m' \<and> DstIP m = DstIP m' \<and> DstPort m = DstPort m' \<or>
      SrcIP m = DstIP m' \<and> SrcPort m = DstPort m' \<and> DstIP m = SrcIP m' \<and> DstPort m = SrcPort m')"
  unfolding canonicalize_def by (auto split: if_splits)

text \<open>A packet for the witnesses.\<close>

definition example_packet :: FlowPacketMeta where
  "example_packet = \<lparr>SrcIP = 1, DstIP = 2, SrcPort = 3, DstPort = 4, Protocol = 6, TCPFlags = 2,
     m_Action = 2, m_DropReason = 0, TimestampNS = 5\<rparr>"



text \<open>
  In every reachable state, a stored accumulator describes the conversation of the key it
  is stored under: its first packet's endpoints and protocol are those of the key, and the
  packet count is the sum of both directions.
\<close>

theorem accumulator_describes_flow:
  assumes "agg_reachable r a" and "shard_get flow_idx (flowShards a) k = Some fa"
  shows "forwardCount fa + reverseCount fa = packetCount fa \<and>
         acc_protocol fa = KProtocol k \<and>
         {(firstSrcIP fa, firstSrcPort fa), (firstDstIP fa, firstDstPort fa)} =
         {(IPLo k, PortLo k), (IPHi k, PortHi k)}"
proof -
  have "agg_inv a" using assms(1) by (rule agg_reachable_inv)
  with assms(2) have "acc_inv k fa" by (simp add: agg_inv_def)
  then show ?thesis by (auto simp: acc_inv_def)
qed

lemma example_flow:
  "shard_get flow_idx (flowShards (Ingest fl64 example_packet (NewAggregator 0)))
     (key_of example_packet) = Some (obs fl64 example_packet zero_accumulator)"
proof -
  have "flowShards (NewAggregator 0) ! flow_idx k = []" for k
    by (simp add: NewAggregator_def shardIndex_less)
  then have "\<not> refused example_packet (NewAggregator 0)"
    by (simp add: refused_def maxFlowsPerShard_def)
  moreover have "shard_ok flow_idx numShards (flowShards (NewAggregator 0))"
    by (simp add: NewAggregator_def fsh.ok_empty)
  moreover have "shard_get flow_idx (flowShards (NewAggregator 0)) (key_of example_packet) = None"
    by (simp add: shard_get_def NewAggregator_def shardIndex_less)
  ultimately show ?thesis by (simp add: Ingest_flowShards fsh.get_set)
qed

theorem accumulator_describes_flow_witness:
  "forwardCount (obs fl64 example_packet zero_accumulator) +
   reverseCount (obs fl64 example_packet zero_accumulator) =
   packetCount (obs fl64 example_packet zero_accumulator) \<and>
   acc_protocol (obs fl64 example_packet zero_accumulator) = KProtocol (key_of example_packet) \<and>
   {(firstSrcIP (obs fl64 example_packet zero_accumulator),
     firstSrcPort (obs fl64 example_packet zero_accumulator)),
    (firstDstIP (obs fl64 example_packet zero_accumulator),
     firstDstPort (obs fl64 example_packet zero_accumulator))} =
   {(IPLo (key_of example_packet), PortLo (key_of example_packet)),
    (IPHi (key_of example_packet), PortHi (key_of example_packet))}"
  by (rule accumulator_describes_flow [OF agg_ingest [OF agg_new] example_flow])

text \<open>
  No packet is lost silently: after any sequence of packets in a window, the packet
  counts of all tracked flows and the counter of refused new flows add up to the number of
  packets ingested (modulo the 64 bits of the counters).
\<close>

theorem packets_accounted:
  "counted_packets (fold (Ingest r) ms (NewAggregator t)) +
   droppedNewFlows (fold (Ingest r) ms (NewAggregator t)) = of_nat (length ms)"
proof -
  have "counted_packets (NewAggregator t) + droppedNewFlows (NewAggregator t) = 0"
    by (simp add: counted_packets_def NewAggregator_def map_replicate_const sum_list_replicate)
  then show ?thesis
    using fold_Ingest_conserves [OF agg_inv_New, of r ms t] by simp
qed

text \<open>
  Sharding, capacity limits and interleaving of flows do not disturb a tracked flow: the
  accumulator stored for a key after any sequence of packets is exactly what \<open>observe\<close>
  yields on the packets of that conversation alone, from the first, in order.
\<close>

theorem accumulator_exact:
  assumes "shard_get flow_idx (flowShards (fold (Ingest r) ms (NewAggregator t))) k = Some fa"
  shows "fa = fold (\<lambda>m. observe r m (snd (canonicalize m)))
                (filter (\<lambda>m. fst (canonicalize m) = k) ms) zero_accumulator"
  using flow_accumulator_fold [of r ms t k] assms by (simp add: flow_packets_def)

theorem accumulator_exact_witness:
  "obs fl64 example_packet zero_accumulator =
     fold (\<lambda>m. observe fl64 m (snd (canonicalize m)))
       (filter (\<lambda>m. fst (canonicalize m) = key_of example_packet) [example_packet]) zero_accumulator"
  by (rule accumulator_exact [where t = 0]) (simp add: example_flow)

text \<open>
  (C28) \<open>flush\<close> in full: it builds one feature vector for every tracked flow, whatever order the
  maps are visited in, appends them to the channel as long as it has room, counts the rest
  in \<open>droppedOutput\<close>, starts the next window at the current time and leaves every shard empty.
\<close>

theorem flush_delivers:
  assumes "agg_reachable r a" and "\<And>fl. mset (ordF fl) = mset fl"
  shows "\<exists>ffs. mset ffs =
             image_mset (\<lambda>(k, fa). flow_features r ordP (port_snapshot (portShards a))
                                    (windowStart a) now fa)
               (mset (concat (flowShards a))) \<and>
           length ffs = shard_size (flowShards a) \<and>
           flush r ordP ordF now a =
             a\<lparr>flowShards := replicate 16 [], portShards := replicate 16 [], windowStart := now,
               out := out a @ take (4096 - length (out a)) ffs,
               droppedOutput := droppedOutput a + of_nat (length ffs - (4096 - length (out a)))\<rparr>"
proof -
  have "length (flowShards a) = numShards"
    using agg_reachable_inv [OF assms(1)] fsh.ok_length by (auto simp: agg_inv_def)
  note spec = flush_spec [OF this, of r ordP ordF now]
  let ?ffs = "window_features r ordP ordF now a"
  have m: "mset ?ffs = image_mset (\<lambda>(k, fa). flow_features r ordP (port_snapshot (portShards a))
                                    (windowStart a) now fa) (mset (concat (flowShards a)))"
    using mset_window_features [of ordF r ordP now a, OF assms(2)]
    by (simp add: comp_def case_prod_unfold)
  have "size (mset ?ffs) = shard_size (flowShards a)"
    unfolding m by (simp add: shard_size_def length_concat)
  then have "length ?ffs = shard_size (flowShards a)" by simp
  with m spec show ?thesis unfolding guards by blast
qed

theorem flush_delivers_witness:
  "\<exists>ffs. mset ffs =
       image_mset (\<lambda>(k, fa). flow_features fl64 (\<lambda>l. l)
           (port_snapshot (portShards (Ingest fl64 example_packet (NewAggregator 0))))
           (windowStart (Ingest fl64 example_packet (NewAggregator 0))) 7 fa)
         (mset (concat (flowShards (Ingest fl64 example_packet (NewAggregator 0))))) \<and>
     length ffs = shard_size (flowShards (Ingest fl64 example_packet (NewAggregator 0))) \<and>
     flush fl64 (\<lambda>l. l) rev 7 (Ingest fl64 example_packet (NewAggregator 0)) =
       (Ingest fl64 example_packet (NewAggregator 0))
         \<lparr>flowShards := replicate 16 [], portShards := replicate 16 [], windowStart := 7,
          out := out (Ingest fl64 example_packet (NewAggregator 0)) @
            take (4096 - length (out (Ingest fl64 example_packet (NewAggregator 0)))) ffs,
          droppedOutput := droppedOutput (Ingest fl64 example_packet (NewAggregator 0)) +
            of_nat (length ffs -
              (4096 - length (out (Ingest fl64 example_packet (NewAggregator 0)))))\<rparr>"
  by (rule flush_delivers [OF agg_ingest [OF agg_new]]) simp

end
