(* ===== verification/FlowStats.thy ===== *)
theory FlowStats
  imports FlowProps
begin

text \<open>
  The statistics the aggregator reports: the inter-arrival times of a flow under Welford's
  online update, and the entropy of the destination ports of a source.  The sign of the
  accumulated squares is shown once for every rounding, in the locale \<open>rounding\<close>, and used
  for binary64; the values are identified with the textbook statistics in exact arithmetic.
\<close>

section \<open>Inter-arrival times\<close>

text \<open>The samples \<open>observe\<close> takes: gaps to a later timestamp, once a non-zero one was seen.\<close>

fun iats :: "u64 \<Rightarrow> FlowPacketMeta list \<Rightarrow> u64 list" where
  "iats prev [] = []"
| "iats prev (m # ms) =
     (if prev \<noteq> 0 \<and> prev < TimestampNS m then [TimestampNS m - prev] else []) @
     iats (TimestampNS m) ms"

lemma length_iats: "length (iats prev ms) \<le> length ms"
  by (induction prev ms rule: iats.induct) auto

text \<open>The fields of the accumulator that the samples determine.\<close>

type_synonym iat_state = "u64 \<times> real \<times> real"

definition iat_state :: "flowAccumulator \<Rightarrow> iat_state" where
  "iat_state fa = (iatSamples fa, iatMean fa, iatM2 fa)"

definition iat_step :: "(real \<Rightarrow> real) \<Rightarrow> real \<Rightarrow> iat_state \<Rightarrow> iat_state" where
  "iat_step r x = (\<lambda>(n, mean, m2).
     let n' = n + 1; delta = r (x - mean); mean' = r (mean + r (delta / float_u64 r n'))
     in (n', mean', r (m2 + r (delta * r (x - mean')))))"

lemma iat_state_observe:
  "iat_state (observe r m b fa) =
     (if lastTimestamp fa \<noteq> 0 \<and> lastTimestamp fa < TimestampNS m
      then iat_step r (float_u64 r (TimestampNS m - lastTimestamp fa)) (iat_state fa)
      else iat_state fa)"
  "lastTimestamp (observe r m b fa) = TimestampNS m"
  by (auto simp: observe_defs iat_state_def iat_step_def)

lemma iat_state_fold:
  "iat_state (fold (obs r) ms fa) =
     fold (iat_step r \<circ> float_u64 r) (iats (lastTimestamp fa) ms) (iat_state fa)"
  by (induction ms arbitrary: fa) (auto simp: iat_state_observe)

lemma iat_state_zero: "iat_state zero_accumulator = (0, 0, 0)"
  by (simp add: iat_state_def)

lemma iat_samples_fold:
  "fst (fold (iat_step r) xs (n, s)) = n + of_nat (length xs)"
  by (induction xs arbitrary: n s) (auto simp: iat_step_def Let_def case_prod_unfold ac_simps)

section \<open>Welford under rounding\<close>

context rounding
begin

lemma mean_between:
  assumes x: "r x = x" and mu: "r mu = mu" and d: "2 \<le> d" and le: "mu \<le> x"
  shows "mu \<le> r (mu + r (r (x - mu) / d)) \<and> r (mu + r (r (x - mu) / d)) \<le> x"
proof -
  have nn: "0 \<le> r (x - mu)" using le by (intro r_nonneg) simp
  then have "0 \<le> r (r (x - mu) / d)" using d by (intro r_nonneg) simp
  moreover have "r (r (x - mu) / d) \<le> r (r (x - mu) / 2)"
    using nn d by (intro r_mono divide_left_mono) auto
  moreover have "r (r (x - mu) / 2) \<le> x - mu" using le by (intro r_half) simp
  ultimately show ?thesis using x mu by (auto intro: r_le r_ge)
qed

lemma mean_between':
  assumes x: "r x = x" and mu: "r mu = mu" and d: "2 \<le> d" and le: "x \<le> mu"
  shows "x \<le> r (mu + r (r (x - mu) / d)) \<and> r (mu + r (r (x - mu) / d)) \<le> mu"
proof -
  have neg: "r (- x) = - x" "r (- mu) = - mu" using x mu by (simp_all add: r_minus)
  have flip: "r (- mu + r (r (- x - - mu) / d)) = - r (mu + r (r (x - mu) / d))"
    using r_minus [of "x - mu"] r_minus [of "r (x - mu) / d"]
      r_minus [of "mu + r (r (x - mu) / d)"] by simp
  show ?thesis
    using mean_between [OF neg d] le unfolding flip by simp
qed

text \<open>The product added to the squares is never negative.\<close>

lemma welford_sign:
  assumes x: "r x = x" and mu: "r mu = mu" and d: "2 \<le> d \<or> d = 1 \<and> mu = 0"
  shows "0 \<le> r (x - mu) * r (x - r (mu + r (r (x - mu) / d)))"
  using d
proof (elim disjE conjE)
  assume "d = 1" "mu = 0"
  then show ?thesis using x by (simp add: r_0)
next
  assume d: "2 \<le> d"
  show ?thesis
  proof (cases "mu \<le> x")
    case True
    then show ?thesis
      using mean_between [OF x mu d True] by (intro mult_nonneg_nonneg r_nonneg) auto
  next
    case False
    then show ?thesis
      using mean_between' [OF x mu d] by (intro mult_nonpos_nonpos r_nonpos) auto
  qed
qed

lemma r_of_nat_ge: "k \<le> n \<Longrightarrow> k \<le> 2 ^ 53 \<Longrightarrow> real k \<le> r (real n)"
  using r_of_int [of "int k"] by (intro r_ge) (auto simp flip: of_nat_power)

lemma count_divisor:
  assumes "Suc n < 2 ^ 64"
  shows "n \<noteq> 0 \<Longrightarrow> 2 \<le> float_u64 r (of_nat n + 1)" "n = 0 \<Longrightarrow> float_u64 r (of_nat n + 1) = 1"
proof -
  have "of_nat n + 1 = (of_nat (Suc n) :: u64)" by simp
  then have "unat (of_nat n + 1 :: u64) = Suc n"
    using assms unat_of_nat [where 'a = 64, of "Suc n"] by (simp del: of_nat_Suc)
  then have f: "float_u64 r (of_nat n + 1) = r (real (Suc n))" by (simp add: float_u64_def)
  show "n = 0 \<Longrightarrow> float_u64 r (of_nat n + 1) = 1" unfolding f using r_1 by simp
  show "n \<noteq> 0 \<Longrightarrow> 2 \<le> float_u64 r (of_nat n + 1)"
    unfolding f using r_of_nat_ge [of 2 "Suc n"] by simp
qed

definition iat_ok :: "nat \<Rightarrow> iat_state \<Rightarrow> bool" where
  "iat_ok n = (\<lambda>(k, mean, m2). k = of_nat n \<and> r mean = mean \<and> 0 \<le> m2 \<and> (n = 0 \<longrightarrow> mean = 0))"

lemma iat_ok_step:
  assumes "iat_ok n s" and "Suc n < 2 ^ 64" and "r x = x"
  shows "iat_ok (Suc n) (iat_step r x s)"
proof -
  obtain mean m2 where s: "s = (of_nat n, mean, m2)" "r mean = mean" "0 \<le> m2" "n = 0 \<longrightarrow> mean = 0"
    using assms(1) by (cases s) (auto simp: iat_ok_def)
  let ?d = "float_u64 r (of_nat n + 1)"
  have "2 \<le> ?d \<or> ?d = 1 \<and> mean = 0" using count_divisor [OF assms(2)] s(4) by blast
  from welford_sign [OF assms(3) s(2) this]
  have "0 \<le> r (r (x - mean) * r (x - r (mean + r (r (x - mean) / ?d))))" by (rule r_nonneg)
  then show ?thesis
    using s(3) by (auto simp: iat_ok_def iat_step_def s(1) Let_def r_idem intro!: r_nonneg)
qed

lemma iat_ok_fold:
  assumes "iat_ok n s" and "n + length xs < 2 ^ 64" and "\<forall>x \<in> set xs. r x = x"
  shows "iat_ok (n + length xs) (fold (iat_step r) xs s)"
  using assms
proof (induction xs arbitrary: n s)
  case Nil
  then show ?case by simp
next
  case (Cons x xs)
  then have "iat_ok (Suc n) (iat_step r x s)" by (intro iat_ok_step) auto
  then show ?case using Cons.IH [of "Suc n"] Cons.prems by simp
qed

lemma accumulated_squares:
  assumes "length ms < 2 ^ 64"
  shows "0 \<le> iatM2 (fold (obs r) ms zero_accumulator)"
proof -
  let ?xs = "map (float_u64 r) (iats 0 ms)"
  have "iat_ok (0 + length ?xs) (fold (iat_step r) ?xs (0, 0, 0))"
    using assms length_iats [of 0 ms]
    by (intro iat_ok_fold) (auto simp: iat_ok_def r_0 float_u64_def r_idem)
  then show ?thesis
    using iat_state_fold [of r ms zero_accumulator]
    by (auto simp: iat_state_zero fold_map iat_ok_def iat_state_def)
qed

end

section \<open>Welford in exact arithmetic\<close>

definition mean_of :: "real list \<Rightarrow> real" where
  "mean_of xs = sum_list xs / real (length xs)"

definition pop_variance :: "real list \<Rightarrow> real" where
  "pop_variance xs = sum_list (map (\<lambda>x. (x - mean_of xs)\<^sup>2) xs) / real (length xs)"

lemma sum_squared_deviations:
  fixes xs :: "real list"
  assumes "real (length xs) * mu = sum_list xs"
  shows "sum_list (map (\<lambda>x. (x - mu)\<^sup>2) xs) =
         sum_list (map (\<lambda>x. x\<^sup>2) xs) - real (length xs) * mu\<^sup>2"
proof -
  have "sum_list (map (\<lambda>x. (x - mu)\<^sup>2) xs) =
        sum_list (map (\<lambda>x. x\<^sup>2) xs) - 2 * mu * sum_list xs + real (length xs) * mu\<^sup>2"
    by (induction xs) (simp_all add: power2_diff algebra_simps)
  also have "\<dots> = sum_list (map (\<lambda>x. x\<^sup>2) xs) - real (length xs) * mu\<^sup>2"
    unfolding assms [symmetric] by (simp add: power2_eq_square)
  finally show ?thesis .
qed

text \<open>After the samples \<open>xs\<close>: their number, their mean, their summed squared deviation.\<close>

definition welford_inv :: "real list \<Rightarrow> iat_state \<Rightarrow> bool" where
  "welford_inv xs = (\<lambda>(k, mean, m2). k = of_nat (length xs) \<and>
     real (length xs) * mean = sum_list xs \<and>
     m2 = sum_list (map (\<lambda>x. x\<^sup>2) xs) - real (length xs) * mean\<^sup>2)"

lemma welford_algebra:
  fixes n x mean :: real
  assumes "0 \<le> n"
  defines "mean' \<equiv> mean + (x - mean) / (n + 1)"
  shows "(n + 1) * mean' = n * mean + x"
    and "- n * mean\<^sup>2 + (x - mean) * (x - mean') = x\<^sup>2 - (n + 1) * mean'\<^sup>2"
proof -
  define q where "q = (x - mean) / (n + 1)"
  have "n + 1 \<noteq> 0" using assms by simp
  then have x: "x = mean + q * (n + 1)" by (simp add: q_def)
  have mean': "mean' = mean + q" by (simp add: mean'_def q_def)
  show "(n + 1) * mean' = n * mean + x"
    and "- n * mean\<^sup>2 + (x - mean) * (x - mean') = x\<^sup>2 - (n + 1) * mean'\<^sup>2"
    unfolding mean' by (simp_all add: x power2_eq_square algebra_simps)
qed

lemma welford_inv_step:
  assumes "welford_inv xs s" and "Suc (length xs) < 2 ^ 64"
  shows "welford_inv (xs @ [x]) (iat_step (\<lambda>y. y) x s)"
proof -
  obtain mean m2 where s: "s = (of_nat (length xs), mean, m2)"
    "real (length xs) * mean = sum_list xs"
    "m2 = sum_list (map (\<lambda>x. x\<^sup>2) xs) - real (length xs) * mean\<^sup>2"
    using assms(1) by (cases s) (auto simp: welford_inv_def)
  have "of_nat (length xs) + 1 = (of_nat (Suc (length xs)) :: u64)" by simp
  then have n: "float_u64 (\<lambda>y. y) (of_nat (length xs) + 1) = real (length xs) + 1"
    using assms(2) unat_of_nat [where 'a = 64, of "Suc (length xs)"]
    unfolding float_u64_def by (simp del: of_nat_Suc)
  show ?thesis
    using welford_algebra [of "real (length xs)" mean x] s(2,3)
    by (simp add: welford_inv_def iat_step_def s(1) Let_def n) (simp add: ac_simps)
qed

lemma welford_inv_fold:
  assumes "length xs < 2 ^ 64"
  shows "welford_inv xs (fold (iat_step (\<lambda>y. y)) xs (0, 0, 0))"
  using assms
proof (induction xs rule: rev_induct)
  case Nil
  show ?case by (simp add: welford_inv_def)
next
  case (snoc x xs)
  then show ?case using welford_inv_step by simp
qed

section \<open>Properties of the timing statistics\<close>

text \<open>
  With binary64 rounding at every operation, the squares Welford's update accumulates for
  a flow never become negative, over any packets and timestamps in any order (fewer than
  \<open>2^64\<close> of them).  So the deviation \<open>iatStdDevNS\<close> reports is the rounded root of the rounded
  quotient, never its guard value for a negative variance, and it is not negative.
\<close>

theorem iat_variance_nonneg:
  assumes "length ms < 2 ^ 64"
  defines "fa \<equiv> fold (\<lambda>m. observe fl64 m (snd (canonicalize m))) ms zero_accumulator"
  shows "0 \<le> iatM2 fa \<and> 0 \<le> iatStdDevNS fl64 fa \<and>
         (minIATSamplesForVariance \<le> iatSamples fa \<longrightarrow>
          iatStdDevNS fl64 fa = fl64 (sqrt (fl64 (iatM2 fa / float_u64 fl64 (iatSamples fa)))))"
proof -
  have m2: "0 \<le> iatM2 fa" unfolding fa_def by (rule b64.accumulated_squares [OF assms(1)])
  moreover have "0 \<le> float_u64 fl64 (iatSamples fa)"
    unfolding float_u64_def by (intro b64.r_nonneg of_nat_0_le_iff)
  ultimately have "0 \<le> fl64 (iatM2 fa / float_u64 fl64 (iatSamples fa))"
    by (intro b64.r_nonneg divide_nonneg_nonneg)
  then show ?thesis
    using m2 by (auto simp: iatStdDevNS_def Let_def not_le neutralIATStdDevNS_def intro!: b64.r_nonneg)
qed

theorem iat_variance_nonneg_witness:
  "0 \<le> iatM2 (fold (\<lambda>m. observe fl64 m (snd (canonicalize m))) [example_packet] zero_accumulator) \<and>
   0 \<le> iatStdDevNS fl64
        (fold (\<lambda>m. observe fl64 m (snd (canonicalize m))) [example_packet] zero_accumulator)"
  using iat_variance_nonneg [of "[example_packet]"] by simp

text \<open>
  (C30) In exact arithmetic the one-pass update computes the textbook value: for a flow with at
  least 30 inter-arrival samples \<open>iatStdDevNS\<close> is the square root of their population
  variance, and below that the neutral 5 ms, where the samples are the positive gaps between
  consecutive packets of the flow.
\<close>

theorem iat_stddev_exact:
  assumes "length ms < 2 ^ 64"
  shows "iatStdDevNS (\<lambda>x. x) (fold (\<lambda>m. observe (\<lambda>x. x) m (snd (canonicalize m))) ms zero_accumulator) =
         (let xs = map (\<lambda>g. real (unat g)) (iats 0 ms)
          in if length xs < 30 then 5000000 else sqrt (pop_variance xs))"
proof -
  let ?xs = "map (\<lambda>g. real (unat g)) (iats 0 ms)"
  define fa where "fa = fold (obs (\<lambda>x. x)) ms zero_accumulator"
  have l: "length ?xs < 2 ^ 64" using assms length_iats [of 0 ms] by simp
  have "iat_state fa = fold (iat_step (\<lambda>x. x)) ?xs (0, 0, 0)"
    unfolding fa_def iat_state_fold iat_state_zero zero_fields fold_map float_u64_def ..
  then have "welford_inv ?xs (iat_state fa)" using welford_inv_fold [OF l] by simp
  then have n: "iatSamples fa = of_nat (length ?xs)"
    and mean: "real (length ?xs) * iatMean fa = sum_list ?xs"
    and m2: "iatM2 fa = sum_list (map (\<lambda>x. x\<^sup>2) ?xs) - real (length ?xs) * (iatMean fa)\<^sup>2"
    by (simp_all add: welford_inv_def iat_state_def)
  have un: "unat (iatSamples fa) = length ?xs" using l by (simp add: n unat_of_nat)
  have few: "iatSamples fa < minIATSamplesForVariance \<longleftrightarrow> length ?xs < 30"
    by (simp add: word_less_nat_alt un minIATSamplesForVariance_def)
  have "iatMean fa = mean_of ?xs" if "\<not> length ?xs < 30"
  proof -
    have "real (length ?xs) \<noteq> 0" using that by linarith
    then show ?thesis using mean unfolding mean_of_def by (metis nonzero_mult_div_cancel_left)
  qed
  then have "iatM2 fa / real (length ?xs) = pop_variance ?xs" if "\<not> length ?xs < 30"
    using that sum_squared_deviations [OF mean] by (simp add: m2 pop_variance_def)
  moreover have "0 \<le> pop_variance ?xs"
    unfolding pop_variance_def by (intro divide_nonneg_nonneg sum_list_nonneg) auto
  ultimately show ?thesis
    unfolding fa_def [symmetric]
    by (simp add: iatStdDevNS_def few Let_def float_u64_def un neutralIATStdDevNS_def)
qed

text \<open>Forty packets one millisecond apart.\<close>

definition steady_packets :: "FlowPacketMeta list" where
  "steady_packets = map (\<lambda>i. example_packet\<lparr>TimestampNS := of_nat (i * 1000000)\<rparr>) [1..<41]"

theorem iat_stddev_exact_witness:
  "iatStdDevNS (\<lambda>x. x)
     (fold (\<lambda>m. observe (\<lambda>x. x) m (snd (canonicalize m))) steady_packets zero_accumulator) =
   (let xs = map (\<lambda>g. real (unat g)) (iats 0 steady_packets)
    in if length xs < 30 then 5000000 else sqrt (pop_variance xs))"
  by (rule iat_stddev_exact) (simp add: steady_packets_def)

section \<open>Port counters\<close>

text \<open>
  As long as at most 256 ports are seen, the counters are exact; in any case they add up to
  the number of packets and none of them is zero.
\<close>

abbreviation tracker :: "u16 list \<Rightarrow> portTracker" where
  "tracker ps \<equiv> fold observe_port ps newPortTracker"

definition bucket :: "u16 \<Rightarrow> portTracker \<Rightarrow> u16" where
  "bucket p pt = (if go_get (counts pt) p \<noteq> None \<or> length (counts pt) < maxPortsPerSrcIP
                  then p else overflowPortKey)"

lemma observe_port_alt:
  "observe_port p pt = pt\<lparr>counts := incr_count (bucket p pt) (counts pt), total := total pt + 1\<rparr>"
  by (auto simp: observe_port_def bucket_def incr_count_def Let_def)

definition counts_ok :: "nat \<Rightarrow> portTracker \<Rightarrow> bool" where
  "counts_ok n pt \<longleftrightarrow> go_map_ok (counts pt) \<and> total pt = of_nat n \<and>
     sum_list (map (unat \<circ> snd) (counts pt)) = n \<and> (\<forall>c \<in> snd ` set (counts pt). c \<noteq> 0)"

lemma count_le_total:
  assumes "counts_ok n pt" and "(k, c) \<in> set (counts pt)"
  shows "unat c \<le> n"
  using assms member_le_sum_list [of "unat c" "map (unat \<circ> snd) (counts pt)"]
  by (force simp: counts_ok_def)

lemma go_get_count_le:
  "counts_ok n pt \<Longrightarrow> go_get (counts pt) k = Some c \<Longrightarrow> unat c \<le> n"
  using count_le_total map_of_SomeD by metis

lemma counts_ok_observe:
  assumes ok: "counts_ok n pt" and n: "Suc n < 2 ^ 32"
  shows "counts_ok (Suc n) (observe_port p pt)"
proof -
  let ?k = "bucket p pt" and ?m = "counts pt"
  define c where "c = (case go_get ?m ?k of None \<Rightarrow> 0 | Some c \<Rightarrow> c)"
  have m: "go_map_ok ?m" using ok by (simp add: counts_ok_def)
  have "unat c \<le> n"
    using go_get_count_le [OF ok, of ?k] by (auto simp: c_def split: option.split)
  then have c: "unat (c + 1) = Suc (unat c)" using n by (intro unat_add_one) simp
  then have "c + 1 \<noteq> 0" by auto
  moreover have "sum_list (map (unat \<circ> snd) (incr_count ?k ?m)) = Suc n"
    using ok c go_set_sum_list [OF m, of ?k _ unat "c + 1"]
    by (cases "go_get ?m ?k")
       (auto simp: incr_count_def c_def counts_ok_def go_set_absent_append)
  ultimately show ?thesis
    using ok m go_set_present_elem [OF _ m, of _ _ ?k "c + 1"]
    by (force simp: counts_ok_def observe_port_alt incr_count_def c_def [symmetric])
qed

lemma counts_ok_tracker: "length ps < 2 ^ 32 \<Longrightarrow> counts_ok (length ps) (tracker ps)"
proof (induction ps rule: rev_induct)
  case Nil
  show ?case by (simp add: counts_ok_def newPortTracker_def)
next
  case (snoc p ps)
  then show ?case using counts_ok_observe [of "length ps" "tracker ps" p] by simp
qed

lemma tracker_counts:
  assumes "length ps < 2 ^ 32" and "card (set ps) \<le> 256"
  shows "go_get (counts (tracker ps)) k =
         (if k \<in> set ps then Some (of_nat (count_list ps k)) else None)"
  using assms
proof (induction ps arbitrary: k rule: rev_induct)
  case Nil
  show ?case by (simp add: newPortTracker_def)
next
  case (snoc p ps)
  let ?pt = "tracker ps"
  have le: "card (set ps) \<le> 256"
    using snoc.prems(2) card_mono [of "insert p (set ps)" "set ps"] by fastforce
  note IH = snoc.IH [OF _ le]
  have "k \<in> go_keys (counts ?pt) \<longleftrightarrow> k \<in> set ps" for k
    using snoc.prems(1) IH [of k] go_get_None_iff [of "counts ?pt" k] by (auto split: if_splits)
  then have keys: "go_keys (counts ?pt) = set ps" by blast
  have "go_map_ok (counts ?pt)"
    using counts_ok_tracker [of ps] snoc.prems(1) by (simp add: counts_ok_def)
  then have "length (counts ?pt) = card (set ps)"
    using go_map_ok_card [of "counts ?pt"] keys by simp
  then have "bucket p ?pt = p"
    using snoc.prems IH [of p] by (auto simp: bucket_def maxPortsPerSrcIP_def card_insert_if)
  then have "counts (tracker (ps @ [p])) = incr_count p (counts ?pt)"
    by (simp add: observe_port_alt [of p ?pt])
  then show ?case
    using snoc.prems(1) IH by (auto simp: incr_count_def add.commute simp del: fold_append)
qed

lemma tracker_replicate:
  "tracker (replicate (Suc n) p) = \<lparr>counts = [(p, of_nat (Suc n))], total = of_nat (Suc n)\<rparr>"
proof (induction n)
  case 0
  show ?case
    by (simp add: observe_port_def newPortTracker_def maxPortsPerSrcIP_def)
next
  case (Suc n)
  then show ?case
    by (simp only: fold_replicate funpow.simps comp_apply)
       (simp add: observe_port_def incr_count_def)
qed

section \<open>Entropy\<close>

lemma go_map_sum:
  fixes f :: "'v \<Rightarrow> real"
  assumes "go_map_ok m"
  shows "sum_list (map (f \<circ> snd) m) = (\<Sum>k \<in> go_keys m. f (the (go_get m k)))"
  using assms
proof (induction m)
  case Nil
  show ?case by simp
next
  case (Cons a m)
  obtain k v where a: "a = (k, v)" by (cases a)
  have "k \<notin> go_keys m" using Cons.prems by (auto simp: go_map_ok_def a)
  moreover have "(\<Sum>k' \<in> go_keys m. f (the (go_get (a # m) k'))) = (\<Sum>k' \<in> go_keys m. f (the (go_get m k')))"
    using calculation by (intro sum.cong) (auto simp: a)
  ultimately show ?case using Cons by (simp add: go_map_ok_def a)
qed

context rounding
begin

lemma probability_bounds:
  assumes "0 < k" and "k \<le> n" and "n < 2 ^ 32"
  shows "0 < r (r (real k) / r (real n))" "r (r (real k) / r (real n)) \<le> 1"
proof -
  have i: "r (real k) = real k" "r (real n) = real n"
    using r_of_int [of "int k"] r_of_int [of "int n"] assms by simp_all
  have n: "1 \<le> real k" "real k \<le> real n" "real n \<le> 2 ^ 32"
    using assms by simp_all
  have "of_int 1 / 2 ^ 32 \<le> real k / real n"
    using n by (intro frac_le) auto
  then have "of_int 1 / 2 ^ 32 \<le> r (real k / real n)" by (rule r_ge_dyadic) auto
  then show "0 < r (r (real k) / r (real n))" unfolding i by (rule less_le_trans [rotated]) simp
  have "real k / real n \<le> 1" using n by (simp add: divide_le_eq)
  then show "r (r (real k) / r (real n)) \<le> 1" unfolding i by (rule r_le [OF _ r_1])
qed

lemma entropy_step_mono:
  assumes "c \<noteq> 0" and "unat c \<le> n" and "n < 2 ^ 32" and "0 \<le> h"
  shows "0 \<le> entropy_step r (r (real n)) c h"
proof -
  let ?p = "r (r (real (unat c)) / r (real n))"
  have "0 < unat c" using assms(1) by (simp add: unat_gt_0)
  note p = probability_bounds [OF this assms(2,3)]
  have "r (log 2 ?p) \<le> 0" using p by (intro r_nonpos) simp
  then have "r (?p * r (log 2 ?p)) \<le> 0" using p by (intro r_nonpos mult_nonneg_nonpos) auto
  then show ?thesis
    using assms(1,4) by (auto simp: entropy_step_def Let_def intro!: r_nonneg)
qed

lemma entropy_fold_nonneg:
  assumes "\<forall>c \<in> set cs. c \<noteq> 0 \<and> unat c \<le> n" and "n < 2 ^ 32" and "0 \<le> h"
  shows "0 \<le> fold (entropy_step r (r (real n))) cs h"
  using assms(1,3)
proof (induction cs arbitrary: h)
  case Nil
  then show ?case by simp
next
  case (Cons c cs)
  then have "0 \<le> entropy_step r (r (real n)) c h" by (intro entropy_step_mono assms(2)) auto
  then show ?case using Cons by simp
qed

lemma entropyBits_nonneg:
  assumes "length ps < 2 ^ 32" and "\<And>l. set (ordP l) = set l"
  shows "0 \<le> entropyBits r ordP (tracker ps)"
proof -
  note ok = counts_ok_tracker [OF assms(1)]
  then have n: "unat (total (tracker ps)) = length ps"
    using assms(1) by (simp add: counts_ok_def unat_of_nat)
  have "\<forall>c \<in> set (map snd (ordP (counts (tracker ps)))). c \<noteq> 0 \<and> unat c \<le> length ps"
    using ok count_le_total [OF ok] by (auto simp: counts_ok_def assms(2))
  then show ?thesis
    unfolding entropyBits_def n using assms(1) entropy_fold_nonneg by simp
qed

lemma entropyBits_single_port:
  assumes "Suc n < 2 ^ 32" and "\<And>x. ordP [x] = [x]"
  shows "entropyBits r ordP (tracker (replicate (Suc n) p)) = 0"
proof -
  have n: "unat (of_nat (Suc n) :: u32) = Suc n" using assms(1) by (simp only: unat_of_nat) simp
  then have "of_nat (Suc n) \<noteq> (0 :: u32)" by (metis unat_0 nat.distinct(1))
  moreover have "r (real (Suc n)) \<noteq> 0"
    using assms(1) r_of_int [of "int (Suc n)"] by (simp del: of_nat_Suc flip: of_nat_power)
  ultimately show ?thesis
    unfolding entropyBits_def tracker_replicate portTracker.simps n assms(2) entropy_step_def
    by (simp add: n r_1 r_0 Let_def del: of_nat_Suc)
qed

end

text \<open>The entropy of a sequence of ports, and the exact value of the loop.\<close>

definition freq :: "u16 list \<Rightarrow> u16 \<Rightarrow> real" where
  "freq ps p = real (count_list ps p) / real (length ps)"

definition shannon :: "u16 list \<Rightarrow> real" where
  "shannon ps = (\<Sum>p \<in> set ps. - (freq ps p * log 2 (freq ps p)))"

lemma entropy_fold_exact:
  "fold (entropy_step (\<lambda>x. x) tot) cs h =
     h + sum_list (map (\<lambda>c. - (real (unat c) / tot * log 2 (real (unat c) / tot))) cs)"
  by (induction cs arbitrary: h) (simp_all add: entropy_step_def Let_def)

lemma sum_list_reorder:
  fixes f :: "'a \<Rightarrow> real"
  shows "mset xs = mset ys \<Longrightarrow> sum_list (map f xs) = sum_list (map f ys)"
  by (metis mset_map sum_mset_sum_list)

lemma tracker_keys:
  assumes "length ps < 2 ^ 32" and "card (set ps) \<le> 256"
  shows "go_keys (counts (tracker ps)) = set ps"
  using tracker_counts [OF assms] go_get_None_iff [of "counts (tracker ps)"]
  by (metis (no_types, lifting) option.distinct(1) set_eqI)

lemma count_list_le: "count_list xs x \<le> length xs"
  by (induction xs) auto

lemma entropyBits_exact:
  assumes len: "length ps < 2 ^ 32" and ports: "card (set ps) \<le> 256"
    and ord: "mset (ordP (counts (tracker ps))) = mset (counts (tracker ps))"
  shows "entropyBits (\<lambda>x. x) ordP (tracker ps) = shannon ps"
proof (cases "ps = []")
  case True
  then show ?thesis by (simp add: entropyBits_def newPortTracker_def shannon_def)
next
  case False
  let ?m = "counts (tracker ps)"
  define g where "g = (\<lambda>c :: u32. - (real (unat c) / real (length ps) * log 2 (real (unat c) / real (length ps))))"
  have ok: "counts_ok (length ps) (tracker ps)" using len by (rule counts_ok_tracker)
  have n: "unat (total (tracker ps)) = length ps"
    using ok len by (simp add: counts_ok_def unat_of_nat)
  then have "total (tracker ps) \<noteq> 0" using False by auto
  then have "entropyBits (\<lambda>x. x) ordP (tracker ps) = sum_list (map g (map snd (ordP ?m)))"
    unfolding entropyBits_def n entropy_fold_exact g_def by simp
  also have "\<dots> = sum_list (map (g \<circ> snd) ?m)"
    using sum_list_reorder [OF ord, of "g \<circ> snd"] by simp
  also have "\<dots> = (\<Sum>k \<in> set ps. g (the (go_get ?m k)))"
    using ok by (simp add: go_map_sum counts_ok_def tracker_keys [OF len ports])
  also have "\<dots> = shannon ps"
    unfolding shannon_def
  proof (intro sum.cong refl)
    fix k assume k: "k \<in> set ps"
    have "unat (of_nat (count_list ps k) :: u32) = count_list ps k"
      using len count_list_le [of ps k] by (simp add: unat_of_nat)
    then show "g (the (go_get ?m k)) = - (freq ps k * log 2 (freq ps k))"
      using k tracker_counts [OF len ports, of k] unfolding g_def freq_def by (simp only: if_True option.sel)
  qed
  finally show ?thesis .
qed

lemma sum_freq: "ps \<noteq> [] \<Longrightarrow> (\<Sum>p \<in> set ps. freq ps p) = 1"
  unfolding freq_def sum_divide_distrib [symmetric] of_nat_sum [symmetric]
  by (simp add: sum_count_set)

text \<open>Gibbs' inequality: the entropy is largest for a uniform distribution.\<close>

lemma shannon_le: "ps \<noteq> [] \<Longrightarrow> shannon ps \<le> log 2 (real (card (set ps)))"
proof -
  assume ne: "ps \<noteq> []"
  let ?S = "set ps" let ?n = "real (card ?S)"
  have n: "0 < ?n" using ne by (simp add: card_gt_0_iff)
  have gibbs: "- (freq ps p * ln (freq ps p)) \<le> freq ps p * ln ?n + (1 / ?n - freq ps p)"
    if "p \<in> ?S" for p
  proof -
    have f: "0 < freq ps p"
      using that ne by (simp add: freq_def count_list_0_iff zero_less_iff_neq_zero)
    have "ln (1 / (freq ps p * ?n)) \<le> 1 / (freq ps p * ?n) - 1"
      using f n by (intro ln_le_minus_one) simp
    then have "freq ps p * ln (1 / (freq ps p * ?n)) \<le> freq ps p * (1 / (freq ps p * ?n) - 1)"
      using f by (intro mult_left_mono) auto
    moreover have "ln (1 / (freq ps p * ?n)) = - ln (freq ps p) - ln ?n"
      using f n by (auto simp: ln_div ln_mult)
    moreover have "freq ps p * (1 / (freq ps p * ?n) - 1) = 1 / ?n - freq ps p"
      using f n by (simp add: right_diff_distrib)
    ultimately show ?thesis by (simp add: right_diff_distrib)
  qed
  have "(\<Sum>p \<in> ?S. - (freq ps p * ln (freq ps p))) \<le> (\<Sum>p \<in> ?S. freq ps p * ln ?n + (1 / ?n - freq ps p))"
    by (intro sum_mono gibbs)
  also have "\<dots> = ln ?n"
    using n ne by (simp add: sum.distrib sum_subtractf sum_freq [OF ne] flip: sum_distrib_right)
  finally have "(\<Sum>p \<in> ?S. - (freq ps p * ln (freq ps p))) / ln 2 \<le> ln ?n / ln 2"
    by (intro divide_right_mono) auto
  then show ?thesis
    by (simp add: shannon_def log_def sum_divide_distrib)
qed

section \<open>Properties of the port statistics\<close>

text \<open>
  (C31) The port entropy reported for a source is the Shannon entropy of the destination ports
  it contacted (in exact arithmetic, up to 256 distinct ports, in whatever order the map is
  visited); it lies between zero and the logarithm of the number of ports.
\<close>

theorem port_entropy_exact:
  assumes "ps \<noteq> []" and "length ps < 2 ^ 32" and "card (set ps) \<le> 256"
    and "\<And>l. mset (ordP l) = mset l"
  shows "entropyBits (\<lambda>x. x) ordP (fold observe_port ps newPortTracker) =
           (\<Sum>p \<in> set ps. - (real (count_list ps p) / real (length ps) *
                             log 2 (real (count_list ps p) / real (length ps)))) \<and>
         0 \<le> entropyBits (\<lambda>x. x) ordP (fold observe_port ps newPortTracker) \<and>
         entropyBits (\<lambda>x. x) ordP (fold observe_port ps newPortTracker) \<le>
           log 2 (real (card (set ps)))"
proof -
  have "set (ordP l) = set l" for l using assms(4) by (metis set_mset_mset)
  then have "0 \<le> entropyBits (\<lambda>x. x) ordP (tracker ps)"
    by (intro exact.entropyBits_nonneg assms(2))
  then show ?thesis
    using entropyBits_exact [OF assms(2,3), of ordP, OF assms(4)] shannon_le [OF assms(1)]
    by (simp add: shannon_def freq_def)
qed

theorem port_entropy_exact_witness:
  "entropyBits (\<lambda>x. x) rev (fold observe_port [22, 80, 443, 80] newPortTracker) =
     (\<Sum>p \<in> set [22, 80, 443, 80 :: u16]. - (real (count_list [22, 80, 443, 80] p) / real (length [22, 80, 443, 80 :: u16]) *
        log 2 (real (count_list [22, 80, 443, 80] p) / real (length [22, 80, 443, 80 :: u16])))) \<and>
   0 \<le> entropyBits (\<lambda>x. x) rev (fold observe_port [22, 80, 443, 80] newPortTracker) \<and>
   entropyBits (\<lambda>x. x) rev (fold observe_port [22, 80, 443, 80] newPortTracker) \<le>
     log 2 (real (card (set [22, 80, 443, 80 :: u16])))"
  by (rule port_entropy_exact) (simp_all add: card_insert_if)

text \<open>
  With binary64 arithmetic the reported entropy is never negative, whatever ports were
  contacted and in whatever order the map is visited, and it is exactly zero for a source
  that contacts one port only.
\<close>

theorem port_entropy_float:
  assumes "length ps < 2 ^ 32" and "\<And>l. mset (ordP l) = mset l"
  shows "0 \<le> entropyBits fl64 ordP (fold observe_port ps newPortTracker) \<and>
         ((\<forall>p \<in> set ps. p = q) \<longrightarrow> entropyBits fl64 ordP (fold observe_port ps newPortTracker) = 0)"
proof (intro conjI impI)
  have "set (ordP l) = set l" for l using assms(2) by (metis set_mset_mset)
  then show "0 \<le> entropyBits fl64 ordP (tracker ps)"
    by (intro b64.entropyBits_nonneg assms(1))
  assume "\<forall>p \<in> set ps. p = q"
  then have ps: "ps = replicate (length ps) q" by (simp add: replicate_eqI)
  have one: "ordP [x] = [x]" for x using assms(2) [of "[x]"] by (simp add: mset_single_iff)
  show "entropyBits fl64 ordP (tracker ps) = 0"
  proof (cases "length ps")
    case 0
    then show ?thesis by (simp add: entropyBits_def newPortTracker_def)
  next
    case (Suc n)
    then show ?thesis
      using b64.entropyBits_single_port [of n ordP q, OF _ one] assms(1) ps by metis
  qed
qed

theorem port_entropy_float_witness:
  "0 \<le> entropyBits fl64 rev (fold observe_port [443, 443, 443] newPortTracker) \<and>
   entropyBits fl64 rev (fold observe_port [443, 443, 443] newPortTracker) = 0"
  using port_entropy_float [of "[443, 443, 443]" rev 443] by simp

end
