(* ===== verification/Inference.thy ===== *)
theory Inference
  imports Aggregator
begin

text \<open>
  \<^verbatim>\<open>src/user-space/pkg/inference/trees.go\<close>: the feature projection with its single-direction
  fallback, the three decision trees, the ensemble loop and the verdict.  All arithmetic is
  rounded by \<open>r\<close> after every operation; comparisons are exact.
\<close>

section \<open>Labels and features\<close>

datatype AttackType = AttackNone | AttackSynFlood | AttackPortScan | AttackVolumetricAnomaly

fun AttackType_string :: "AttackType \<Rightarrow> string" where
  "AttackType_string AttackNone = ''BENIGN''"
| "AttackType_string AttackSynFlood = ''SYN_FLOOD''"
| "AttackType_string AttackPortScan = ''PORT_SCAN''"
| "AttackType_string AttackVolumetricAnomaly = ''VOLUMETRIC_ANOMALY''"

definition MalwareThreshold :: "(real \<Rightarrow> real) \<Rightarrow> real" where
  "MalwareThreshold r = r (85 / 100)"

record FeatureVector =
  fv_PacketCount :: real
  fv_ForwardCount :: real
  fv_ReverseCount :: real
  fv_IATStdDevNS :: real
  fv_RatioFlow :: real
  fv_PortEntropyBits :: real

definition singleDirectionRatioFloor :: u64 where [guards]: "singleDirectionRatioFloor = 5"

definition maxU64 :: "u64 \<Rightarrow> u64 \<Rightarrow> u64" where
  "maxU64 a b = (if a > b then a else b)"

definition ToFeatureVector :: "(real \<Rightarrow> real) \<Rightarrow> FlowFeatures \<Rightarrow> FeatureVector" where
  "ToFeatureVector r f =
     (let ratio =
        (if ReverseCount f = 0 \<and> ff_Protocol f = 6 \<and>
            SynCount f + AckPshCount f \<ge> singleDirectionRatioFloor
         then r (float_u64 r (SynCount f) / float_u64 r (maxU64 (AckPshCount f) 1))
         else RatioFlow f)
      in \<lparr>fv_PacketCount = float_u64 r (PacketCount f),
          fv_ForwardCount = float_u64 r (ForwardCount f),
          fv_ReverseCount = float_u64 r (ReverseCount f),
          fv_IATStdDevNS = IATStdDevNS f,
          fv_RatioFlow = ratio,
          fv_PortEntropyBits = PortEntropyBits f\<rparr>)"

record Result =
  Probability :: real
  Attack :: AttackType
  Malicious :: bool

section \<open>The trees\<close>

definition minF :: "real \<Rightarrow> real \<Rightarrow> real" where
  "minF a b = (if a < b then a else b)"

text \<open>\<open>math.Min\<close> on numbers is \<open>min\<close>; \<open>int64(x)\<close> truncates; \<open>float64(n)\<close> rounds.\<close>

type_synonym treeFn = "FeatureVector \<Rightarrow> real"

definition synFloodTree :: "(real \<Rightarrow> real) \<Rightarrow> FeatureVector \<Rightarrow> real" where
  "synFloodTree r f =
     (if fv_PacketCount f < 20 then - 4
      else if fv_IATStdDevNS f \<ge> 2000000 then - 3
      else if fv_RatioFlow f < 8 then - 2
      else let score = r (2 + min (r (fv_RatioFlow f / 50)) 3)
           in r (score +
                 min (r (r (of_int (20000000 - trunc (minF (fv_IATStdDevNS f) 20000000))) / 10000000)) 2))"

definition portScanTree :: "(real \<Rightarrow> real) \<Rightarrow> FeatureVector \<Rightarrow> real" where
  "portScanTree r f =
     (if fv_PortEntropyBits f < 3 then - 4
      else let avgPacketsPerPort =
             (if fv_PortEntropyBits f > 0
              then r (fv_PacketCount f / r (2 powr fv_PortEntropyBits f))
              else fv_PacketCount f)
           in if avgPacketsPerPort > 10 then - 2
              else r (3 / 2 + min (r (fv_PortEntropyBits f / 2)) 3))"

definition volumetricTree :: "(real \<Rightarrow> real) \<Rightarrow> FeatureVector \<Rightarrow> real" where
  "volumetricTree r f =
     (if fv_PacketCount f < 200 then - 3
      else let score = r (- 1 + min (r (fv_PacketCount f / 500)) 4)
           in if fv_IATStdDevNS f < 500000 then r (score + 1) else score)"

section \<open>The ensemble\<close>

definition ensemble :: "(real \<Rightarrow> real) \<Rightarrow> (AttackType \<times> treeFn) list" where
  "ensemble r = [(AttackSynFlood, synFloodTree r), (AttackPortScan, portScanTree r),
                 (AttackVolumetricAnomaly, volumetricTree r)]"

definition sigmoid :: "(real \<Rightarrow> real) \<Rightarrow> real \<Rightarrow> real" where
  "sigmoid r x = r (1 / r (1 + r (exp (- x))))"

text \<open>One round of the loop; \<open>None\<close> is the initial \<open>bestScore\<close>, negative infinity.\<close>

definition classify_step ::
    "(real \<Rightarrow> real) \<Rightarrow> FeatureVector \<Rightarrow> AttackType \<times> (FeatureVector \<Rightarrow> real) \<Rightarrow>
     real \<times> real option \<times> AttackType \<Rightarrow> real \<times> real option \<times> AttackType" where
  "classify_step r fv = (\<lambda>(attack, fn) (tot, bestScore, bestAttack).
     let score = fn fv; tot = r (tot + score)
     in if (case bestScore of None \<Rightarrow> True | Some b \<Rightarrow> score > b)
        then (tot, Some score, attack) else (tot, bestScore, bestAttack))"

definition Classify :: "(real \<Rightarrow> real) \<Rightarrow> FlowFeatures \<Rightarrow> Result" where
  "Classify r f =
     (case fold (classify_step r (ToFeatureVector r f)) (ensemble r) (0, None, AttackNone) of
        (tot, bestScore, bestAttack) \<Rightarrow>
          let prob = sigmoid r tot
          in \<lparr>Probability = prob,
              Attack = (if prob > MalwareThreshold r then bestAttack else AttackNone),
              Malicious = prob > MalwareThreshold r\<rparr>)"

section \<open>Bounds in every rounding\<close>

context rounding
begin

lemma min_dyadic: "r b = b \<Longrightarrow> r (min (r a) b) = min (r a) b"
  by (simp add: min_def r_idem)

lemmas round_consts = r_numeral [simplified] r_neg_numeral [simplified] r_0 r_1

lemma half_consts: "r (3 / 2) = 3 / 2" "r (9 / 2) = 9 / 2"
  using r_dyadic [of 3 1] r_dyadic [of 9 1] by simp_all

lemma portScanTree_le: "portScanTree r f \<le> 9 / 2"
proof -
  have "r (3 / 2 + min (r (fv_PortEntropyBits f / 2)) 3) \<le> 9 / 2"
    by (rule r_le [OF _ half_consts(2)]) simp
  then show ?thesis by (simp add: portScanTree_def Let_def)
qed

lemma portScanTree_ge: "- 4 \<le> portScanTree r f"
proof -
  have "0 \<le> r (3 / 2 + min (r (fv_PortEntropyBits f / 2)) 3)" if "3 \<le> fv_PortEntropyBits f"
  proof -
    have "0 \<le> r (fv_PortEntropyBits f / 2)" using that by (intro r_nonneg) simp
    then show ?thesis by (intro r_nonneg) simp
  qed
  then show ?thesis by (fastforce simp: portScanTree_def Let_def)
qed

lemma volumetricTree_le: "volumetricTree r f \<le> 4"
proof -
  have base: "r (- 1 + min (r (fv_PacketCount f / 500)) 4) \<le> 3"
    by (rule r_le) (simp_all add: round_consts)
  then have "r (r (- 1 + min (r (fv_PacketCount f / 500)) 4) + 1) \<le> 4"
    by (intro r_le) (simp_all add: round_consts)
  with base show ?thesis by (simp add: volumetricTree_def Let_def)
qed

lemma volumetricTree_ge:
  assumes "500 \<le> fv_PacketCount f" and "fv_IATStdDevNS f < 500000"
  shows "1 \<le> volumetricTree r f"
proof -
  have "1 \<le> r (fv_PacketCount f / 500)" using assms(1) by (intro r_ge) (simp_all add: round_consts)
  then have "0 \<le> r (- 1 + min (r (fv_PacketCount f / 500)) 4)" by (intro r_nonneg) simp
  then have "1 \<le> r (r (- 1 + min (r (fv_PacketCount f / 500)) 4) + 1)"
    by (intro r_ge) (simp_all add: round_consts)
  then show ?thesis using assms by (simp add: volumetricTree_def Let_def)
qed

lemma synFloodTree_le: "synFloodTree r f \<le> 7"
proof -
  have base: "r (2 + min (r (fv_RatioFlow f / 50)) 3) \<le> 5"
    by (rule r_le) (simp_all add: round_consts)
  have "r (r (2 + min (r (fv_RatioFlow f / 50)) 3) + min x 2) \<le> 7" for x
    by (rule r_le) (use base in \<open>simp_all add: round_consts min_def\<close>)
  then show ?thesis by (simp add: synFloodTree_def Let_def)
qed

lemma synFloodTree_ge:
  assumes "20 \<le> fv_PacketCount f" and "100 \<le> fv_RatioFlow f"
    and "0 \<le> fv_IATStdDevNS f" and "fv_IATStdDevNS f < 500000"
  shows "95 / 16 \<le> synFloodTree r f"
proof -
  let ?n = "20000000 - \<lfloor>fv_IATStdDevNS f\<rfloor>"
  have "2 \<le> r (fv_RatioFlow f / 50)" using assms(2) by (intro r_ge) (simp_all add: round_consts)
  then have a: "4 \<le> r (2 + min (r (fv_RatioFlow f / 50)) 3)"
    by (intro r_ge) (simp_all add: round_consts)
  have n: "19500000 \<le> ?n" "?n \<le> 20000000" using assms(3,4) by linarith+
  then have "\<bar>?n\<bar> \<le> 20000000" by linarith
  also have "\<dots> \<le> 2 ^ 53" by simp
  finally have "r (of_int ?n) = of_int ?n" by (rule r_of_int)
  moreover have "of_int 31 / 2 ^ 4 \<le> r (of_int ?n / 10000000)"
  proof (rule r_ge_dyadic)
    have "(19500000 :: real) \<le> of_int ?n" using n(1) by (metis of_int_le_iff of_int_numeral)
    then show "of_int 31 / 2 ^ 4 \<le> of_int ?n / (10000000 :: real)" by (simp add: le_divide_eq)
  qed simp_all
  ultimately have b: "31 / 16 \<le> min (r (r (of_int ?n) / 10000000)) 2" by simp
  have "of_int 95 / 2 ^ 4 \<le> r (r (2 + min (r (fv_RatioFlow f / 50)) 3) + min (r (r (of_int ?n) / 10000000)) 2)"
    by (rule r_ge_dyadic) (use add_mono [OF a b] in simp_all)
  then show ?thesis
    using assms by (simp add: synFloodTree_def Let_def minF_def trunc_def)
qed

section \<open>The decision boundary\<close>

lemma sigmoid_low:
  assumes "x \<le> 3 / 2"
  shows "sigmoid r x < MalwareThreshold r"
proof -
  have "exp (3 / 2 :: real) = exp (1 / 8) ^ 12" by (simp flip: exp_of_nat_mult)
  also have "\<dots> \<le> (73 / 64) ^ 12"
    using exp_bound [of "1 / 8"] by (intro power_mono) (simp_all add: power2_eq_square)
  also have "\<dots> \<le> (64 / 13 :: real)" by (simp add: field_simps)
  finally have "1 / (64 / 13) \<le> 1 / exp (3 / 2 :: real)" by (intro divide_left_mono) simp_all
  also have "\<dots> \<le> exp (- x)" using assms by (simp add: exp_minus' [symmetric])
  finally have "of_int 13 / 2 ^ 6 \<le> r (exp (- x))" by (intro r_ge_dyadic) simp_all
  then have "of_int 77 / 2 ^ 6 \<le> r (1 + r (exp (- x)))" by (intro r_ge_dyadic) simp_all
  then have "1 / r (1 + r (exp (- x))) \<le> 1 / (77 / 64)" by (intro divide_left_mono) simp_all
  also have "\<dots> \<le> of_int 27 / 2 ^ 5" by simp
  finally have "sigmoid r x \<le> of_int 27 / 2 ^ 5" unfolding sigmoid_def by (rule r_le_dyadic) simp_all
  also have "\<dots> < of_int 435 / (2 ^ 9 :: real)" by simp
  also have "\<dots> \<le> MalwareThreshold r" unfolding MalwareThreshold_def by (rule r_ge_dyadic) simp_all
  finally show ?thesis .
qed

lemma sigmoid_high:
  assumes "2 \<le> x"
  shows "MalwareThreshold r < sigmoid r x"
proof -
  have "(5 / 2 :: real) ^ 2 \<le> exp 1 ^ 2"
    using exp_lower_Taylor_quadratic [of 1] by (intro power_mono) simp_all
  also have "\<dots> = exp 2" by (simp flip: exp_of_nat_mult)
  also have "\<dots> \<le> exp x" using assms by simp
  finally have "1 / exp x \<le> 1 / (25 / 4)" by (intro divide_left_mono) (simp_all add: power2_eq_square)
  also have "\<dots> \<le> of_int 41 / 2 ^ 8" by simp
  finally have "exp (- x) \<le> of_int 41 / 2 ^ 8" by (simp only: exp_minus inverse_eq_divide)
  then have "r (exp (- x)) \<le> of_int 41 / 2 ^ 8" by (rule r_le_dyadic) simp_all
  then have "r (1 + r (exp (- x))) \<le> of_int 297 / 2 ^ 8" by (intro r_le_dyadic) simp_all
  moreover have "1 \<le> r (1 + r (exp (- x)))"
    using r_nonneg [of "exp (- x)"] by (intro r_ge r_1) simp_all
  ultimately have "1 / (297 / 256) \<le> 1 / r (1 + r (exp (- x)))"
    by (intro divide_left_mono) simp_all
  moreover have "of_int 220 / 2 ^ 8 \<le> 1 / (297 / 256 :: real)" by simp
  ultimately have "of_int 220 / 2 ^ 8 \<le> sigmoid r x"
    unfolding sigmoid_def by (intro r_ge_dyadic) (linarith | simp)+
  moreover have "MalwareThreshold r \<le> of_int 436 / 2 ^ 9"
    unfolding MalwareThreshold_def by (rule r_le_dyadic) simp_all
  ultimately show ?thesis by simp
qed

end

end
