(* ===== verification/Verdicts.thy ===== *)
theory Verdicts
  imports Inference FlowStats
begin

text \<open>
  Lemmas and properties of the classifier: the loop over the ensemble as a sum and a maximum,
  the verdict against the threshold, which flows can never be flagged and which always are.
\<close>

section \<open>The ensemble loop\<close>

definition total_score :: "(real \<Rightarrow> real) \<Rightarrow> FeatureVector \<Rightarrow> real" where
  "total_score r fv =
     r (r (r (synFloodTree r fv) + portScanTree r fv) + volumetricTree r fv)"

definition best_label :: "(real \<Rightarrow> real) \<Rightarrow> FeatureVector \<Rightarrow> AttackType" where
  "best_label r fv =
     (if portScanTree r fv \<le> synFloodTree r fv \<and> volumetricTree r fv \<le> synFloodTree r fv
      then AttackSynFlood
      else if volumetricTree r fv \<le> portScanTree r fv \<and> synFloodTree r fv < portScanTree r fv
      then AttackPortScan
      else AttackVolumetricAnomaly)"

lemma Classify_alt:
  "Classify r f =
     (let fv = ToFeatureVector r f; prob = sigmoid r (total_score r fv)
      in \<lparr>Probability = prob,
          Attack = (if prob > MalwareThreshold r then best_label r fv else AttackNone),
          Malicious = prob > MalwareThreshold r\<rparr>)"
  by (auto simp: Classify_def ensemble_def classify_step_def total_score_def best_label_def Let_def)

lemma best_label_max:
  "\<exists>fn. (best_label r fv, fn) \<in> set (ensemble r) \<and>
        (\<forall>(a, g) \<in> set (ensemble r). g fv \<le> fn fv)"
  by (auto simp: best_label_def ensemble_def)

lemma best_label_not_None: "best_label r fv \<noteq> AttackNone"
  by (simp add: best_label_def)

context rounding
begin

lemma total_score_le:
  assumes "synFloodTree r fv \<le> of_int a / 2" and "portScanTree r fv \<le> of_int b / 2"
    and "volumetricTree r fv \<le> of_int c / 2"
    and "\<bar>a\<bar> \<le> 100" "\<bar>b\<bar> \<le> 100" "\<bar>c\<bar> \<le> 100"
  shows "total_score r fv \<le> of_int (a + b + c) / 2"
proof -
  have half: "r (of_int k / 2) = of_int k / 2" if "\<bar>k\<bar> \<le> 300" for k
    using r_dyadic [of k 1] that by simp
  have "r (synFloodTree r fv) \<le> of_int a / 2" using assms(1,4) by (intro r_le half) auto
  then have "r (r (synFloodTree r fv) + portScanTree r fv) \<le> of_int (a + b) / 2"
    using assms(2,4,5) by (intro r_le half) auto
  then show ?thesis
    unfolding total_score_def using assms(3-6) by (intro r_le half) auto
qed

lemma total_score_ge:
  assumes "of_int a / 2 \<le> synFloodTree r fv" and "of_int b / 2 \<le> portScanTree r fv"
    and "of_int c / 2 \<le> volumetricTree r fv"
    and "\<bar>a\<bar> \<le> 100" "\<bar>b\<bar> \<le> 100" "\<bar>c\<bar> \<le> 100"
  shows "of_int (a + b + c) / 2 \<le> total_score r fv"
proof -
  have half: "r (of_int k / 2) = of_int k / 2" if "\<bar>k\<bar> \<le> 300" for k
    using r_dyadic [of k 1] that by simp
  have "of_int a / 2 \<le> r (synFloodTree r fv)" using assms(1,4) by (intro r_ge half) auto
  then have "of_int (a + b) / 2 \<le> r (r (synFloodTree r fv) + portScanTree r fv)"
    using assms(2,4,5) by (intro r_ge half) auto
  then show ?thesis
    unfolding total_score_def using assms(3-6) by (intro r_ge half) auto
qed

lemma sigmoid_range: "0 \<le> sigmoid r x \<and> sigmoid r x \<le> 1"
proof -
  have "0 \<le> r (exp (- x))" by (intro r_nonneg) simp
  then have "1 \<le> r (1 + r (exp (- x)))" by (intro r_ge r_1) simp
  then show ?thesis
    unfolding sigmoid_def by (intro conjI r_nonneg r_le r_1) simp_all
qed

lemma benign_total:
  "total_score r (ToFeatureVector r f) \<le> 3 / 2 \<Longrightarrow>
   \<not> Malicious (Classify r f) \<and> Attack (Classify r f) = AttackNone"
  using sigmoid_low by (fastforce simp: Classify_alt Let_def)

lemma malicious_total:
  "2 \<le> total_score r (ToFeatureVector r f) \<Longrightarrow>
   Malicious (Classify r f) \<and> Attack (Classify r f) = best_label r (ToFeatureVector r f)"
  using sigmoid_high by (fastforce simp: Classify_alt Let_def)

text \<open>When the SYN tree does not fire, the port tree alone cannot reach the threshold.\<close>

lemma quiet_total:
  assumes "fv_PacketCount fv < 200"
    and "fv_PacketCount fv < 20 \<or> 2000000 \<le> fv_IATStdDevNS fv \<or> fv_RatioFlow fv < 8"
  shows "total_score r fv \<le> 3 / 2"
proof -
  have "total_score r fv \<le> of_int (- 4 + 9 + - 6) / 2"
    using assms portScanTree_le [of fv]
    by (intro total_score_le) (auto simp: synFloodTree_def volumetricTree_def)
  then show ?thesis by simp
qed

lemma flood_total:
  assumes "500 \<le> fv_PacketCount fv" and "100 \<le> fv_RatioFlow fv"
    and "0 \<le> fv_IATStdDevNS fv" and "fv_IATStdDevNS fv < 500000"
  shows "2 \<le> total_score r fv" "best_label r fv = AttackSynFlood"
proof -
  have syn: "95 / 16 \<le> synFloodTree r fv" using assms by (intro synFloodTree_ge) auto
  have "of_int (11 + - 8 + 2) / 2 \<le> total_score r fv"
    using syn portScanTree_ge [of fv] volumetricTree_ge [OF assms(1,4)]
    by (intro total_score_ge) auto
  then show "2 \<le> total_score r fv" by simp
  show "best_label r fv = AttackSynFlood"
    using syn portScanTree_le [of fv] volumetricTree_le [of fv] by (simp add: best_label_def)
qed

lemma float_u64_ge: "k \<le> unat x \<Longrightarrow> k \<le> 2 ^ 53 \<Longrightarrow> real k \<le> float_u64 r x"
  unfolding float_u64_def by (rule r_of_nat_ge)

lemma r_of_nat: "k \<le> 2 ^ 53 \<Longrightarrow> r (real k) = real k"
  using r_of_int [of "int k"] by (simp flip: of_nat_power)

lemma float_u64_exact: "unat x \<le> 2 ^ 53 \<Longrightarrow> float_u64 r x = real (unat x)"
  unfolding float_u64_def by (rule r_of_nat)

lemma float_u64_less: "unat x < k \<Longrightarrow> k \<le> 2 ^ 53 \<Longrightarrow> float_u64 r x < real k"
  using float_u64_exact [of x] of_nat_less_iff [of "unat x" k, where 'a = real] by linarith

end

text \<open>A window of 500 SYN packets to one port, and a scan probe of one packet.\<close>

definition flood_features :: FlowFeatures where
  "flood_features =
     \<lparr>ff_SrcIP = u32ToIP 1, ff_DstIP = u32ToIP 2, ff_SrcPort = 3, ff_DstPort = 80, ff_Protocol = 6,
      PacketCount = 500, ForwardCount = 500, ReverseCount = 0, SynCount = 500, AckPshCount = 0,
      IATStdDevNS = 0, RatioFlow = 500, PortEntropyBits = 0, WindowStart = 0, WindowEnd = 1\<rparr>"

definition probe_features :: FlowFeatures where
  "probe_features = flood_features\<lparr>PacketCount := 1, ForwardCount := 1, SynCount := 1,
     RatioFlow := 1, PortEntropyBits := 8\<rparr>"

lemma flood_features_ratio: "fv_RatioFlow (ToFeatureVector fl64 flood_features) = 500"
proof -
  have "float_u64 fl64 500 = 500" "float_u64 fl64 1 = 1"
    using b64.float_u64_exact [of 500] b64.float_u64_exact [of 1] by simp_all
  then show ?thesis
    using b64.r_of_nat [of 500]
    by (simp add: ToFeatureVector_def flood_features_def maxU64_def singleDirectionRatioFloor_def)
qed

lemma flood_features_flagged: "Malicious (Classify fl64 flood_features)"
proof -
  have "float_u64 fl64 500 = 500" using b64.float_u64_exact [of 500] by simp
  then have "2 \<le> total_score fl64 (ToFeatureVector fl64 flood_features)"
    using flood_features_ratio
    by (intro b64.flood_total(1)) (simp_all add: ToFeatureVector_def flood_features_def Let_def)
  then show ?thesis using b64.malicious_total by blast
qed

section \<open>Properties\<close>

text \<open>
  The verdict is consistent: the probability is between 0 and 1; a flow is malicious
  exactly when its probability exceeds the threshold and exactly when it gets a label other
  than BENIGN; and that label belongs to a tree no other tree of the ensemble outscores.
\<close>

theorem verdict_consistent:
  fixes f :: FlowFeatures
  defines "res \<equiv> Classify fl64 f"
  shows "0 \<le> Probability res \<and> Probability res \<le> 1 \<and>
         (Malicious res \<longleftrightarrow> Probability res > MalwareThreshold fl64) \<and>
         (Malicious res \<longleftrightarrow> Attack res \<noteq> AttackNone) \<and>
         (Malicious res \<longrightarrow>
            (\<exists>fn. (Attack res, fn) \<in> set (ensemble fl64) \<and>
                  (\<forall>(a, g) \<in> set (ensemble fl64).
                     g (ToFeatureVector fl64 f) \<le> fn (ToFeatureVector fl64 f))))"
  using b64.sigmoid_range best_label_max best_label_not_None
  by (auto simp: res_def Classify_alt Let_def)

theorem verdict_consistent_witness:
  "0 \<le> Probability (Classify fl64 flood_features) \<and>
   Probability (Classify fl64 flood_features) \<le> 1 \<and>
   Probability (Classify fl64 flood_features) > MalwareThreshold fl64 \<and>
   Attack (Classify fl64 flood_features) \<noteq> AttackNone \<and>
   (\<exists>fn. (Attack (Classify fl64 flood_features), fn) \<in> set (ensemble fl64))"
  using verdict_consistent [of flood_features] flood_features_flagged by auto

text \<open>
  (C29) A flow of fewer than 200 packets in its window is never flagged unless the SYN-flood
  tree fires on it (at least 20 packets, jitter below 2 ms and a ratio of at least 8).  In
  particular port entropy alone never produces an alert for such a flow, and a flow of
  fewer than 20 packets is never flagged at all.
\<close>

theorem quiet_flow_benign:
  assumes "PacketCount f < 200"
    and "PacketCount f < 20 \<or> 2000000 \<le> IATStdDevNS f \<or>
         fv_RatioFlow (ToFeatureVector fl64 f) < 8"
  shows "\<not> Malicious (Classify fl64 f) \<and> Attack (Classify fl64 f) = AttackNone"
proof -
  have "fv_PacketCount (ToFeatureVector fl64 f) = float_u64 fl64 (PacketCount f)"
    "fv_IATStdDevNS (ToFeatureVector fl64 f) = IATStdDevNS f"
    by (simp_all add: ToFeatureVector_def Let_def)
  moreover have "float_u64 fl64 (PacketCount f) < 200"
    using assms(1) b64.float_u64_less [of "PacketCount f" 200] by (simp add: word_less_nat_alt)
  moreover have "PacketCount f < 20 \<Longrightarrow> float_u64 fl64 (PacketCount f) < 20"
    using b64.float_u64_less [of "PacketCount f" 20] by (simp add: word_less_nat_alt)
  ultimately have "total_score fl64 (ToFeatureVector fl64 f) \<le> 3 / 2"
    using assms(2) by (intro b64.quiet_total) auto
  then show ?thesis by (rule b64.benign_total)
qed

theorem quiet_flow_benign_witness:
  "\<not> Malicious (Classify fl64 probe_features) \<and> Attack (Classify fl64 probe_features) = AttackNone"
  by (rule quiet_flow_benign) (simp_all add: probe_features_def)

text \<open>
  Detection: a flow of at least 500 packets in its window whose ratio (as the classifier
  sees it) is at least 100 and whose jitter is below half a millisecond is always flagged,
  and labelled a SYN flood, whatever its port entropy.
\<close>

theorem flood_detected:
  assumes "500 \<le> PacketCount f" and "100 \<le> fv_RatioFlow (ToFeatureVector fl64 f)"
    and "0 \<le> IATStdDevNS f" and "IATStdDevNS f < 500000"
  shows "Malicious (Classify fl64 f) \<and> Attack (Classify fl64 f) = AttackSynFlood"
proof -
  have pc: "fv_PacketCount (ToFeatureVector fl64 f) = float_u64 fl64 (PacketCount f)"
    and iat: "fv_IATStdDevNS (ToFeatureVector fl64 f) = IATStdDevNS f"
    by (simp_all add: ToFeatureVector_def Let_def)
  have "500 \<le> unat (PacketCount f)" using assms(1) by (simp add: word_le_nat_alt)
  then have "500 \<le> fv_PacketCount (ToFeatureVector fl64 f)"
    unfolding pc using b64.float_u64_ge [of 500 "PacketCount f"] by simp
  then show ?thesis
    using b64.flood_total [of "ToFeatureVector fl64 f"] assms b64.malicious_total [of f] iat by simp
qed

theorem flood_detected_witness:
  "Malicious (Classify fl64 flood_features) \<and> Attack (Classify fl64 flood_features) = AttackSynFlood"
  by (rule flood_detected) (simp_all add: flood_features_ratio, simp_all add: flood_features_def)

end
