(* ===== verification/Detection.thy ===== *)
theory Detection
  imports Verdicts
begin

text \<open>
  From packets to verdicts: what the classifier says about the feature vectors \<open>flush\<close> sends for
  a window of packets.  A bound on the inter-arrival deviation under rounding, the counters of
  one-way flows, and two properties: a one-way SYN flood is flagged when its source has the
  lower address, and nothing a source with the higher address sends to one port ever is.
\<close>

section \<open>Bounded gaps give a bounded deviation\<close>

context rounding
begin

lemma r_abs_le: "\<bar>x\<bar> \<le> y \<Longrightarrow> r y = y \<Longrightarrow> \<bar>r x\<bar> \<le> y"
  using r_le [of x y] r_ge [of "- y" x] by (simp add: abs_le_iff r_minus)

text \<open>The state after \<open>n\<close> samples of at most \<open>D\<close>.\<close>

definition iat_le :: "nat \<Rightarrow> nat \<Rightarrow> iat_state \<Rightarrow> bool" where
  "iat_le D n = (\<lambda>(k, mean, m2). k = of_nat n \<and> r mean = mean \<and> 0 \<le> mean \<and> mean \<le> real D \<and>
     (n = 0 \<longrightarrow> mean = 0) \<and> m2 \<le> real (n * D\<^sup>2))"

lemma mean_in_range:
  assumes x: "r x = x" "0 \<le> x" "x \<le> real D" and mu: "r mu = mu" "0 \<le> mu" "mu \<le> real D"
    and d: "2 \<le> d \<or> d = 1 \<and> mu = 0"
  shows "0 \<le> r (mu + r (r (x - mu) / d)) \<and> r (mu + r (r (x - mu) / d)) \<le> real D"
  using d
proof (elim disjE conjE)
  assume "d = 1" "mu = 0"
  then show ?thesis using x by simp
next
  assume d: "2 \<le> d"
  show ?thesis
    using mean_between [OF x(1) mu(1) d] mean_between' [OF x(1) mu(1) d] x mu
    by (cases "mu \<le> x") auto
qed

lemma iat_le_step:
  assumes s: "iat_le D n s" and n: "Suc n < 2 ^ 64" "Suc n * D\<^sup>2 \<le> 2 ^ 53" "D \<le> 2 ^ 53"
    and x: "r x = x" "0 \<le> x" "x \<le> real D"
  shows "iat_le D (Suc n) (iat_step r x s)"
proof -
  obtain mean m2 where s: "s = (of_nat n, mean, m2)" "r mean = mean" "0 \<le> mean" "mean \<le> real D"
    "n = 0 \<longrightarrow> mean = 0" "m2 \<le> real (n * D\<^sup>2)"
    using assms(1) by (cases s) (auto simp: iat_le_def)
  let ?d = "float_u64 r (of_nat n + 1)"
  let ?mean = "r (mean + r (r (x - mean) / ?d))"
  let ?sq = "r (r (x - mean) * r (x - ?mean))"
  have "2 \<le> ?d \<or> ?d = 1 \<and> mean = 0" using count_divisor [OF n(1)] s(5) by blast
  from mean_in_range [OF x s(2-4) this] have mean': "0 \<le> ?mean" "?mean \<le> real D" by auto
  have D: "r (real D) = real D" using n(3) by (rule r_of_nat)
  have "\<bar>r (x - mean)\<bar> \<le> real D" "\<bar>r (x - ?mean)\<bar> \<le> real D"
    using x s(3,4) mean' by (intro r_abs_le D; linarith)+
  then have "\<bar>r (x - mean) * r (x - ?mean)\<bar> \<le> real D * real D"
    unfolding abs_mult by (intro mult_mono) auto
  then have "r (x - mean) * r (x - ?mean) \<le> real (D\<^sup>2)" by (simp add: power2_eq_square abs_le_iff)
  moreover have "D\<^sup>2 \<le> 2 ^ 53" using n(2) by simp
  ultimately have "?sq \<le> real (D\<^sup>2)" by (intro r_le r_of_nat)
  then have "m2 + ?sq \<le> real (Suc n * D\<^sup>2)" using s(6) by (simp add: algebra_simps)
  then have "r (m2 + ?sq) \<le> real (Suc n * D\<^sup>2)" using n(2) by (intro r_le r_of_nat)
  then show ?thesis
    using mean' by (simp add: iat_le_def iat_step_def s(1) Let_def r_idem)
qed

lemma iat_le_fold:
  assumes "iat_le D n s" and "n + length xs < 2 ^ 64" and "(n + length xs) * D\<^sup>2 \<le> 2 ^ 53"
    and "D \<le> 2 ^ 53" and "\<forall>x \<in> set xs. r x = x \<and> 0 \<le> x \<and> x \<le> real D"
  shows "iat_le D (n + length xs) (fold (iat_step r) xs s)"
  using assms
proof (induction xs arbitrary: n s)
  case Nil
  then show ?case by simp
next
  case (Cons x xs)
  have "Suc n * D\<^sup>2 \<le> (n + length (x # xs)) * D\<^sup>2" by (intro mult_le_mono1) simp
  then have "Suc n * D\<^sup>2 \<le> 2 ^ 53" using Cons.prems(3) by (rule order.trans)
  then have "iat_le D (Suc n) (iat_step r x s)"
    using Cons.prems by (intro iat_le_step [of D n s x]) (simp_all del: mult_Suc)
  then show ?case using Cons.IH [of "Suc n"] Cons.prems by simp
qed

lemma iatStdDevNS_le:
  assumes "length ms * D\<^sup>2 \<le> 2 ^ 53" and "length ms \<le> 2 ^ 53" and "D \<le> 2 ^ 53"
    and "30 \<le> length (iats 0 ms)" and "\<forall>g \<in> set (iats 0 ms). unat g \<le> D"
  shows "0 \<le> iatStdDevNS r (fold (obs r) ms zero_accumulator)"
    and "iatStdDevNS r (fold (obs r) ms zero_accumulator) \<le> real D"
proof -
  let ?xs = "map (float_u64 r) (iats 0 ms)" and ?fa = "fold (obs r) ms zero_accumulator"
  let ?n = "length ?xs"
  have n: "?n \<le> length ms" "?n \<le> 2 ^ 53" using length_iats [of 0 ms] assms(2) by simp_all
  then have n64: "?n < 2 ^ 64" by (rule_tac order.strict_trans1 [of _ "2 ^ 53"]) simp_all
  have sq: "?n * D\<^sup>2 \<le> 2 ^ 53" using mult_le_mono1 [OF n(1)] assms(1) by (rule order.trans)
  have "r x = x \<and> 0 \<le> x \<and> x \<le> real D" if mem: "x \<in> set ?xs" for x
  proof -
    obtain g where g: "g \<in> set (iats 0 ms)" "x = float_u64 r g" using mem by auto
    then have "unat g \<le> D" using assms(5) by blast
    then have "r (real (unat g)) \<le> real D" using assms(3) by (intro r_le r_of_nat of_nat_mono)
    then show ?thesis
      unfolding g(2) float_u64_def using r_nonneg [OF of_nat_0_le_iff, of "unat g"] by (simp only: r_idem)
  qed
  then have "iat_le D (0 + ?n) (fold (iat_step r) ?xs (0, 0, 0))"
    using n64 sq assms(3) by (intro iat_le_fold) (auto simp: iat_le_def r_0)
  then have "iat_le D ?n (iat_state ?fa)"
    using iat_state_fold [of r ms zero_accumulator] by (simp add: iat_state_zero fold_map)
  then have k: "iatSamples ?fa = of_nat ?n" and m2: "iatM2 ?fa \<le> real (?n * D\<^sup>2)"
    by (auto simp: iat_le_def iat_state_def)
  have "unat (iatSamples ?fa) = ?n" using n64 by (simp add: k unat_of_nat)
  then have fl: "float_u64 r (iatSamples ?fa) = real ?n" using n(2) by (simp add: float_u64_def r_of_nat)
  have "\<not> iatSamples ?fa < minIATSamplesForVariance"
    using assms(4) \<open>unat (iatSamples ?fa) = ?n\<close> by (simp add: word_less_nat_alt minIATSamplesForVariance_def)
  then have std: "iatStdDevNS r ?fa =
      (let v = r (iatM2 ?fa / real ?n) in if v < 0 then 0 else r (sqrt v))"
    by (simp add: iatStdDevNS_def fl)
  show "0 \<le> iatStdDevNS r ?fa" unfolding std by (simp add: Let_def not_less r_nonneg)
  have "iatM2 ?fa / real ?n \<le> real (D\<^sup>2)"
    using m2 assms(4) by (simp add: divide_le_eq mult.commute)
  moreover have "D\<^sup>2 \<le> 2 ^ 53" using sq assms(4) by (cases "?n") auto
  ultimately have "r (iatM2 ?fa / real ?n) \<le> real (D\<^sup>2)" by (intro r_le r_of_nat)
  then have "sqrt (r (iatM2 ?fa / real ?n)) \<le> real D" by (intro real_le_lsqrt) simp_all
  then have "r (sqrt (r (iatM2 ?fa / real ?n))) \<le> real D" using assms(3) by (intro r_le r_of_nat)
  then show "iatStdDevNS r ?fa \<le> real D" unfolding std by (simp add: Let_def)
qed

end

section \<open>One-way flows\<close>

text \<open>A TCP packet with SYN and neither ACK nor PSH.\<close>

definition is_syn :: "FlowPacketMeta \<Rightarrow> bool" where
  "is_syn m \<longleftrightarrow> Protocol m = protocolTCP \<and> TCPFlags m AND tcpFlagSYN \<noteq> 0 \<and>
     TCPFlags m AND (tcpFlagACK OR tcpFlagPSH) = 0"

lemma observe_syn:
  "is_syn m \<Longrightarrow> synCount (observe r m b fa) = synCount fa + 1 \<and>
     ackPshCount (observe r m b fa) = ackPshCount fa"
  by (simp add: observe_defs is_syn_def)

lemma fold_forward:
  assumes "\<forall>m \<in> set ms. snd (canonicalize m)"
  shows "forwardCount (fold (obs r) ms fa) = forwardCount fa + of_nat (length ms)"
    and "reverseCount (fold (obs r) ms fa) = reverseCount fa"
  using assms by (induction ms arbitrary: fa) (simp_all add: observe_counters)

lemma fold_reverse:
  assumes "\<forall>m \<in> set ms. \<not> snd (canonicalize m)"
  shows "reverseCount (fold (obs r) ms fa) = reverseCount fa + of_nat (length ms)"
    and "forwardCount (fold (obs r) ms fa) = forwardCount fa"
  using assms by (induction ms arbitrary: fa) (simp_all add: observe_counters)

lemma fold_syn:
  assumes "\<forall>m \<in> set ms. is_syn m"
  shows "synCount (fold (obs r) ms fa) = synCount fa + of_nat (length ms)"
    and "ackPshCount (fold (obs r) ms fa) = ackPshCount fa"
  using assms by (induction ms arbitrary: fa) (simp_all add: observe_syn)

text \<open>The first packet names the flow, as long as the packet counter does not wrap around.\<close>

lemma fold_first_kept:
  assumes "0 < j" and "j + length ms < 2 ^ 64" and "packetCount fa = of_nat j"
  shows "firstSrcIP (fold (obs r) ms fa) = firstSrcIP fa \<and>
         acc_protocol (fold (obs r) ms fa) = acc_protocol fa"
  using assms
proof (induction ms arbitrary: j fa)
  case Nil
  then show ?case by simp
next
  case (Cons m ms)
  have "packetCount fa \<noteq> 0" using Cons.prems by (simp add: word_of_nat_eq_0_iff nat_dvd_not_less)
  moreover have "packetCount (obs r m fa) = of_nat (Suc j)"
    using Cons.prems(3) by (simp add: observe_counters add.commute)
  ultimately show ?case
    using Cons.IH [of "Suc j" "obs r m fa"] Cons.prems(2) by (simp add: observe_first_fields)
qed

lemma fold_first:
  assumes "ms \<noteq> []" and "length ms < 2 ^ 64"
  shows "firstSrcIP (fold (obs r) ms zero_accumulator) = SrcIP (hd ms)"
    and "acc_protocol (fold (obs r) ms zero_accumulator) = Protocol (hd ms)"
proof -
  obtain m rest where ms: "ms = m # rest" using assms(1) by (cases ms) auto
  have "packetCount (obs r m zero_accumulator) = of_nat 1" by (simp add: observe_counters)
  from fold_first_kept [OF _ _ this, of rest r] assms(2)
  show "firstSrcIP (fold (obs r) ms zero_accumulator) = SrcIP (hd ms)"
    and "acc_protocol (fold (obs r) ms zero_accumulator) = Protocol (hd ms)"
    by (simp_all add: ms observe_first_fields)
qed

section \<open>The window of a flow\<close>

text \<open>A flow with packets is tracked as long as the window has few flows.\<close>

lemma window_tracked:
  fixes r ms t k
  defines "a \<equiv> fold (Ingest r) ms (NewAggregator t)"
  assumes "flow_packets k ms \<noteq> []" and "shard_size (flowShards a) < maxFlowsPerShard"
  shows "shard_get flow_idx (flowShards a) k = Some (fold (obs r) (flow_packets k ms) zero_accumulator)"
proof -
  have "agg_inv a" unfolding a_def by (intro fold_Ingest_inv agg_inv_New)
  then have len: "length (flowShards a) = numShards" using fsh.ok_length by (auto simp: agg_inv_def)
  have "length (flowShards a ! flow_idx k) \<in> set (map length (flowShards a))"
    using shardIndex_less [of k] len by (metis imageI list.set_map nth_mem)
  then have "length (flowShards a ! flow_idx k) \<le> shard_size (flowShards a)"
    unfolding shard_size_def by (intro member_le_sum_list) simp_all
  then show ?thesis
    using flow_accumulator_fold [of r ms t k] assms(2,3)
    by (auto simp: a_def Let_def split: option.splits)
qed

text \<open>With room in the channel, \<open>flush\<close> sends the features of exactly the tracked flows.\<close>

lemma window_sent:
  assumes inv: "agg_inv a" and ord: "\<And>l. mset (ordF l) = mset l"
    and "out a = []" and "shard_size (flowShards a) \<le> outputBufferSize"
  shows "out (flush r ordP ordF now a) = window_features r ordP ordF now a"
    and "length (window_features r ordP ordF now a) = shard_size (flowShards a)"
proof -
  have len: "length (flowShards a) = numShards" using inv fsh.ok_length by (auto simp: agg_inv_def)
  have "size (mset (window_features r ordP ordF now a)) = shard_size (flowShards a)"
    unfolding mset_window_features [of ordF r ordP now a, OF ord]
    by (simp add: shard_size_def length_concat)
  then show l: "length (window_features r ordP ordF now a) = shard_size (flowShards a)" by simp
  show "out (flush r ordP ordF now a) = window_features r ordP ordF now a"
    using assms(3,4) l by (simp add: flush_spec [OF len])
qed

lemma window_out:
  assumes inv: "agg_inv a" and ord: "\<And>l. mset (ordF l) = mset l"
    and "out a = []" and "shard_size (flowShards a) \<le> outputBufferSize"
  shows "set (out (flush r ordP ordF now a)) =
         {flow_features r ordP (port_snapshot (portShards a)) (windowStart a) now fa | k fa.
            shard_get flow_idx (flowShards a) k = Some fa}"
proof -
  have ok: "shard_ok flow_idx numShards (flowShards a)" using inv by (simp add: agg_inv_def)
  have mem: "(k, fa) \<in> set (concat (flowShards a)) \<longleftrightarrow> shard_get flow_idx (flowShards a) k = Some fa"
    for k fa
    unfolding fsh.get_Some_iff [OF ok]
    using fsh.ok_length [OF ok] by (auto simp: set_conv_nth [of "flowShards a"])
  have w: "set (window_features r ordP ordF now a) =
      (flow_features r ordP (port_snapshot (portShards a)) (windowStart a) now \<circ> snd) `
        set (concat (flowShards a))"
    using arg_cong [OF mset_window_features [of ordF r ordP now a, OF ord], of set_mset] by simp
  have img: "(F \<circ> snd) ` S = {F fa | k fa. (k, fa) \<in> S}"
    for F :: "flowAccumulator \<Rightarrow> FlowFeatures" and S
    by force
  show ?thesis unfolding window_sent(1) [where ordF = ordF, OF assms] w img mem ..
qed

lemma Ingest_out_empty: "out (fold (Ingest r) ms (NewAggregator t)) = []"
  by (rule fold_invariant [of ms "\<lambda>_. True"]) (simp_all add: NewAggregator_def Ingest_other)

text \<open>A window with one flow only.\<close>

lemma one_flow_size:
  assumes "\<And>x. x \<in> set ms \<Longrightarrow> key_of x = k"
  shows "shard_size (flowShards (fold (Ingest r) ms (NewAggregator t))) \<le> 1"
proof -
  have "agg_inv (fold (Ingest r) ms (NewAggregator t)) \<and>
        shard_keys (flowShards (fold (Ingest r) ms (NewAggregator t))) \<subseteq> {k}"
    using assms
  proof (induction ms rule: rev_induct)
    case Nil
    show ?case using agg_inv_New by (simp add: NewAggregator_def shard_keys_def)
  next
    case (snoc m ms)
    let ?a = "fold (Ingest r) ms (NewAggregator t)"
    have inv: "agg_inv ?a" and keys: "shard_keys (flowShards ?a) \<subseteq> {k}" using snoc by auto
    have "shard_ok flow_idx numShards (flowShards ?a)" using inv by (simp add: agg_inv_def)
    then have "shard_keys (flowShards (Ingest r m ?a)) \<subseteq> insert (key_of m) (shard_keys (flowShards ?a))"
      by (auto simp: Ingest_flowShards fsh.keys_set)
    then show ?case using agg_inv_Ingest [OF inv] keys snoc.prems [of m] by auto
  qed
  then have "card (shard_keys (flowShards (fold (Ingest r) ms (NewAggregator t)))) \<le> card {k}"
    by (intro card_mono) auto
  moreover have "shard_ok flow_idx numShards (flowShards (fold (Ingest r) ms (NewAggregator t)))"
    using fold_Ingest_inv [OF agg_inv_New] by (simp add: agg_inv_def)
  ultimately show ?thesis by (simp add: fsh.card_keys)
qed

lemma one_flow_window:
  fixes r ms t
  defines "a \<equiv> fold (Ingest r) ms (NewAggregator t)"
  assumes "ms \<noteq> []" and key: "\<And>x. x \<in> set ms \<Longrightarrow> key_of x = k" and ord: "\<And>l. mset (ordF l) = mset l"
  shows "out (flush r ordP ordF now a) =
         [flow_features r ordP (port_snapshot (portShards a)) (windowStart a) now
            (fold (obs r) ms zero_accumulator)]"
proof -
  have inv: "agg_inv a" unfolding a_def by (intro fold_Ingest_inv agg_inv_New)
  have empty: "out a = []" unfolding a_def by (rule Ingest_out_empty)
  have size: "shard_size (flowShards a) \<le> 1" unfolding a_def using key by (rule one_flow_size)
  have ps: "flow_packets k ms = ms" unfolding flow_packets_def using key by (simp add: filter_id_conv)
  have "shard_get flow_idx (flowShards a) k = Some (fold (obs r) ms zero_accumulator)"
    using window_tracked [of k ms r t] size assms(2) by (simp add: ps a_def guards)
  then have mem: "flow_features r ordP (port_snapshot (portShards a)) (windowStart a) now
      (fold (obs r) ms zero_accumulator) \<in> set (out (flush r ordP ordF now a))" (is "?ff \<in> _")
    using window_out [OF inv ord empty, of r ordP now] size by (auto simp: outputBufferSize_def)
  have "length (out (flush r ordP ordF now a)) \<le> 1"
    using window_sent [where ordF = ordF, OF inv ord empty, of r ordP now] size
    by (simp add: outputBufferSize_def)
  then show ?thesis using mem by (cases "out (flush r ordP ordF now a)") auto
qed

section \<open>A forward SYN flow\<close>

text \<open>Enough SYN packets in the forward direction, no two consecutive ones half a millisecond apart.\<close>

definition syn_flood :: "FlowPacketMeta list \<Rightarrow> bool" where
  "syn_flood ps \<longleftrightarrow> (\<forall>m \<in> set ps. is_syn m \<and> snd (canonicalize m)) \<and>
     500 \<le> length ps \<and> length ps \<le> 36000 \<and>
     30 \<le> length (iats 0 ps) \<and> (\<forall>g \<in> set (iats 0 ps). g < 500000)"

lemma syn_flood_verdict:
  fixes ps ordP snap ws we
  defines "ff \<equiv> flow_features fl64 ordP snap ws we (fold (obs fl64) ps zero_accumulator)"
  assumes flood: "syn_flood ps"
  shows "ff_SrcIP ff = u32ToIP (SrcIP (hd ps))"
    and "Malicious (Classify fl64 ff)" "Attack (Classify fl64 ff) = AttackSynFlood"
proof -
  let ?fa = "fold (obs fl64) ps zero_accumulator" and ?n = "of_nat (length ps) :: u64"
  have ps: "ps \<noteq> []" "500 \<le> length ps" "length ps \<le> 36000" "length ps < 2 ^ 64"
    and all: "\<forall>m \<in> set ps. is_syn m" "\<forall>m \<in> set ps. snd (canonicalize m)"
    and gaps: "30 \<le> length (iats 0 ps)" "\<forall>g \<in> set (iats 0 ps). unat g \<le> 499999"
    using flood by (auto simp: syn_flood_def word_less_nat_alt)
  show "ff_SrcIP ff = u32ToIP (SrcIP (hd ps))"
    using fold_first(1) [OF ps(1,4)] by (simp add: ff_def flow_features_def)
  have un: "unat ?n = length ps" using ps(4) by (simp add: unat_of_nat)
  have n5: "singleDirectionRatioFloor \<le> ?n" and n500: "500 \<le> ?n"
    using ps(2) un by (simp_all add: word_le_nat_alt singleDirectionRatioFloor_def)
  have proto: "acc_protocol ?fa = 6"
    using fold_first(2) [OF ps(1,4)] all(1) hd_in_set [OF ps(1)] by (simp add: is_syn_def protocolTCP_def)
  have fields: "PacketCount ff = ?n" "ReverseCount ff = 0" "SynCount ff = ?n" "AckPshCount ff = 0"
    "ff_Protocol ff = 6" "IATStdDevNS ff = iatStdDevNS fl64 ?fa"
    using fold_packetCount [of fl64 ps zero_accumulator] fold_forward [OF all(2), of fl64 zero_accumulator]
      fold_syn [OF all(1), of fl64 zero_accumulator] proto
    by (simp_all add: ff_def flow_features_def)
  have n: "float_u64 fl64 ?n = real (length ps)"
    using b64.float_u64_exact [of ?n, unfolded un] ps(3) by simp
  have "float_u64 fl64 1 = 1" using b64.float_u64_exact [of 1] by simp
  moreover have "maxU64 0 1 = 1" by (simp add: maxU64_def)
  ultimately have "fv_RatioFlow (ToFeatureVector fl64 ff) = real (length ps)"
    using b64.r_of_nat [of "length ps"] ps(3) n5 n by (simp add: ToFeatureVector_def fields Let_def)
  moreover have "length ps * 499999\<^sup>2 \<le> 36000 * 499999\<^sup>2" using ps(3) by (intro mult_le_mono1)
  then have "length ps * 499999\<^sup>2 \<le> 2 ^ 53" by simp
  from b64.iatStdDevNS_le [OF this _ _ gaps]
  have "0 \<le> IATStdDevNS ff" "IATStdDevNS ff < 500000" using ps(3) fields(6) by simp_all
  moreover have "fv_PacketCount (ToFeatureVector fl64 ff) = real (length ps)"
    "fv_IATStdDevNS (ToFeatureVector fl64 ff) = IATStdDevNS ff"
    by (simp_all add: ToFeatureVector_def Let_def fields(1) n)
  ultimately have "2 \<le> total_score fl64 (ToFeatureVector fl64 ff)"
    "best_label fl64 (ToFeatureVector fl64 ff) = AttackSynFlood"
    using ps(2) by (intro b64.flood_total; simp)+
  then show "Malicious (Classify fl64 ff)" "Attack (Classify fl64 ff) = AttackSynFlood"
    using b64.malicious_total by auto
qed

section \<open>A reverse flow\<close>

text \<open>The trackers in the snapshot are those of the shards.\<close>

lemma fold_snapshot_entry:
  "go_get (fold (\<lambda>(ip, pt) snap. go_set snap ip pt) l snap) ip = Some pt \<Longrightarrow>
   (ip, pt) \<in> set l \<or> go_get snap ip = Some pt"
proof (induction l arbitrary: snap)
  case Nil
  then show ?case by simp
next
  case (Cons e l)
  then show ?case by (cases e) (fastforce split: if_splits dest: Cons.IH)
qed

lemma port_snapshot_entry:
  assumes "shard_ok port_idx numShards shards" and "go_get (port_snapshot shards) ip = Some pt"
  shows "shard_get port_idx shards ip = Some pt"
proof -
  have "(ip, pt) \<in> set (concat shards)"
    using fold_snapshot_entry [of "concat shards" "[]"] assms(2) by (fastforce simp: port_snapshot_def)
  then obtain i where "i < numShards" "(ip, pt) \<in> set (shards ! i)"
    using psh.ok_length [OF assms(1)] by (auto simp: set_conv_nth [of shards])
  then show ?thesis using psh.get_Some_iff [OF assms(1)] by blast
qed

lemma Ingest_portShards:
  "portShards (Ingest r m a) =
     (if refused m a then portShards a
      else shard_set port_idx (portShards a) (SrcIP m) (observe_port (DstPort m)
             (case shard_get port_idx (portShards a) (SrcIP m) of None \<Rightarrow> newPortTracker | Some pt \<Rightarrow> pt)))"
  by (simp add: Ingest_refused Ingest_accepted Ingest_port_alt)

lemma tracker_replicate_Suc: "observe_port p (tracker (replicate n p)) = tracker (replicate (Suc n) p)"
  by (simp only: fold_replicate funpow.simps comp_apply)

lemma single_port_tracker:
  assumes "\<forall>m \<in> set ms. SrcIP m = src \<longrightarrow> DstPort m = p"
    and "shard_get port_idx (portShards (fold (Ingest r) ms (NewAggregator t))) src = Some pt"
  shows "\<exists>n < length ms. pt = tracker (replicate (Suc n) p)"
  using assms
proof (induction ms arbitrary: pt rule: rev_induct)
  case Nil
  then show ?case by (simp add: NewAggregator_def shard_get_def srcIPShardIndex_less)
next
  case (snoc m ms)
  define a where "a = fold (Ingest r) ms (NewAggregator t)"
  have "agg_inv a" unfolding a_def by (intro fold_Ingest_inv agg_inv_New)
  then have ok: "shard_ok port_idx numShards (portShards a)" by (simp add: agg_inv_def)
  have IH: "shard_get port_idx (portShards a) src = Some q \<Longrightarrow> \<exists>n < length ms. q = tracker (replicate (Suc n) p)"
    for q
    unfolding a_def using snoc.prems(1) by (intro snoc.IH) auto
  have get: "shard_get port_idx (portShards (Ingest r m a)) src = Some pt"
    using snoc.prems(2) by (simp add: a_def)
  show ?case
  proof (cases "refused m a \<or> SrcIP m \<noteq> src")
    case True
    then have "shard_get port_idx (portShards a) src = Some pt"
      using get psh.get_set [OF ok] by (auto simp: Ingest_portShards split: if_splits)
    then obtain n where "n < length ms" "pt = tracker (replicate (Suc n) p)" using IH by blast
    then show ?thesis by (intro exI [of _ n]) simp
  next
    case False
    then have pt: "pt = observe_port p
        (case shard_get port_idx (portShards a) src of None \<Rightarrow> newPortTracker | Some q \<Rightarrow> q)"
      using get snoc.prems(1) by (simp add: Ingest_portShards psh.get_set [OF ok])
    show ?thesis
    proof (cases "shard_get port_idx (portShards a) src")
      case None
      then show ?thesis using pt by (intro exI [of _ 0]) simp
    next
      case (Some q)
      then obtain n where n: "n < length ms" "q = tracker (replicate (Suc n) p)" using IH by blast
      have "pt = tracker (replicate (Suc (Suc n)) p)"
        by (simp only: pt Some option.case n(2) tracker_replicate_Suc)
      then show ?thesis using n(1) by (intro exI [of _ "Suc n"]) simp
    qed
  qed
qed

lemma single_port_entropy:
  fixes r ms t
  defines "a \<equiv> fold (Ingest fl64) ms (NewAggregator t)"
  assumes "length ms < 2 ^ 32" and "\<And>l. mset (ordP l) = mset l"
    and "\<forall>m \<in> set ms. SrcIP m = firstSrcIP fa \<longrightarrow> DstPort m = p"
  shows "PortEntropyBits (flow_features fl64 ordP (port_snapshot (portShards a)) ws we fa) = 0"
proof (cases "go_get (port_snapshot (portShards a)) (firstSrcIP fa)")
  case None
  then show ?thesis by (simp add: flow_features_def)
next
  case (Some pt)
  have "agg_inv a" unfolding a_def by (intro fold_Ingest_inv agg_inv_New)
  then have "shard_ok port_idx numShards (portShards a)" by (simp add: agg_inv_def)
  then obtain n where n: "n < length ms" "pt = tracker (replicate (Suc n) p)"
    using port_snapshot_entry Some single_port_tracker [OF assms(4)] unfolding a_def by blast
  have one: "ordP [x] = [x]" for x using assms(3) [of "[x]"] by (simp add: mset_single_iff)
  have "entropyBits fl64 ordP pt = 0"
    unfolding n(2) using n(1) assms(2) by (intro b64.entropyBits_single_port one) linarith
  then show ?thesis using Some by (simp add: flow_features_def)
qed

context rounding
begin

text \<open>No SYN score and no port score: the volume alone cannot reach the threshold.\<close>

lemma reverse_total:
  assumes "fv_PacketCount fv < 20 \<or> fv_RatioFlow fv < 8" and "fv_PortEntropyBits fv < 3"
  shows "total_score r fv \<le> 3 / 2"
proof -
  have "total_score r fv \<le> of_int (- 4 + - 8 + 8) / 2"
    using assms volumetricTree_le [of fv]
    by (intro total_score_le) (auto simp: synFloodTree_def portScanTree_def)
  then show ?thesis by simp
qed

end

lemma reverse_flow_benign:
  fixes ps ordP snap ws we
  defines "ff \<equiv> flow_features fl64 ordP snap ws we (fold (obs fl64) ps zero_accumulator)"
  assumes "\<forall>m \<in> set ps. \<not> snd (canonicalize m)" and "length ps < 2 ^ 64" and "PortEntropyBits ff < 3"
  shows "\<not> Malicious (Classify fl64 ff)"
proof -
  let ?n = "of_nat (length ps) :: u64"
  have fields: "PacketCount ff = ?n" "ReverseCount ff = ?n" "RatioFlow ff = 0"
    using fold_packetCount [of fl64 ps zero_accumulator] fold_reverse [OF assms(2), of fl64 zero_accumulator]
    by (simp_all add: ff_def flow_features_def float_u64_def b64.r_0)
  have "fv_PacketCount (ToFeatureVector fl64 ff) < 20 \<or> fv_RatioFlow (ToFeatureVector fl64 ff) < 8"
  proof (cases "ps = []")
    case True
    then show ?thesis by (simp add: ToFeatureVector_def Let_def fields(1) float_u64_def b64.r_0)
  next
    case False
    then have "?n \<noteq> 0" using assms(3) by (simp add: word_of_nat_eq_0_iff nat_dvd_not_less)
    then show ?thesis by (simp add: ToFeatureVector_def Let_def fields(2,3))
  qed
  moreover have "fv_PortEntropyBits (ToFeatureVector fl64 ff) < 3"
    using assms(4) by (simp add: ToFeatureVector_def Let_def)
  ultimately show ?thesis using b64.reverse_total b64.benign_total by blast
qed

section \<open>Paced packets\<close>

text \<open>Copies of one packet at a constant pace, for the witnesses.\<close>

definition paced :: "FlowPacketMeta \<Rightarrow> nat \<Rightarrow> nat \<Rightarrow> FlowPacketMeta list" where
  "paced m g n = map (\<lambda>i. m\<lparr>TimestampNS := of_nat (i * g)\<rparr>) [1..<Suc n]"

lemma set_paced: "x \<in> set (paced m g n) \<Longrightarrow> \<exists>t. x = m\<lparr>TimestampNS := t\<rparr>"
  by (auto simp: paced_def)

lemma length_paced [simp]: "length (paced m g n) = n"
  by (simp add: paced_def)

lemma iats_paced_from:
  assumes "0 < j" and "j \<le> n" and "0 < g" and "n * g < 2 ^ 64"
  shows "iats (of_nat (j * g)) (map (\<lambda>i. m\<lparr>TimestampNS := of_nat (i * g)\<rparr>) [Suc j..<Suc n]) =
         replicate (n - j) (of_nat g)"
  using assms(1,2)
proof (induction "n - j" arbitrary: j)
  case 0
  then show ?case by simp
next
  case (Suc d)
  then have j: "Suc j \<le> n" "d = n - Suc j" by auto
  have small: "i * g < 2 ^ 64" if "i \<le> n" for i
    using mult_le_mono1 [OF that, of g] assms(4) by (rule order.strict_trans1)
  have u: "unat (of_nat (i * g) :: u64) = i * g" if "i \<le> n" for i
    using small [OF that] by (simp add: unat_of_nat del: of_nat_mult)
  have stamp: "TimestampNS (m\<lparr>TimestampNS := x\<rparr>) = x" for x by simp
  have "(of_nat (j * g) :: u64) < of_nat (Suc j * g)"
    unfolding word_less_nat_alt using u [of j] u [of "Suc j"] j(1) assms(3) by simp
  moreover have "(of_nat (j * g) :: u64) \<noteq> 0"
    using u [of j] j(1) Suc.prems assms(3) by (metis mult_is_0 not_less0 Suc_leD unat_0)
  moreover have "(of_nat (Suc j * g) :: u64) - of_nat (j * g) = of_nat g" by simp
  moreover have "[Suc j..<Suc n] = Suc j # [Suc (Suc j)..<Suc n]" using j(1) by (simp add: upt_conv_Cons)
  moreover have "n - j = Suc (n - Suc j)" using j(1) by simp
  ultimately show ?case
    using Suc.hyps(1) [OF j(2)] j(1)
    by (simp only: list.map iats.simps if_True simp_thms replicate_Suc append_Cons append_Nil
          stamp zero_less_Suc)
qed

lemma iats_paced:
  assumes "0 < n" and "0 < g" and "n * g < 2 ^ 64"
  shows "iats 0 (paced m g n) = replicate (n - 1) (of_nat g)"
proof -
  have "[1..<Suc n] = 1 # [Suc 1..<Suc n]" using assms(1) by (simp add: upt_conv_Cons)
  then show ?thesis
    using iats_paced_from [of 1 n g m] assms by (simp add: paced_def del: upt_Suc)
qed

lemma paced_packet:
  "canonicalize (m\<lparr>TimestampNS := t\<rparr>) = canonicalize m" "is_syn (m\<lparr>TimestampNS := t\<rparr>) = is_syn m"
  by (simp_all add: canonicalize_def is_syn_def)

lemma paced_flow: "flow_packets (key_of m) (paced m g n) = paced m g n"
  unfolding flow_packets_def
  by (rule filter_True) (use set_paced paced_packet in fastforce)

lemma paced_syn_flood:
  assumes "is_syn m" and "snd (canonicalize m)" and "500 \<le> n" "n \<le> 36000" and "0 < g" "g < 500000"
  shows "syn_flood (paced m g n)"
proof -
  have "n * g \<le> 36000 * 500000" using assms(4,6) by (intro mult_le_mono) simp_all
  then have i: "iats 0 (paced m g n) = replicate (n - 1) (of_nat g)"
    using assms(3,5) by (intro iats_paced) simp_all
  have "unat (of_nat g :: u64) = g" using assms(6) by (simp add: unat_of_nat)
  then have "(of_nat g :: u64) < 500000" using assms(6) by (simp add: word_less_nat_alt)
  then show ?thesis
    using assms(1-4) set_paced [of _ m g n] unfolding syn_flood_def i
    by (fastforce simp: paced_packet)
qed

section \<open>Properties\<close>

lemma same_byte:
  fixes x y :: u32
  assumes "ucast (drop_bit n x) = (ucast (drop_bit n y) :: u8)" and "n \<le> i" "i < n + 8"
  shows "bit x i = bit y i"
  using arg_cong [OF assms(1), of "\<lambda>w. bit w (i - n)"] assms(2,3) by (simp add: bit_simps less_diff_conv2)

lemma u32ToIP_inj: "u32ToIP x = u32ToIP y \<longleftrightarrow> x = y"
proof
  assume "u32ToIP x = u32ToIP y"
  then have "ucast (drop_bit n x) = (ucast (drop_bit n y) :: u8)" if "n \<in> {0, 8, 16, 24}" for n
    using that by (auto simp: u32ToIP_def IPv4_def)
  then have "bit x i = bit y i" if "n \<in> {0, 8, 16, 24}" "n \<le> i" "i < n + 8" for n i
    using that same_byte by blast
  from this [of 0] this [of 8] this [of 16] this [of 24] show "x = y"
    by (intro bit_word_eqI) (simp, metis linorder_not_less numeral_plus_numeral add_numeral_special)
qed simp

lemma flow_packets_src:
  "m \<in> set (flow_packets k ms) \<Longrightarrow> snd (canonicalize m) \<Longrightarrow> SrcIP m = IPLo k"
  by (auto simp: flow_packets_def canonicalize_def split: if_splits)

text \<open>
  (C12) Detection from the packets on: in a window with at most 4096 flows, a flow of 500 to
  36000 packets from the lower to the higher endpoint, all TCP with SYN and without ACK and
  PSH, with at least 30 positive gaps between consecutive timestamps and each gap below half a
  millisecond, makes \<open>flush\<close> send a feature vector for its source that the classifier flags as
  a SYN flood, under binary64 arithmetic, whatever other traffic shares the window, in
  whatever order the maps are visited.
\<close>

theorem syn_flood_flagged:
  fixes ms k t
  defines "a \<equiv> fold (Ingest fl64) ms (NewAggregator t)"
  assumes "\<forall>m \<in> set (flow_packets k ms). is_syn m \<and> snd (canonicalize m)"
    and "500 \<le> length (flow_packets k ms)" and "length (flow_packets k ms) \<le> 36000"
    and "30 \<le> length (iats 0 (flow_packets k ms))"
    and "\<forall>g \<in> set (iats 0 (flow_packets k ms)). g < 500000"
    and "shard_size (flowShards a) \<le> 4096" and "\<And>l. mset (ordF l) = mset l"
  shows "\<exists>ff \<in> set (out (flush fl64 ordP ordF now a)).
           ff_SrcIP ff = u32ToIP (IPLo k) \<and> Malicious (Classify fl64 ff) \<and>
           Attack (Classify fl64 ff) = AttackSynFlood"
proof -
  let ?ps = "flow_packets k ms"
  have flood: "syn_flood ?ps" and ne: "?ps \<noteq> []" using assms(2-6) by (auto simp: syn_flood_def)
  have inv: "agg_inv a" unfolding a_def by (intro fold_Ingest_inv agg_inv_New)
  have empty: "out a = []" unfolding a_def by (rule Ingest_out_empty)
  have get: "shard_get flow_idx (flowShards a) k = Some (fold (obs fl64) ?ps zero_accumulator)"
    unfolding a_def by (rule window_tracked [OF ne]) (use assms(7) in \<open>simp add: a_def guards\<close>)
  have "hd ?ps \<in> set ?ps" using ne by simp
  then have "SrcIP (hd ?ps) = IPLo k" using assms(2) flow_packets_src by blast
  then show ?thesis
    using syn_flood_verdict [OF flood, of ordP "port_snapshot (portShards a)" "windowStart a" now] get
      window_out [OF inv assms(8) empty, of fl64 ordP now] assms(7)
    by (auto simp: outputBufferSize_def)
qed

text \<open>
  (C17) The blind spot: a source whose address is numerically higher than its target's is never
  flagged, however many packets it sends and at whatever pace, as long as nothing comes back
  and it aims at one destination port.  All its packets count as reverse traffic, so the ratio
  is zero, and the fallback on flag counts applies only when there is no reverse traffic.
\<close>

theorem reverse_flood_missed:
  fixes ms src t
  defines "a \<equiv> fold (Ingest fl64) ms (NewAggregator t)"
  assumes "\<forall>m \<in> set ms. DstIP m \<noteq> src"
    and "\<forall>m \<in> set ms. SrcIP m = src \<longrightarrow> DstIP m < src \<and> DstPort m = p"
    and "length ms < 2 ^ 32" and "shard_size (flowShards a) \<le> 4096"
    and "\<And>l. mset (ordF l) = mset l" and "\<And>l. mset (ordP l) = mset l"
    and "ff \<in> set (out (flush fl64 ordP ordF now a))" and "ff_SrcIP ff = u32ToIP src"
  shows "\<not> Malicious (Classify fl64 ff)"
proof -
  have inv: "agg_inv a" unfolding a_def by (intro fold_Ingest_inv agg_inv_New)
  have empty: "out a = []" unfolding a_def by (rule Ingest_out_empty)
  obtain k fa where get: "shard_get flow_idx (flowShards a) k = Some fa"
    and ff: "ff = flow_features fl64 ordP (port_snapshot (portShards a)) (windowStart a) now fa"
    using assms(5,8) window_out [OF inv assms(6) empty, of fl64 ordP now] by (auto simp: outputBufferSize_def)
  have src: "firstSrcIP fa = src" using assms(9) by (simp add: ff flow_features_def u32ToIP_inj)
  have fa: "fa = fold (obs fl64) (flow_packets k ms) zero_accumulator"
    using flow_accumulator_fold [of fl64 ms t k] get by (simp add: a_def Let_def)
  have "acc_inv k fa" using inv get by (simp add: agg_inv_def)
  then have "src = IPLo k \<or> src = IPHi k" using src by (auto simp: acc_inv_def)
  then have rev: "\<not> snd (canonicalize m)" if "m \<in> set (flow_packets k ms)" for m
    using that assms(2,3) by (auto simp: flow_packets_def canonicalize_def split: if_splits)
  have "length (flow_packets k ms) \<le> length ms" by (simp add: flow_packets_def)
  then have len: "length (flow_packets k ms) < 2 ^ 64" using assms(4) by simp
  have "PortEntropyBits ff = 0"
    unfolding ff a_def using assms(3,4,7) src by (intro single_port_entropy) auto
  then show ?thesis
    using reverse_flow_benign [OF _ len] rev unfolding ff fa by simp
qed

text \<open>The witnesses: 500 SYN packets 200 microseconds apart, from either side.\<close>

definition syn_to :: "u32 \<Rightarrow> u32 \<Rightarrow> FlowPacketMeta" where
  "syn_to s d = \<lparr>SrcIP = s, DstIP = d, SrcPort = 40000, DstPort = 80, Protocol = 6, TCPFlags = 2,
     m_Action = 2, m_DropReason = 0, TimestampNS = 0\<rparr>"

lemma paced_key: "x \<in> set (paced m g n) \<Longrightarrow> key_of x = key_of m"
  using set_paced paced_packet by fastforce

lemma syn_to_flood: "s < d \<Longrightarrow> syn_flood (paced (syn_to s d) 200000 500)"
  by (rule paced_syn_flood) (simp_all add: syn_to_def is_syn_def canonicalize_def guards)

theorem syn_flood_flagged_witness:
  "\<exists>ff \<in> set (out (flush fl64 (\<lambda>l. l) rev 7
       (fold (Ingest fl64) (paced (syn_to 1 2) 200000 500) (NewAggregator 0)))).
     ff_SrcIP ff = u32ToIP 1 \<and> Malicious (Classify fl64 ff) \<and> Attack (Classify fl64 ff) = AttackSynFlood"
proof -
  let ?m = "syn_to 1 2" and ?ps = "paced (syn_to 1 2) 200000 500"
  have lo: "IPLo (key_of ?m) = 1" by (simp add: syn_to_def canonicalize_def)
  have flood: "syn_flood ?ps" by (rule syn_to_flood) simp
  have "\<exists>ff \<in> set (out (flush fl64 (\<lambda>l. l) rev 7 (fold (Ingest fl64) ?ps (NewAggregator 0)))).
      ff_SrcIP ff = u32ToIP (IPLo (key_of ?m)) \<and> Malicious (Classify fl64 ff) \<and>
      Attack (Classify fl64 ff) = AttackSynFlood"
  proof (rule syn_flood_flagged, unfold paced_flow)
    show "shard_size (flowShards (fold (Ingest fl64) ?ps (NewAggregator 0))) \<le> 4096"
      by (rule order.trans [OF one_flow_size [where k = "key_of ?m", OF paced_key]]) simp_all
  qed (use flood in \<open>simp_all add: syn_flood_def\<close>)
  then show ?thesis by (simp only: lo)
qed

theorem reverse_flood_missed_witness:
  "\<exists>ff \<in> set (out (flush fl64 (\<lambda>l. l) rev 7
       (fold (Ingest fl64) (paced (syn_to 2 1) 200000 500) (NewAggregator 0)))).
     PacketCount ff = 500 \<and> SynCount ff = 500 \<and> ff_SrcIP ff = u32ToIP 2 \<and> \<not> Malicious (Classify fl64 ff)"
proof -
  let ?m = "syn_to 2 1" and ?ps = "paced (syn_to 2 1) 200000 500"
  let ?a = "fold (Ingest fl64) ?ps (NewAggregator 0)" and ?fa = "fold (obs fl64) ?ps zero_accumulator"
  let ?ff = "flow_features fl64 (\<lambda>l. l) (port_snapshot (portShards ?a)) (windowStart ?a) 7 ?fa"
  have ne: "?ps \<noteq> []" using length_paced [of ?m 200000 500] by force
  have size: "shard_size (flowShards ?a) \<le> 1"
    by (rule one_flow_size [where k = "key_of ?m", OF paced_key])
  have inv: "agg_inv ?a" by (intro fold_Ingest_inv agg_inv_New)
  have empty: "out ?a = []" by (rule Ingest_out_empty)
  have "shard_get flow_idx (flowShards ?a) (key_of ?m) = Some ?fa"
    using window_tracked [of "key_of ?m" ?ps fl64 0] size ne by (simp add: paced_flow guards)
  then have mem: "?ff \<in> set (out (flush fl64 (\<lambda>l. l) rev 7 ?a))"
    using window_out [OF inv _ empty, where ordF = rev] size by (auto simp: outputBufferSize_def)
  have all: "\<forall>m \<in> set ?ps. is_syn m \<and> SrcIP m = 2 \<and> DstIP m = 1 \<and> DstPort m = 80"
    using set_paced [of _ ?m 200000 500] by (fastforce simp: is_syn_def syn_to_def guards)
  then have "SrcIP (hd ?ps) = 2" using hd_in_set [OF ne] by blast
  then have src: "ff_SrcIP ?ff = u32ToIP 2"
    using fold_first(1) [OF ne, of fl64] by (simp add: flow_features_def)
  have "\<not> Malicious (Classify fl64 ?ff)"
    by (rule reverse_flood_missed [OF _ _ _ _ _ _ mem src, of 80])
       (use all size in \<open>simp_all\<close>)
  moreover have "PacketCount ?ff = 500" "SynCount ?ff = 500"
    using fold_packetCount [of fl64 ?ps zero_accumulator] fold_syn(1) [of ?ps fl64 zero_accumulator] all
    by (simp_all add: flow_features_def)
  ultimately show ?thesis using mem src by blast
qed

end
