(* ===== verification/EbpfApi.thy ===== *)
theory EbpfApi
  imports Contracts "HOL-Library.Multiset"
begin

text \<open>
  The boundary to the package \<open>github.com/cilium/ebpf\<close>, whose code is not part of the
  repository: a record of the calls the engine makes, over an abstract kernel state \<open>'k\<close> and
  map handles \<open>'h\<close>.  The locale \<open>ebpf_maps\<close> states the documented behaviour the engine relies
  on.  It is interpreted on the kernel maps as \<^verbatim>\<open>src/kernel-space/src/maps.rs\<close> declares them:
  their kinds, key and value sizes and capacities.
\<close>

section \<open>Values, errors and calls\<close>

text \<open>The Go values the engine passes as keys and values, with their marshalled sizes.\<close>

datatype bpf_val = VU8 u8 | VU16 u16 | VU32 u32 | VLpm LpmIpv4Key

fun val_size :: "bpf_val \<Rightarrow> nat" where
  "val_size (VU8 _) = 1"
| "val_size (VU16 _) = 2"
| "val_size (VU32 _) = 4"
| "val_size (VLpm _) = 8"

text \<open>A trie compares only the first \<open>PrefixLen\<close> bits of a key, which must be at most 32.\<close>

fun norm_key :: "bpf_val \<Rightarrow> bpf_val" where
  "norm_key (VLpm k) = VLpm (k\<lparr>KeyAddr := map2 (AND) (KeyAddr k) (CIDRMask (unat (PrefixLen k)) 32)\<rparr>)"
| "norm_key v = v"

fun prefix_ok :: "bpf_val \<Rightarrow> bool" where
  "prefix_ok (VLpm k) \<longleftrightarrow> PrefixLen k \<le> 32"
| "prefix_ok v \<longleftrightarrow> True"

datatype ebpf_error = ErrKeyNotExist | ErrSys string

record ('h, 'k) ebpf_api =
  LoadPinnedMap :: "string \<Rightarrow> 'k \<Rightarrow> (ebpf_error + 'h) \<times> 'k"
  Map_Close :: "'h \<Rightarrow> 'k \<Rightarrow> 'k"
  Map_Put :: "'h \<Rightarrow> bpf_val \<Rightarrow> bpf_val \<Rightarrow> 'k \<Rightarrow> ebpf_error option \<times> 'k"
  Map_Lookup :: "'h \<Rightarrow> bpf_val \<Rightarrow> 'k \<Rightarrow> ebpf_error + u32"
  Map_Delete :: "'h \<Rightarrow> bpf_val \<Rightarrow> 'k \<Rightarrow> ebpf_error option \<times> 'k"

section \<open>The contract\<close>

text \<open>
  \<open>contents\<close> is what a map holds, by normalised key; \<open>opened\<close> the open descriptors.  A call
  that fails changes nothing; an update may always fail, and does for keys or values of the
  wrong size and for prefixes longer than an address.
\<close>

locale ebpf_maps =
  fixes api :: "('h, 'k) ebpf_api"
    and contents :: "'h \<Rightarrow> 'k \<Rightarrow> bpf_val \<Rightarrow> bpf_val option"
    and key_size :: "'h \<Rightarrow> nat"
    and value_size :: "'h \<Rightarrow> nat"
    and opened :: "'k \<Rightarrow> 'h multiset"
  assumes put_ok: "Map_Put api h key v s = (None, s') \<Longrightarrow>
      val_size key = key_size h \<and> val_size v = value_size h \<and> prefix_ok key \<and>
      contents h' s' = (if h' = h then (contents h s)(norm_key key \<mapsto> v) else contents h' s)"
    and put_err: "Map_Put api h key v s = (Some e, s') \<Longrightarrow> contents h' s' = contents h' s"
    and put_opened: "opened (snd (Map_Put api h key v s)) = opened s"
    and lookup_found: "contents h s (norm_key key) = Some (VU32 x) \<Longrightarrow> Map_Lookup api h key s = Inr x"
    and lookup_value: "Map_Lookup api h key s = Inr x \<Longrightarrow> contents h s (norm_key key) = Some (VU32 x)"
    and lookup_missing: "Map_Lookup api h key s = Inl ErrKeyNotExist \<Longrightarrow> contents h s (norm_key key) = None"
    and delete_ok: "Map_Delete api h key s = (None, s') \<Longrightarrow>
      contents h s (norm_key key) \<noteq> None \<and>
      contents h' s' = (if h' = h then (contents h s)(norm_key key := None) else contents h' s)"
    and delete_err: "Map_Delete api h key s = (Some e, s') \<Longrightarrow> contents h' s' = contents h' s"
    and delete_missing: "Map_Delete api h key s = (Some ErrKeyNotExist, s') \<Longrightarrow>
      contents h s (norm_key key) = None"
    and delete_opened: "opened (snd (Map_Delete api h key s)) = opened s"
    and load_ok: "LoadPinnedMap api path s = (Inr h, s') \<Longrightarrow>
      opened s' = add_mset h (opened s) \<and> contents h' s' = contents h' s"
    and load_err: "LoadPinnedMap api path s = (Inl e, s') \<Longrightarrow>
      opened s' = opened s \<and> contents h' s' = contents h' s"
    and close_opened: "opened (Map_Close api h s) = opened s - {#h#}"
    and close_contents: "contents h' (Map_Close api h s) = contents h' s"
begin

lemma put_unsized: "val_size key \<noteq> key_size h \<Longrightarrow> fst (Map_Put api h key v s) \<noteq> None"
  using put_ok [of h key v s] by (cases "Map_Put api h key v s") auto

lemma put_long_prefix: "\<not> prefix_ok key \<Longrightarrow> fst (Map_Put api h key v s) \<noteq> None"
  using put_ok [of h key v s] by (cases "Map_Put api h key v s") auto

end

section \<open>The kernel maps of maps.rs\<close>

datatype map_kind = LpmTrie | ArrayMap | LruPerCpuHash | RingBuffer

record kmap =
  kind :: map_kind
  ksize :: nat
  vsize :: nat
  max_entries :: nat
  pin :: string

definition REPUTATION_MAP :: kmap where
  "REPUTATION_MAP = \<lparr>kind = LpmTrie, ksize = 8, vsize = 4, max_entries = 16384, pin = ''reputation_map''\<rparr>"

definition PORT_GATE_MAP :: kmap where
  "PORT_GATE_MAP = \<lparr>kind = ArrayMap, ksize = 4, vsize = 1, max_entries = 65536, pin = ''port_gate_map''\<rparr>"

definition RATE_LIMIT_MAP :: kmap where
  "RATE_LIMIT_MAP = \<lparr>kind = LruPerCpuHash, ksize = 4, vsize = 16, max_entries = 65536, pin = ''rate_limit_map''\<rparr>"

definition CONFIG_MAP :: kmap where
  "CONFIG_MAP = \<lparr>kind = ArrayMap, ksize = 4, vsize = 4, max_entries = 2, pin = ''config_map''\<rparr>"

definition EVENTS :: kmap where
  "EVENTS = \<lparr>kind = RingBuffer, ksize = 0, vsize = 0, max_entries = 1048576, pin = ''events''\<rparr>"

text \<open>
  Their state: the entries written to each map so far and the open descriptors.  An array
  has an entry for every index from the start, zero until written; it can neither grow nor
  lose an entry.  A trie refuses a new key when it is full.
\<close>

record kernel =
  entries :: "(kmap \<times> bpf_val, bpf_val) go_map"
  descriptors :: "kmap list"

definition kernel_boot :: kernel where
  "kernel_boot = \<lparr>entries = [], descriptors = []\<rparr>"

fun index_ok :: "kmap \<Rightarrow> bpf_val \<Rightarrow> bool" where
  "index_ok h (VU32 i) \<longleftrightarrow> unat i < max_entries h"
| "index_ok h _ \<longleftrightarrow> False"

definition zero_val :: "kmap \<Rightarrow> bpf_val" where
  "zero_val h = (if vsize h = 1 then VU8 0 else VU32 0)"

definition k_contents :: "kmap \<Rightarrow> kernel \<Rightarrow> bpf_val \<Rightarrow> bpf_val option" where
  "k_contents h s key =
     (case go_get (entries s) (h, key) of
        Some v \<Rightarrow> Some v
      | None \<Rightarrow> if kind h = ArrayMap \<and> index_ok h key then Some (zero_val h) else None)"

definition map_full :: "kmap \<Rightarrow> kernel \<Rightarrow> bool" where
  "map_full h s \<longleftrightarrow> length (filter (\<lambda>((h', _), _). h' = h) (entries s)) \<ge> max_entries h"

definition k_put :: "kmap \<Rightarrow> bpf_val \<Rightarrow> bpf_val \<Rightarrow> kernel \<Rightarrow> ebpf_error option \<times> kernel" where
  "k_put h key v s =
     (if val_size key \<noteq> ksize h \<or> val_size v \<noteq> vsize h then (Some (ErrSys ''marshal''), s)
      else if \<not> prefix_ok key then (Some (ErrSys ''EINVAL''), s)
      else if k_contents h s (norm_key key) = None \<and> (kind h = ArrayMap \<or> map_full h s)
      then (Some (ErrSys ''E2BIG''), s)
      else (None, s\<lparr>entries := go_set (entries s) (h, norm_key key) v\<rparr>))"

definition k_lookup :: "kmap \<Rightarrow> bpf_val \<Rightarrow> kernel \<Rightarrow> ebpf_error + u32" where
  "k_lookup h key s =
     (case k_contents h s (norm_key key) of
        None \<Rightarrow> Inl ErrKeyNotExist
      | Some (VU32 v) \<Rightarrow> Inr v
      | Some _ \<Rightarrow> Inl (ErrSys ''unmarshal''))"

definition k_delete :: "kmap \<Rightarrow> bpf_val \<Rightarrow> kernel \<Rightarrow> ebpf_error option \<times> kernel" where
  "k_delete h key s =
     (if kind h = ArrayMap then (Some (ErrSys ''EINVAL''), s)
      else if k_contents h s (norm_key key) = None then (Some ErrKeyNotExist, s)
      else (None, s\<lparr>entries := go_del (entries s) (h, norm_key key)\<rparr>))"

definition pinned :: "string \<Rightarrow> kmap option" where
  "pinned path =
     find (\<lambda>h. path = ''/sys/fs/bpf/ai_ida/'' @ pin h)
       [REPUTATION_MAP, PORT_GATE_MAP, RATE_LIMIT_MAP, CONFIG_MAP, EVENTS]"

definition k_load :: "string \<Rightarrow> kernel \<Rightarrow> (ebpf_error + kmap) \<times> kernel" where
  "k_load path s =
     (case pinned path of
        None \<Rightarrow> (Inl (ErrSys ''ENOENT''), s)
      | Some h \<Rightarrow> (Inr h, s\<lparr>descriptors := h # descriptors s\<rparr>))"

definition k_close :: "kmap \<Rightarrow> kernel \<Rightarrow> kernel" where
  "k_close h s = s\<lparr>descriptors := remove1 h (descriptors s)\<rparr>"

definition kernel_api :: "(kmap, kernel) ebpf_api" where
  "kernel_api = \<lparr>LoadPinnedMap = k_load, Map_Close = k_close, Map_Put = k_put,
                 Map_Lookup = k_lookup, Map_Delete = k_delete\<rparr>"

lemma k_contents_put:
  "k_contents h' (s\<lparr>entries := go_set (entries s) (h, key) v\<rparr>) =
     (if h' = h then (k_contents h s)(key \<mapsto> v) else k_contents h' s)"
  by (auto simp: k_contents_def fun_eq_iff)

lemma k_contents_del:
  "kind h \<noteq> ArrayMap \<Longrightarrow>
   k_contents h' (s\<lparr>entries := go_del (entries s) (h, key)\<rparr>) =
     (if h' = h then (k_contents h s)(key := None) else k_contents h' s)"
  by (auto simp: k_contents_def fun_eq_iff go_get_del)

lemma k_contents_descriptors [simp]: "k_contents h (s\<lparr>descriptors := d\<rparr>) = k_contents h s"
  by (simp add: k_contents_def fun_eq_iff)

interpretation kern: ebpf_maps kernel_api k_contents ksize vsize "\<lambda>s. mset (descriptors s)"
proof unfold_locales
  show "Map_Put kernel_api h key v s = (None, s') \<Longrightarrow>
      val_size key = ksize h \<and> val_size v = vsize h \<and> prefix_ok key \<and>
      k_contents h' s' = (if h' = h then (k_contents h s)(norm_key key \<mapsto> v) else k_contents h' s)"
    for h key v s s' h'
    by (auto simp: kernel_api_def k_put_def k_contents_put split: if_splits)
  show "Map_Delete kernel_api h key s = (None, s') \<Longrightarrow>
      k_contents h s (norm_key key) \<noteq> None \<and>
      k_contents h' s' = (if h' = h then (k_contents h s)(norm_key key := None) else k_contents h' s)"
    for h key s s' h'
    by (auto simp: kernel_api_def k_delete_def k_contents_del split: if_splits)
qed (auto simp: kernel_api_def k_put_def k_lookup_def k_delete_def k_load_def k_close_def
       split: if_splits option.splits bpf_val.splits)

end
