(* ===== verification/MapManager.thy ===== *)
theory MapManager
  imports EbpfApi
begin

text \<open>
  \<^verbatim>\<open>src/user-space/pkg/engine/map_manager.go\<close>: opening the pinned maps with clean-up on
  failure, and the operations on them.  Every operation takes the calls of the eBPF package
  and the kernel state and returns the error, if any, and the new kernel state.
\<close>

section \<open>State and errors\<close>

definition BpfFsPath :: string where
  "BpfFsPath = ''/sys/fs/bpf/ai_ida''"

definition Join_path :: "string \<Rightarrow> string \<Rightarrow> string" where
  "Join_path dir name = dir @ ''/'' @ name"

text \<open>A nil map pointer is \<open>None\<close>; calling one of its methods panics.\<close>

record 'h MapManager =
  reputationMap :: "'h option"
  portGateMap :: "'h option"
  rateLimitMap :: "'h option"
  configMap :: "'h option"
  eventsMap :: "'h option"

datatype engine_error =
    ErrOpen string ebpf_error
  | ErrConfigLogLevel LogSeverity ebpf_error
  | ErrLookupLogLevel ebpf_error
  | ErrKey types_error
  | ErrInsertIP ebpf_error
  | ErrRemoveIP ebpf_error
  | ErrConfigDryRun ebpf_error
  | ErrLookupDryRun ebpf_error
  | ErrPortStatus u16 ebpf_error
  | ErrBlockPort u16 ebpf_error
  | ErrUnblockPort u16 ebpf_error
  | NilMapPanic

section \<open>Opening and closing\<close>

definition LoadPinnedMaps :: "('h, 'k) ebpf_api \<Rightarrow> 'k \<Rightarrow> (engine_error + 'h MapManager) \<times> 'k" where
  "LoadPinnedMaps api s0 =
     (case LoadPinnedMap api (Join_path BpfFsPath ''reputation_map'') s0 of
        (Inl e, s1) \<Rightarrow> (Inl (ErrOpen ''reputation_map'' e), s1)
      | (Inr repMap, s1) \<Rightarrow>
     (case LoadPinnedMap api (Join_path BpfFsPath ''port_gate_map'') s1 of
        (Inl e, s2) \<Rightarrow> (Inl (ErrOpen ''port_gate_map'' e), Map_Close api repMap s2)
      | (Inr portMap, s2) \<Rightarrow>
     (case LoadPinnedMap api (Join_path BpfFsPath ''rate_limit_map'') s2 of
        (Inl e, s3) \<Rightarrow> (Inl (ErrOpen ''rate_limit_map'' e),
                         Map_Close api portMap (Map_Close api repMap s3))
      | (Inr rateMap, s3) \<Rightarrow>
     (case LoadPinnedMap api (Join_path BpfFsPath ''config_map'') s3 of
        (Inl e, s4) \<Rightarrow> (Inl (ErrOpen ''config_map'' e),
                         Map_Close api rateMap (Map_Close api portMap (Map_Close api repMap s4)))
      | (Inr cfgMap, s4) \<Rightarrow>
     (case LoadPinnedMap api (Join_path BpfFsPath ''events'') s4 of
        (Inl e, s5) \<Rightarrow> (Inl (ErrOpen ''events'' e),
                         Map_Close api cfgMap (Map_Close api rateMap
                           (Map_Close api portMap (Map_Close api repMap s5))))
      | (Inr evMap, s5) \<Rightarrow>
          (Inr \<lparr>reputationMap = Some repMap, portGateMap = Some portMap, rateLimitMap = Some rateMap,
                configMap = Some cfgMap, eventsMap = Some evMap\<rparr>, s5))))))"

definition close_if :: "('h, 'k) ebpf_api \<Rightarrow> 'h option \<Rightarrow> 'k \<Rightarrow> 'k" where
  "close_if api h s = (case h of None \<Rightarrow> s | Some h \<Rightarrow> Map_Close api h s)"

definition Close :: "('h, 'k) ebpf_api \<Rightarrow> 'h MapManager \<Rightarrow> 'k \<Rightarrow> 'k" where
  "Close api m s =
     close_if api (eventsMap m) (close_if api (configMap m) (close_if api (rateLimitMap m)
       (close_if api (portGateMap m) (close_if api (reputationMap m) s))))"

definition GetEventsMap :: "'h MapManager \<Rightarrow> 'h option" where
  "GetEventsMap m = eventsMap m"

section \<open>Operations\<close>

text \<open>A \<open>Put\<close> whose error is wrapped; the shape of all updates below.\<close>

definition put_wrap ::
    "('h, 'k) ebpf_api \<Rightarrow> 'h option \<Rightarrow> bpf_val \<Rightarrow> bpf_val \<Rightarrow> (ebpf_error \<Rightarrow> engine_error) \<Rightarrow>
     'k \<Rightarrow> engine_error option \<times> 'k" where
  "put_wrap api h key v wrap s =
     (case h of None \<Rightarrow> (Some NilMapPanic, s)
      | Some h \<Rightarrow> (case Map_Put api h key v s of (err, s') \<Rightarrow> (map_option wrap err, s')))"

definition SetLogLevel ::
    "('h, 'k) ebpf_api \<Rightarrow> 'h MapManager \<Rightarrow> LogSeverity \<Rightarrow> 'k \<Rightarrow> engine_error option \<times> 'k" where
  "SetLogLevel api m level s =
     put_wrap api (configMap m) (VU32 0) (VU32 (ucast level)) (ErrConfigLogLevel level) s"

definition GetLogLevel :: "('h, 'k) ebpf_api \<Rightarrow> 'h MapManager \<Rightarrow> 'k \<Rightarrow> engine_error + LogSeverity" where
  "GetLogLevel api m s =
     (case configMap m of None \<Rightarrow> Inl NilMapPanic
      | Some h \<Rightarrow> (case Map_Lookup api h (VU32 0) s of
                    Inl e \<Rightarrow> Inl (ErrLookupLogLevel e) | Inr val \<Rightarrow> Inr (ucast val)))"

definition BlockIP ::
    "('h, 'k) ebpf_api \<Rightarrow> 'h MapManager \<Rightarrow> string \<Rightarrow> 'k \<Rightarrow> engine_error option \<times> 'k" where
  "BlockIP api m cidr s =
     (case NewLpmKey cidr of Inl e \<Rightarrow> (Some (ErrKey e), s)
      | Inr key \<Rightarrow> put_wrap api (reputationMap m) (VLpm key) (VU32 1) ErrInsertIP s)"

definition UnblockIP ::
    "('h, 'k) ebpf_api \<Rightarrow> 'h MapManager \<Rightarrow> string \<Rightarrow> 'k \<Rightarrow> engine_error option \<times> 'k" where
  "UnblockIP api m cidr s =
     (case NewLpmKey cidr of Inl e \<Rightarrow> (Some (ErrKey e), s)
      | Inr key \<Rightarrow>
          (case reputationMap m of None \<Rightarrow> (Some NilMapPanic, s)
           | Some h \<Rightarrow>
               (case Map_Delete api h (VLpm key) s of
                  (None, s') \<Rightarrow> (None, s')
                | (Some e, s') \<Rightarrow> if e = ErrKeyNotExist then (None, s') else (Some (ErrRemoveIP e), s'))))"

definition SetDryRun ::
    "('h, 'k) ebpf_api \<Rightarrow> 'h MapManager \<Rightarrow> bool \<Rightarrow> 'k \<Rightarrow> engine_error option \<times> 'k" where
  "SetDryRun api m enabled s =
     put_wrap api (configMap m) (VU32 1) (VU32 (if enabled then 1 else 0)) ErrConfigDryRun s"

definition GetDryRun :: "('h, 'k) ebpf_api \<Rightarrow> 'h MapManager \<Rightarrow> 'k \<Rightarrow> engine_error + bool" where
  "GetDryRun api m s =
     (case configMap m of None \<Rightarrow> Inl NilMapPanic
      | Some h \<Rightarrow> (case Map_Lookup api h (VU32 1) s of
                    Inl e \<Rightarrow> if e = ErrKeyNotExist then Inr False else Inl (ErrLookupDryRun e)
                  | Inr val \<Rightarrow> Inr (val = 1)))"

definition SetPortStatus ::
    "('h, 'k) ebpf_api \<Rightarrow> 'h MapManager \<Rightarrow> u16 \<Rightarrow> bool \<Rightarrow> 'k \<Rightarrow> engine_error option \<times> 'k" where
  "SetPortStatus api m port allow s =
     put_wrap api (portGateMap m) (VU16 port) (VU8 (if allow then 1 else 0)) (ErrPortStatus port) s"

definition BlockPort ::
    "('h, 'k) ebpf_api \<Rightarrow> 'h MapManager \<Rightarrow> u16 \<Rightarrow> 'k \<Rightarrow> engine_error option \<times> 'k" where
  "BlockPort api m port s =
     put_wrap api (portGateMap m) (VU32 (ucast port)) (VU8 2) (ErrBlockPort port) s"

definition UnblockPort ::
    "('h, 'k) ebpf_api \<Rightarrow> 'h MapManager \<Rightarrow> u16 \<Rightarrow> 'k \<Rightarrow> engine_error option \<times> 'k" where
  "UnblockPort api m port s =
     put_wrap api (portGateMap m) (VU32 (ucast port)) (VU8 0) (ErrUnblockPort port) s"

section \<open>Lemmas under the contract\<close>

context ebpf_maps
begin

lemma put_wrap_ok:
  assumes "put_wrap api (Some h) key v wrap s = (None, s')"
  shows "contents h' s' = (if h' = h then (contents h s)(norm_key key \<mapsto> v) else contents h' s)"
proof -
  have "Map_Put api h key v s = (None, s')"
    using assms by (cases "Map_Put api h key v s") (auto simp: put_wrap_def)
  then show ?thesis using put_ok by blast
qed

lemma put_wrap_err:
  assumes "put_wrap api h key v wrap s = (Some e, s')"
  shows "contents h' s' = contents h' s"
proof (cases h)
  case None
  then show ?thesis using assms by (simp add: put_wrap_def)
next
  case (Some a)
  then obtain e' where "Map_Put api a key v s = (Some e', s')"
    using assms by (cases "Map_Put api a key v s") (auto simp: put_wrap_def)
  then show ?thesis by (rule put_err)
qed

text \<open>The reputation entry of an address or prefix.\<close>

lemma BlockIP_ok:
  assumes "reputationMap m = Some h" and "BlockIP api m cidr s = (None, s')"
  shows "\<exists>key. NewLpmKey cidr = Inr key \<and>
           contents h' s' = (if h' = h then (contents h s)(norm_key (VLpm key) \<mapsto> VU32 1)
                             else contents h' s)"
  using assms put_wrap_ok [of h _ _ _ s s' h']
  by (auto simp: BlockIP_def split: sum.splits)

lemma BlockIP_err:
  assumes "BlockIP api m cidr s = (Some e, s')"
  shows "contents h' s' = contents h' s"
  using assms put_wrap_err [of "reputationMap m" _ _ _ s e s' h']
  by (auto simp: BlockIP_def split: sum.splits)

lemma UnblockIP_ok:
  assumes "reputationMap m = Some h" and "UnblockIP api m cidr s = (None, s')"
  shows "\<exists>key. NewLpmKey cidr = Inr key \<and>
           contents h' s' = (if h' = h then (contents h s)(norm_key (VLpm key) := None)
                             else contents h' s)"
proof -
  obtain key where key: "NewLpmKey cidr = Inr key"
    using assms by (auto simp: UnblockIP_def split: sum.splits)
  with assms consider "Map_Delete api h (VLpm key) s = (None, s')"
    | "Map_Delete api h (VLpm key) s = (Some ErrKeyNotExist, s')"
    by (auto simp: UnblockIP_def split: prod.splits option.splits if_splits)
  then show ?thesis
  proof cases
    case 1
    then show ?thesis using key delete_ok [of h "VLpm key" s s'] by blast
  next
    case 2
    then have "contents h s (norm_key (VLpm key)) = None" by (rule delete_missing)
    then have "(contents h s)(norm_key (VLpm key) := None) = contents h s"
      by (simp add: fun_upd_idem)
    then show ?thesis using key delete_err [OF 2] by auto
  qed
qed

lemma UnblockIP_err:
  assumes "UnblockIP api m cidr s = (Some e, s')"
  shows "contents h' s' = contents h' s"
proof (cases "\<exists>key h e'. Map_Delete api h (VLpm key) s = (Some e', s')")
  case True
  then show ?thesis using delete_err by blast
next
  case False
  then show ?thesis
    using assms by (auto simp: UnblockIP_def split: sum.splits option.splits prod.splits if_splits)
qed

end

end
