(* ===== verification/MapProps.thy ===== *)
theory MapProps
  imports MapManager LpmKeys
begin

text \<open>
  Properties of the map manager under the contract of the eBPF package (locale \<open>ebpf_maps\<close>):
  what each operation changes in the kernel maps, on success and on error, and that opening
  the maps does not leak descriptors.  The witnesses run on the maps of \<^verbatim>\<open>maps.rs\<close>.
\<close>

section \<open>Lemmas\<close>

context ebpf_maps
begin

lemma BlockIP_effect:
  assumes "reputationMap m = Some h" and "NewLpmKey cidr = Inr key"
  shows "contents h' (snd (BlockIP api m cidr s)) =
           (if fst (BlockIP api m cidr s) = None \<and> h' = h
            then (contents h s)(norm_key (VLpm key) \<mapsto> VU32 1) else contents h' s)"
proof (cases "BlockIP api m cidr s")
  case (Pair err s')
  then show ?thesis
    using BlockIP_ok [OF assms(1), of cidr s s' h'] BlockIP_err [of m cidr s _ s' h'] assms(2)
    by (cases err) auto
qed

lemma UnblockIP_effect:
  assumes "reputationMap m = Some h" and "NewLpmKey cidr = Inr key"
  shows "contents h' (snd (UnblockIP api m cidr s)) =
           (if fst (UnblockIP api m cidr s) = None \<and> h' = h
            then (contents h s)(norm_key (VLpm key) := None) else contents h' s)"
proof (cases "UnblockIP api m cidr s")
  case (Pair err s')
  then show ?thesis
    using UnblockIP_ok [OF assms(1), of cidr s s' h'] UnblockIP_err [of m cidr s _ s' h'] assms(2)
    by (cases err) auto
qed

lemma put_wrap_effect:
  "contents h' (snd (put_wrap api (Some h) key v wrap s)) =
     (if fst (put_wrap api (Some h) key v wrap s) = None \<and> h' = h
      then (contents h s)(norm_key key \<mapsto> v) else contents h' s)"
  using put_wrap_ok [of h key v wrap s] put_wrap_err [of "Some h" key v wrap s]
  by (cases "put_wrap api (Some h) key v wrap s") (metis fst_conv snd_conv not_None_eq)

text \<open>Closing what was opened, in any order.\<close>

lemma load_cases:
  obtains (err) e s' where "LoadPinnedMap api p s = (Inl e, s')" "opened s' = opened s"
      "\<And>h'. contents h' s' = contents h' s"
    | (ok) h s' where "LoadPinnedMap api p s = (Inr h, s')" "opened s' = add_mset h (opened s)"
      "\<And>h'. contents h' s' = contents h' s"
  using load_ok [of p s] load_err [of p s]
  by (cases "LoadPinnedMap api p s"; cases "fst (LoadPinnedMap api p s)") auto

lemma LoadPinnedMaps_cases:
  obtains (err) e s' where "LoadPinnedMaps api s = (Inl e, s')" "opened s' = opened s"
      "\<And>h'. contents h' s' = contents h' s"
    | (ok) a b c d f s' where
      "LoadPinnedMaps api s =
         (Inr \<lparr>reputationMap = Some a, portGateMap = Some b, rateLimitMap = Some c,
               configMap = Some d, eventsMap = Some f\<rparr>, s')"
      "opened s' = opened s + {#a, b, c, d, f#}" "\<And>h'. contents h' s' = contents h' s"
proof -
  let ?p = "Join_path BpfFsPath"
  show thesis
  proof (cases s rule: load_cases [where p = "?p ''reputation_map''"])
    case err
    then show ?thesis using that(1) by (simp add: LoadPinnedMaps_def)
  next
    case A: (ok a s1)
    show ?thesis
    proof (cases s1 rule: load_cases [where p = "?p ''port_gate_map''"])
      case err
      then show ?thesis using that(1) A by (simp add: LoadPinnedMaps_def close_opened close_contents)
    next
      case B: (ok b s2)
      show ?thesis
      proof (cases s2 rule: load_cases [where p = "?p ''rate_limit_map''"])
        case err
        then show ?thesis using that(1) A B
          by (simp add: LoadPinnedMaps_def close_opened close_contents)
      next
        case C: (ok c s3)
        show ?thesis
        proof (cases s3 rule: load_cases [where p = "?p ''config_map''"])
          case err
          then show ?thesis using that(1) A B C
            by (simp add: LoadPinnedMaps_def close_opened close_contents)
        next
          case D: (ok d s4)
          show ?thesis
            by (cases s4 rule: load_cases [where p = "?p ''events''"])
               (use that A B C D in \<open>simp_all add: LoadPinnedMaps_def close_opened close_contents\<close>)
        qed
      qed
    qed
  qed
qed

end

text \<open>The manager the kernel's own maps give, and a state for the witnesses.\<close>

definition kernel_mgr :: "kmap MapManager" where
  "kernel_mgr = \<lparr>reputationMap = Some REPUTATION_MAP, portGateMap = Some PORT_GATE_MAP,
     rateLimitMap = Some RATE_LIMIT_MAP, configMap = Some CONFIG_MAP, eventsMap = Some EVENTS\<rparr>"

lemma kernel_contract: "ebpf_maps kernel_api k_contents ksize vsize (\<lambda>s. mset (descriptors s))"
  by (rule kern.ebpf_maps_axioms)

lemma example_key: "NewLpmKey (dotted 10 0 0 1 @ ''/'' @ dec_string 24) =
    Inr \<lparr>PrefixLen = of_nat 24, KeyAddr = [10, 0, 0, 1]\<rparr>"
  by (rule NewLpmKey_prefix) simp

section \<open>Properties\<close>

text \<open>
  (C33) \<open>BlockIP\<close> and \<open>UnblockIP\<close> in full, for a CIDR string that parses: on success exactly the
  entry of that prefix in the reputation map is set to 1, or removed (also when it was
  already absent); on error no entry of any map changes.
\<close>

theorem reputation_updates:
  assumes "ebpf_maps api contents key_size value_size opened"
    and "reputationMap m = Some h" and "NewLpmKey cidr = Inr key"
  shows "contents h' (snd (BlockIP api m cidr s)) =
           (if fst (BlockIP api m cidr s) = None \<and> h' = h
            then (contents h s)(norm_key (VLpm key) \<mapsto> VU32 1) else contents h' s) \<and>
         contents h' (snd (UnblockIP api m cidr s)) =
           (if fst (UnblockIP api m cidr s) = None \<and> h' = h
            then (contents h s)(norm_key (VLpm key) := None) else contents h' s)"
  using ebpf_maps.BlockIP_effect [OF assms] ebpf_maps.UnblockIP_effect [OF assms] by blast

theorem reputation_updates_witness:
  "k_contents REPUTATION_MAP
     (snd (BlockIP kernel_api kernel_mgr (dotted 10 0 0 1 @ ''/'' @ dec_string 24) kernel_boot)) =
   (if fst (BlockIP kernel_api kernel_mgr (dotted 10 0 0 1 @ ''/'' @ dec_string 24) kernel_boot) = None \<and>
       REPUTATION_MAP = REPUTATION_MAP
    then (k_contents REPUTATION_MAP kernel_boot)
           (norm_key (VLpm \<lparr>PrefixLen = of_nat 24, KeyAddr = [10, 0, 0, 1]\<rparr>) \<mapsto> VU32 1)
    else k_contents REPUTATION_MAP kernel_boot)"
  using reputation_updates [OF kernel_contract _ example_key, of kernel_mgr REPUTATION_MAP
      REPUTATION_MAP kernel_boot] by (simp add: kernel_mgr_def)

text \<open>
  (C34) Opening the maps never leaks a descriptor: if any of the five cannot be opened, the
  ones opened before are all closed again; and \<open>Close\<close> on the manager a successful call
  returns restores the set of open descriptors.  No map entry changes.
\<close>

theorem load_no_leak:
  assumes "ebpf_maps api contents key_size value_size opened"
  shows "case LoadPinnedMaps api s of
           (Inl e, s') \<Rightarrow> opened s' = opened s \<and> contents h s' = contents h s
         | (Inr m, s') \<Rightarrow> opened (Close api m s') = opened s \<and>
                          contents h (Close api m s') = contents h s \<and>
                          (\<exists>f. eventsMap m = Some f)"
proof -
  note maps = ebpf_maps.close_opened [OF assms] ebpf_maps.close_contents [OF assms]
  show ?thesis
    by (cases s rule: ebpf_maps.LoadPinnedMaps_cases [OF assms])
       (simp_all add: Close_def close_if_def maps)
qed

theorem load_no_leak_witness:
  "case LoadPinnedMaps kernel_api kernel_boot of
     (Inl e, s') \<Rightarrow> mset (descriptors s') = mset (descriptors kernel_boot) \<and>
                    k_contents CONFIG_MAP s' = k_contents CONFIG_MAP kernel_boot
   | (Inr m, s') \<Rightarrow> mset (descriptors (Close kernel_api m s')) = mset (descriptors kernel_boot) \<and>
                    k_contents CONFIG_MAP (Close kernel_api m s') = k_contents CONFIG_MAP kernel_boot \<and>
                    (\<exists>f. eventsMap m = Some f)"
  by (rule load_no_leak [OF kernel_contract])

text \<open>
  The configuration reads back what was written, and its two settings are independent: a
  successful \<open>SetLogLevel\<close> makes \<open>GetLogLevel\<close> return that level and keeps the dry-run flag,
  a successful \<open>SetDryRun\<close> makes \<open>GetDryRun\<close> return that flag and keeps the level.
\<close>

theorem config_roundtrip:
  assumes "ebpf_maps api contents key_size value_size opened" and "configMap m = Some h"
    and "SetLogLevel api m level s = (None, s1)" and "SetDryRun api m flag s = (None, s2)"
    and "GetLogLevel api m s = Inr level0" and "GetDryRun api m s = Inr flag0"
    and "contents h s (VU32 1) \<noteq> None"
  shows "GetLogLevel api m s1 = Inr level \<and> GetDryRun api m s1 = Inr flag0 \<and>
         GetDryRun api m s2 = Inr flag \<and> GetLogLevel api m s2 = Inr level0"
proof -
  note put = ebpf_maps.put_wrap_ok [OF assms(1)]
  have s1: "contents h s1 = (contents h s)(VU32 0 \<mapsto> VU32 (ucast level))"
    using put [of h "VU32 0" _ _ s s1 h] assms(2,3) by (simp add: SetLogLevel_def)
  have s2: "contents h s2 = (contents h s)(VU32 1 \<mapsto> VU32 (if flag then 1 else 0))"
    using put [of h "VU32 1" _ _ s s2 h] assms(2,4) by (simp add: SetDryRun_def)
  obtain l where l: "contents h s (VU32 0) = Some (VU32 l)" "level0 = ucast l"
    using assms(2,5) ebpf_maps.lookup_value [OF assms(1), of h "VU32 0" s]
    by (auto simp: GetLogLevel_def split: sum.splits)
  obtain d where d: "contents h s (VU32 1) = Some (VU32 d)" "flag0 = (d = 1)"
    using assms(2,6,7) ebpf_maps.lookup_value [OF assms(1), of h "VU32 1" s]
      ebpf_maps.lookup_missing [OF assms(1), of h "VU32 1" s]
    by (auto simp: GetDryRun_def split: sum.splits if_splits)
  have look: "contents h s' (VU32 i) = Some (VU32 v) \<Longrightarrow> Map_Lookup api h (VU32 i) s' = Inr v" for s' i v
    using ebpf_maps.lookup_found [OF assms(1), of h s' "VU32 i" v] by simp
  have "Map_Lookup api h (VU32 0) s1 = Inr (ucast level)" "Map_Lookup api h (VU32 1) s1 = Inr d"
    "Map_Lookup api h (VU32 1) s2 = Inr (if flag then 1 else 0)" "Map_Lookup api h (VU32 0) s2 = Inr l"
    using s1 s2 l(1) d(1) by (intro look; simp)+
  then show ?thesis
    using assms(2) l(2) d(2) by (simp add: GetLogLevel_def GetDryRun_def)
qed

lemma kernel_config_example:
  "\<exists>s1 s2. SetLogLevel kernel_api kernel_mgr 3 kernel_boot = (None, s1) \<and>
     SetDryRun kernel_api kernel_mgr True kernel_boot = (None, s2) \<and>
     GetLogLevel kernel_api kernel_mgr kernel_boot = Inr 0 \<and>
     GetDryRun kernel_api kernel_mgr kernel_boot = Inr False \<and>
     k_contents CONFIG_MAP kernel_boot (VU32 1) \<noteq> None"
  by (simp add: SetLogLevel_def SetDryRun_def GetLogLevel_def GetDryRun_def put_wrap_def kernel_mgr_def
        kernel_api_def k_put_def k_lookup_def k_contents_def kernel_boot_def CONFIG_MAP_def zero_val_def)

theorem config_roundtrip_witness:
  "\<exists>s1 s2. GetLogLevel kernel_api kernel_mgr s1 = Inr 3 \<and> GetDryRun kernel_api kernel_mgr s1 = Inr False \<and>
     GetDryRun kernel_api kernel_mgr s2 = Inr True \<and> GetLogLevel kernel_api kernel_mgr s2 = Inr 0"
proof -
  obtain s1 s2 where *: "SetLogLevel kernel_api kernel_mgr 3 kernel_boot = (None, s1)"
    "SetDryRun kernel_api kernel_mgr True kernel_boot = (None, s2)"
    "GetLogLevel kernel_api kernel_mgr kernel_boot = Inr 0"
    "GetDryRun kernel_api kernel_mgr kernel_boot = Inr False"
    "k_contents CONFIG_MAP kernel_boot (VU32 1) \<noteq> None"
    using kernel_config_example by blast
  have "configMap kernel_mgr = Some CONFIG_MAP" by (simp add: kernel_mgr_def)
  from config_roundtrip [OF kernel_contract this *] show ?thesis by blast
qed

text \<open>
  (C35) \<open>SetPortStatus\<close> cannot work on the port gate: the map has 4-byte keys and the operation
  passes a 2-byte port, so it fails for every port and status and changes nothing, whereas
  \<open>BlockPort\<close> and \<open>UnblockPort\<close> pass a key of the right size.
\<close>

theorem SetPortStatus_fails:
  assumes "ebpf_maps api contents key_size value_size opened"
    and "portGateMap m = Some h" and "key_size h = 4"
  shows "\<exists>e. fst (SetPortStatus api m port allow s) = Some (ErrPortStatus port e) \<and>
           contents h' (snd (SetPortStatus api m port allow s)) = contents h' s"
proof -
  let ?put = "Map_Put api h (VU16 port) (VU8 (if allow then 1 else 0)) s"
  have "fst ?put \<noteq> None"
    using ebpf_maps.put_unsized [OF assms(1), of "VU16 port" h] assms(3) by simp
  then obtain e s' where "?put = (Some e, s')" by (cases ?put) auto
  then show ?thesis
    using ebpf_maps.put_err [OF assms(1)] assms(2) by (auto simp: SetPortStatus_def put_wrap_def)
qed

theorem SetPortStatus_fails_witness:
  "\<exists>e. fst (SetPortStatus kernel_api kernel_mgr 22 True kernel_boot) = Some (ErrPortStatus 22 e) \<and>
     k_contents PORT_GATE_MAP (snd (SetPortStatus kernel_api kernel_mgr 22 True kernel_boot)) =
     k_contents PORT_GATE_MAP kernel_boot"
  by (rule SetPortStatus_fails [OF kernel_contract, where h = PORT_GATE_MAP])
     (simp_all add: kernel_mgr_def PORT_GATE_MAP_def)

text \<open>
  \<open>BlockPort\<close> and \<open>UnblockPort\<close>: on success exactly the port's entry becomes 2 (blocked) or
  0, the entries of all other ports and all other maps stay; on error nothing changes.
\<close>

theorem port_gate_updates:
  assumes "ebpf_maps api contents key_size value_size opened" and "portGateMap m = Some h"
  shows "contents h' (snd (BlockPort api m port s)) =
           (if fst (BlockPort api m port s) = None \<and> h' = h
            then (contents h s)(VU32 (ucast port) \<mapsto> VU8 2) else contents h' s) \<and>
         contents h' (snd (UnblockPort api m port s)) =
           (if fst (UnblockPort api m port s) = None \<and> h' = h
            then (contents h s)(VU32 (ucast port) \<mapsto> VU8 0) else contents h' s)"
  using ebpf_maps.put_wrap_effect [OF assms(1), of h' h "VU32 (ucast port)"] assms(2)
  by (simp add: BlockPort_def UnblockPort_def)

theorem port_gate_updates_witness:
  "k_contents PORT_GATE_MAP (snd (BlockPort kernel_api kernel_mgr 22 kernel_boot)) =
     (if fst (BlockPort kernel_api kernel_mgr 22 kernel_boot) = None \<and> PORT_GATE_MAP = PORT_GATE_MAP
      then (k_contents PORT_GATE_MAP kernel_boot)(VU32 (ucast (22 :: u16)) \<mapsto> VU8 2)
      else k_contents PORT_GATE_MAP kernel_boot)"
  using port_gate_updates [OF kernel_contract, of kernel_mgr PORT_GATE_MAP PORT_GATE_MAP 22 kernel_boot]
  by (simp add: kernel_mgr_def)

text \<open>
  Blocking an IPv4-mapped IPv6 prefix never works: the string passes the IPv4 check of
  \<open>NewLpmKey\<close>, but its prefix length is counted over 128 bits and the trie refuses it.
\<close>

theorem BlockIP_mapped_fails:
  assumes "ebpf_maps api contents key_size value_size opened" and "reputationMap m = Some h"
  shows "\<exists>e. fst (BlockIP api m ''::ffff:10.0.0.0/104'' s) = Some (ErrInsertIP e)"
proof -
  let ?key = "VLpm \<lparr>PrefixLen = 104, KeyAddr = [10, 0, 0, 0]\<rparr>"
  have "fst (Map_Put api h ?key (VU32 1) s) \<noteq> None"
    using ebpf_maps.put_long_prefix [OF assms(1), of ?key] by simp
  then show ?thesis
    using assms(2) NewLpmKey_mapped_prefix
    by (cases "Map_Put api h ?key (VU32 1) s") (auto simp: BlockIP_def put_wrap_def)
qed

theorem BlockIP_mapped_fails_witness:
  "\<exists>e. fst (BlockIP kernel_api kernel_mgr ''::ffff:10.0.0.0/104'' kernel_boot) = Some (ErrInsertIP e)"
  by (rule BlockIP_mapped_fails [OF kernel_contract]) (simp add: kernel_mgr_def)

end
