(* ===== verification/Feedback.thy ===== *)
theory Feedback
  imports MapManager Inference
begin

text \<open>
  \<^verbatim>\<open>src/user-space/pkg/engine/feedback.go\<close>: the registry of safe networks and the feedback
  controller.  The netlink package and the file \<^verbatim>\<open>/etc/resolv.conf\<close> are the arguments of the
  discovery functions.  \<open>handle\<close> and \<open>runJanitor\<close> take the current time, the controller and
  the kernel state and return both; the console output and the optional hooks are the
  notices they return.  Times are nanoseconds.
\<close>

section \<open>Constants and alerts\<close>

definition BlockTTL :: int where "BlockTTL = 300 * 1000000000"
definition janitorInterval :: int where "janitorInterval = 30 * 1000000000"

record ThreatAlert =
  alert_SrcIP :: string
  alert_Attack :: AttackType
  alert_Probability :: real
  DetectedAt :: int

section \<open>Safe networks\<close>

text \<open>\<open>None\<close> is the panic on a string that does not parse.\<close>

fun mustParseCIDRs :: "string list \<Rightarrow> IPNet list option" where
  "mustParseCIDRs [] = Some []"
| "mustParseCIDRs (c # cs) =
     (case ParseCIDR c of None \<Rightarrow> None
      | Some (_, ipNet) \<Rightarrow> map_option ((#) ipNet) (mustParseCIDRs cs))"

definition staticSafeNetworks :: "IPNet list option" where
  "staticSafeNetworks = mustParseCIDRs [''127.0.0.0/8'', ''255.255.255.255/32'', ''224.0.0.0/4'']"

definition wellKnownPublicDNS :: "IPNet list option" where
  "wellKnownPublicDNS = mustParseCIDRs [''8.8.8.8/32'', ''8.8.4.4/32'', ''1.1.1.1/32'', ''1.0.0.1/32'']"

definition hostCIDR :: "IP \<Rightarrow> IPNet" where
  "hostCIDR ip =
     (if To4 ip \<noteq> [] then \<lparr>net_IP = To4 ip, net_Mask = CIDRMask 32 32\<rparr>
      else \<lparr>net_IP = ip, net_Mask = CIDRMask 128 128\<rparr>)"

text \<open>What the process can ask of its host; errors are strings, a nil address is empty.\<close>

record route =
  Dst :: "IPNet option"
  Gw :: IP

record 'l host_env =
  RouteList :: "string + route list"
  LinkList :: "string + 'l list"
  AddrList :: "'l \<Rightarrow> string + IPNet option list"
  resolv_conf :: "string option"

fun first_gateway :: "route list \<Rightarrow> string + IP" where
  "first_gateway [] = Inl ''no default route found''"
| "first_gateway (r # rs) =
     (if Dst r = None \<and> Gw r \<noteq> [] then Inr (Gw r) else first_gateway rs)"

definition discoverDefaultGateway :: "'l host_env \<Rightarrow> string + IP" where
  "discoverDefaultGateway env =
     (case RouteList env of Inl e \<Rightarrow> Inl (''netlink route list failed: '' @ e)
      | Inr routes \<Rightarrow> first_gateway routes)"

definition link_subnets :: "'l host_env \<Rightarrow> 'l \<Rightarrow> IPNet list" where
  "link_subnets env link =
     (case AddrList env link of Inl _ \<Rightarrow> []
      | Inr addrs \<Rightarrow>
          concat (map (\<lambda>addr. case addr of None \<Rightarrow> []
                              | Some n \<Rightarrow> if IsLoopback (net_IP n) then [] else [n]) addrs))"

definition discoverLocalSubnets :: "'l host_env \<Rightarrow> string + IPNet list" where
  "discoverLocalSubnets env =
     (case LinkList env of Inl e \<Rightarrow> Inl (''netlink link list failed: '' @ e)
      | Inr links \<Rightarrow> Inr (concat (map (link_subnets env) links)))"

text \<open>
  \<open>bufio.Scanner\<close> over lines: a final carriage return is dropped, and scanning stops at a line
  that does not fit its 64 KiB buffer.  \<open>strings.Fields\<close> splits at white space.
\<close>

function split_lines :: "string \<Rightarrow> string list" where
  "split_lines s =
     (if s = [] then []
      else takeWhile (\<lambda>c. c \<noteq> CHR 0x0A) s #
           split_lines (drop 1 (dropWhile (\<lambda>c. c \<noteq> CHR 0x0A) s)))"
  by pat_completeness auto
termination
proof (relation "measure length")
  fix s :: string
  assume "s \<noteq> []"
  moreover have "length (dropWhile (\<lambda>c. c \<noteq> CHR 0x0A) s) \<le> length s" by (rule length_dropWhile_le)
  ultimately show "(drop 1 (dropWhile (\<lambda>c. c \<noteq> CHR 0x0A) s), s) \<in> measure length"
    by (cases s) (auto simp: le_imp_less_Suc)
qed simp

definition drop_cr :: "string \<Rightarrow> string" where
  "drop_cr l = (if l \<noteq> [] \<and> last l = CHR 0x0D then butlast l else l)"

definition scan_lines :: "string \<Rightarrow> string list" where
  "scan_lines s = map drop_cr (takeWhile (\<lambda>l. length l < 65536) (split_lines s))"

function Fields :: "string \<Rightarrow> string list" where
  "Fields s =
     (let t = dropWhile is_space_char s
      in if t = [] then []
         else takeWhile (\<lambda>c. \<not> is_space_char c) t # Fields (dropWhile (\<lambda>c. \<not> is_space_char c) t))"
  by pat_completeness auto
termination
proof (relation "measure length")
  fix s t :: string
  assume t: "t = dropWhile is_space_char s" "t \<noteq> []"
  then have "\<not> is_space_char (hd t)" using hd_dropWhile [of is_space_char s] by auto
  then obtain c t' where "t = c # t'" "\<not> is_space_char c" using t(2) by (cases t) auto
  then have "length (dropWhile (\<lambda>c. \<not> is_space_char c) t) < length t"
    by (simp add: le_imp_less_Suc length_dropWhile_le)
  also have "\<dots> \<le> length s" unfolding t by (rule length_dropWhile_le)
  finally show "(dropWhile (\<lambda>c. \<not> is_space_char c) t, s) \<in> measure length" by simp
qed simp

declare split_lines.simps [simp del] Fields.simps [simp del]

definition line_resolver :: "string \<Rightarrow> IPNet list" where
  "line_resolver line =
     (let fields = Fields line
      in if length fields \<ge> 2 \<and> fields ! 0 = ''nameserver'' \<and> ParseIP (fields ! 1) \<noteq> []
         then [hostCIDR (ParseIP (fields ! 1))] else [])"

definition discoverLocalResolvers :: "'l host_env \<Rightarrow> string + IPNet list" where
  "discoverLocalResolvers env =
     (case resolv_conf env of None \<Rightarrow> Inr []
      | Some content \<Rightarrow> Inr (concat (map line_resolver (scan_lines content))))"

definition DiscoverSafeNetworks :: "'l host_env \<Rightarrow> IPNet list" where
  "DiscoverSafeNetworks env =
     (case staticSafeNetworks of None \<Rightarrow> [] | Some ns \<Rightarrow> ns) @
     (case wellKnownPublicDNS of None \<Rightarrow> [] | Some ns \<Rightarrow> ns) @
     (case discoverDefaultGateway env of
        Inl _ \<Rightarrow> [] | Inr gw \<Rightarrow> if gw \<noteq> [] then [hostCIDR gw] else []) @
     (case discoverLocalSubnets env of Inl _ \<Rightarrow> [] | Inr subnets \<Rightarrow> subnets) @
     (case discoverLocalResolvers env of Inl _ \<Rightarrow> [] | Inr resolvers \<Rightarrow> resolvers)"

section \<open>The controller\<close>

text \<open>The struct \<open>blockRecord\<close> has one field, the time at which the block expires.\<close>

type_synonym blockRecord = int

record FeedbackController =
  safeNetworks :: "IPNet list"
  blocked :: "(string, blockRecord) go_map"

definition RefreshSafeNetworks :: "'l host_env \<Rightarrow> FeedbackController \<Rightarrow> FeedbackController" where
  "RefreshSafeNetworks env fc = fc\<lparr>safeNetworks := DiscoverSafeNetworks env\<rparr>"

definition NewFeedbackController :: "'l host_env \<Rightarrow> FeedbackController" where
  "NewFeedbackController env = RefreshSafeNetworks env \<lparr>safeNetworks = [], blocked = []\<rparr>"

definition isSafeNetwork :: "FeedbackController \<Rightarrow> IP \<Rightarrow> IPNet option" where
  "isSafeNetwork fc ip = find (\<lambda>n. Contains n ip) (safeNetworks fc)"

datatype notice =
    Discarded string
  | Exempted ThreatAlert IPNet
  | AlreadyBlocked
  | BlockFailed ThreatAlert engine_error
  | Blocked ThreatAlert
  | UnblockFailed string engine_error
  | Unblocked string

definition handle ::
    "('h, 'k) ebpf_api \<Rightarrow> 'h MapManager \<Rightarrow> int \<Rightarrow> ThreatAlert \<Rightarrow> FeedbackController \<Rightarrow> 'k \<Rightarrow>
     FeedbackController \<times> 'k \<times> notice" where
  "handle api mgr now alert fc s =
     (let src = alert_SrcIP alert; ip = ParseIP src
      in if ip = [] then (fc, s, Discarded src)
         else case isSafeNetwork fc ip of
           Some sn \<Rightarrow> (fc, s, Exempted alert sn)
         | None \<Rightarrow>
             if (case go_get (blocked fc) src of None \<Rightarrow> False | Some expiresAt \<Rightarrow> now < expiresAt)
             then (fc, s, AlreadyBlocked)
             else let fc1 = fc\<lparr>blocked := go_set (blocked fc) src (now + BlockTTL)\<rparr>
                  in case BlockIP api mgr (src @ ''/32'') s of
                       (Some e, s') \<Rightarrow>
                         (fc1\<lparr>blocked := go_del (blocked fc1) src\<rparr>, s', BlockFailed alert e)
                     | (None, s') \<Rightarrow> (fc1, s', Blocked alert))"

text \<open>
  One expired entry of the janitor's second loop; the entries it visits, in the order the map
  was ranged over; the sweep.
\<close>

definition janitor_entry ::
    "('h, 'k) ebpf_api \<Rightarrow> 'h MapManager \<Rightarrow> string \<Rightarrow> FeedbackController \<times> 'k \<times> notice list \<Rightarrow>
     FeedbackController \<times> 'k \<times> notice list" where
  "janitor_entry api mgr ip = (\<lambda>(fc, s, ns).
     case UnblockIP api mgr (ip @ ''/32'') s of
       (Some e, s') \<Rightarrow> (fc, s', ns @ [UnblockFailed ip e])
     | (None, s') \<Rightarrow> (fc\<lparr>blocked := go_del (blocked fc) ip\<rparr>, s', ns @ [Unblocked ip]))"

definition expired_entries ::
    "((string \<times> int) list \<Rightarrow> (string \<times> int) list) \<Rightarrow> int \<Rightarrow> FeedbackController \<Rightarrow> string list" where
  "expired_entries ordB now fc =
     map fst (filter (\<lambda>(ip, expiresAt). now > expiresAt) (ordB (blocked fc)))"

definition runJanitor ::
    "('h, 'k) ebpf_api \<Rightarrow> 'h MapManager \<Rightarrow> ((string \<times> int) list \<Rightarrow> (string \<times> int) list) \<Rightarrow> int \<Rightarrow>
     FeedbackController \<Rightarrow> 'k \<Rightarrow> FeedbackController \<times> 'k \<times> notice list" where
  "runJanitor api mgr ordB now fc s =
     fold (janitor_entry api mgr) (expired_entries ordB now fc) (fc, s, [])"

text \<open>\<open>Run\<close>: what one receive of its select does, and whether the loop goes on.\<close>

datatype fb_event =
    FbCtxDone
  | FbJanitor int
  | FbAlert int ThreatAlert
  | FbAlertsClosed

fun Feedback_Run_event ::
    "('h, 'k) ebpf_api \<Rightarrow> 'h MapManager \<Rightarrow> ((string \<times> int) list \<Rightarrow> (string \<times> int) list) \<Rightarrow>
     fb_event \<Rightarrow> FeedbackController \<times> 'k \<Rightarrow> (FeedbackController \<times> 'k) \<times> bool" where
  "Feedback_Run_event api mgr ordB FbCtxDone st = (st, False)"
| "Feedback_Run_event api mgr ordB (FbJanitor now) (fc, s) =
     (case runJanitor api mgr ordB now fc s of (fc', s', _) \<Rightarrow> ((fc', s'), True))"
| "Feedback_Run_event api mgr ordB (FbAlert now alert) (fc, s) =
     (case handle api mgr now alert fc s of (fc', s', _) \<Rightarrow> ((fc', s'), True))"
| "Feedback_Run_event api mgr ordB FbAlertsClosed st = (st, False)"

end
