(* ===== verification/FeedbackProps.thy ===== *)
theory FeedbackProps
  imports Feedback MapProps
begin

text \<open>
  Lemmas and properties of the feedback controller: the static safe networks parse and cover
  what they are meant to, safe sources are never blocked, what an alert and a sweep do to the
  tracking table and the kernel's reputation map, and the invariant that links the two.
\<close>

section \<open>Host entries\<close>

abbreviation host_key :: "u8 \<Rightarrow> u8 \<Rightarrow> u8 \<Rightarrow> u8 \<Rightarrow> bpf_val" where
  "host_key a b c d \<equiv> VLpm \<lparr>PrefixLen = 32, KeyAddr = [a, b, c, d]\<rparr>"

lemma NewLpmKey_slash32:
  "NewLpmKey (dotted a b c d @ ''/32'') = Inr \<lparr>PrefixLen = 32, KeyAddr = [a, b, c, d]\<rparr>"
proof -
  have "dec_string 32 = ''32''" by code_simp
  then show ?thesis using NewLpmKey_prefix [of 32 a b c d] by simp
qed

lemma and_255 [simp]: "(x :: u8) AND 255 = x"
proof -
  have "(255 :: u8) = - 1" by simp
  then show ?thesis by (simp only: and.right_neutral)
qed

lemma CIDRMask_values:
  "CIDRMask 4 32 = [240, 0, 0, 0]" "CIDRMask 8 32 = [255, 0, 0, 0]"
  "CIDRMask 32 32 = [255, 255, 255, 255]"
  by code_simp+

lemma norm_host_key [simp]: "norm_key (host_key a b c d) = host_key a b c d"
  by (simp add: CIDRMask_values)

lemma dotted_inj: "dotted a b c d = dotted a' b' c' d' \<longleftrightarrow> a = a' \<and> b = b' \<and> c = c' \<and> d = d'"
proof
  assume "dotted a b c d = dotted a' b' c' d'"
  then have "ParseIP (dotted a b c d) = ParseIP (dotted a' b' c' d')" by simp
  then have "To4 (IPv4 a b c d) = To4 (IPv4 a' b' c' d')" by simp
  then show "a = a' \<and> b = b' \<and> c = c' \<and> d = d'" unfolding To4_IPv4 by simp
qed simp

section \<open>Safe networks\<close>

lemma Contains_masked:
  assumes "length m = 4"
  shows "Contains \<lparr>net_IP = map2 (AND) [a, b, c, d] m, net_Mask = m\<rparr> (IPv4 w x y z) \<longleftrightarrow>
         map2 (AND) [a, b, c, d] m = map2 (AND) [w, x, y, z] m"
proof -
  obtain p q u v where m: "m = [p, q, u, v]"
    using assms by (auto simp: numeral_eq_Suc length_Suc_conv)
  have "To4 [a AND p, b AND q, c AND u, d AND v] = [a AND p, b AND q, c AND u, d AND v]"
    by (simp add: To4_def)
  then show ?thesis
    by (auto simp: Contains_def networkNumberAndMask_def m All_less_Suc and.assoc)
qed


text \<open>The networks of the registry that are always present.\<close>

abbreviation cidr :: "u8 \<Rightarrow> u8 \<Rightarrow> u8 \<Rightarrow> u8 \<Rightarrow> nat \<Rightarrow> IPNet" where
  "cidr a b c d n \<equiv> \<lparr>net_IP = map2 (AND) [a, b, c, d] (CIDRMask n 32), net_Mask = CIDRMask n 32\<rparr>"

lemma ParseCIDR_literals:
  "ParseCIDR ''127.0.0.0/8'' = Some (IPv4 127 0 0 0, cidr 127 0 0 0 8)"
  "ParseCIDR ''255.255.255.255/32'' = Some (IPv4 255 255 255 255, cidr 255 255 255 255 32)"
  "ParseCIDR ''224.0.0.0/4'' = Some (IPv4 224 0 0 0, cidr 224 0 0 0 4)"
  "ParseCIDR ''8.8.8.8/32'' = Some (IPv4 8 8 8 8, cidr 8 8 8 8 32)"
  "ParseCIDR ''8.8.4.4/32'' = Some (IPv4 8 8 4 4, cidr 8 8 4 4 32)"
  "ParseCIDR ''1.1.1.1/32'' = Some (IPv4 1 1 1 1, cidr 1 1 1 1 32)"
  "ParseCIDR ''1.0.0.1/32'' = Some (IPv4 1 0 0 1, cidr 1 0 0 1 32)"
proof -
  have lits: "''127.0.0.0/8'' = dotted 127 0 0 0 @ ''/'' @ dec_string 8"
    "''255.255.255.255/32'' = dotted 255 255 255 255 @ ''/'' @ dec_string 32"
    "''224.0.0.0/4'' = dotted 224 0 0 0 @ ''/'' @ dec_string 4"
    "''8.8.8.8/32'' = dotted 8 8 8 8 @ ''/'' @ dec_string 32"
    "''8.8.4.4/32'' = dotted 8 8 4 4 @ ''/'' @ dec_string 32"
    "''1.1.1.1/32'' = dotted 1 1 1 1 @ ''/'' @ dec_string 32"
    "''1.0.0.1/32'' = dotted 1 0 0 1 @ ''/'' @ dec_string 32"
    by code_simp+
  show "ParseCIDR ''127.0.0.0/8'' = Some (IPv4 127 0 0 0, cidr 127 0 0 0 8)"
    unfolding lits by (rule ParseCIDR_dotted) simp
  show "ParseCIDR ''255.255.255.255/32'' = Some (IPv4 255 255 255 255, cidr 255 255 255 255 32)"
    unfolding lits by (rule ParseCIDR_dotted) simp
  show "ParseCIDR ''224.0.0.0/4'' = Some (IPv4 224 0 0 0, cidr 224 0 0 0 4)"
    unfolding lits by (rule ParseCIDR_dotted) simp
  show "ParseCIDR ''8.8.8.8/32'' = Some (IPv4 8 8 8 8, cidr 8 8 8 8 32)"
    unfolding lits by (rule ParseCIDR_dotted) simp
  show "ParseCIDR ''8.8.4.4/32'' = Some (IPv4 8 8 4 4, cidr 8 8 4 4 32)"
    unfolding lits by (rule ParseCIDR_dotted) simp
  show "ParseCIDR ''1.1.1.1/32'' = Some (IPv4 1 1 1 1, cidr 1 1 1 1 32)"
    unfolding lits by (rule ParseCIDR_dotted) simp
  show "ParseCIDR ''1.0.0.1/32'' = Some (IPv4 1 0 0 1, cidr 1 0 0 1 32)"
    unfolding lits by (rule ParseCIDR_dotted) simp
qed

lemma static_networks:
  "staticSafeNetworks = Some [cidr 127 0 0 0 8, cidr 255 255 255 255 32, cidr 224 0 0 0 4]"
  "wellKnownPublicDNS = Some [cidr 8 8 8 8 32, cidr 8 8 4 4 32, cidr 1 1 1 1 32, cidr 1 0 0 1 32]"
  unfolding staticSafeNetworks_def wellKnownPublicDNS_def mustParseCIDRs.simps ParseCIDR_literals
  by simp_all

definition always_safe :: "u8 \<Rightarrow> u8 \<Rightarrow> u8 \<Rightarrow> u8 \<Rightarrow> bool" where
  "always_safe a b c d \<longleftrightarrow>
     a = 127 \<or> a AND 240 = 224 \<or> (a, b, c, d) = (255, 255, 255, 255) \<or>
     (a, b, c, d) \<in> {(8, 8, 8, 8), (8, 8, 4, 4), (1, 1, 1, 1), (1, 0, 0, 1)}"

lemma Contains_static:
  "Contains (cidr 127 0 0 0 8) (IPv4 a b c d) \<longleftrightarrow> a = 127"
  "Contains (cidr 224 0 0 0 4) (IPv4 a b c d) \<longleftrightarrow> a AND 240 = 224"
  "Contains (cidr p q u v 32) (IPv4 a b c d) \<longleftrightarrow> a = p \<and> b = q \<and> c = u \<and> d = v"
proof -
  have l: "length (CIDRMask n 32) = 4" for n by (simp add: CIDRMask_def)
  note * = Contains_masked [OF l]
  show "Contains (cidr 127 0 0 0 8) (IPv4 a b c d) \<longleftrightarrow> a = 127"
    "Contains (cidr 224 0 0 0 4) (IPv4 a b c d) \<longleftrightarrow> a AND 240 = 224"
    "Contains (cidr p q u v 32) (IPv4 a b c d) \<longleftrightarrow> a = p \<and> b = q \<and> c = u \<and> d = v"
    unfolding * unfolding CIDRMask_values by auto
qed

lemma always_safe_iff:
  "always_safe a b c d \<longleftrightarrow>
     (\<exists>n \<in> set [cidr 127 0 0 0 8, cidr 255 255 255 255 32, cidr 224 0 0 0 4] \<union>
            set [cidr 8 8 8 8 32, cidr 8 8 4 4 32, cidr 1 1 1 1 32, cidr 1 0 0 1 32].
        Contains n (IPv4 a b c d))"
  by (simp only: set_simps Un_insert_left Un_empty_left bex_simps Contains_static always_safe_def
        insert_iff empty_iff prod.inject simp_thms disj_ac)

lemma DiscoverSafeNetworks_static:
  "set [cidr 127 0 0 0 8, cidr 255 255 255 255 32, cidr 224 0 0 0 4] \<union>
   set [cidr 8 8 8 8 32, cidr 8 8 4 4 32, cidr 1 1 1 1 32, cidr 1 0 0 1 32]
     \<subseteq> set (DiscoverSafeNetworks env)"
  unfolding DiscoverSafeNetworks_def static_networks by simp

lemma always_safe_discovered:
  "always_safe a b c d \<Longrightarrow> safeNetworks fc = DiscoverSafeNetworks env \<Longrightarrow>
   isSafeNetwork fc (IPv4 a b c d) \<noteq> None"
  using DiscoverSafeNetworks_static [of env]
  by (auto simp: always_safe_iff isSafeNetwork_def find_None_iff)

section \<open>Alerts and sweeps under the contract of the maps\<close>

text \<open>The alert of an IPv4 source, as the daemon builds it.\<close>

abbreviation from_host :: "ThreatAlert \<Rightarrow> u8 \<Rightarrow> u8 \<Rightarrow> u8 \<Rightarrow> u8 \<Rightarrow> bool" where
  "from_host alert a b c d \<equiv> alert_SrcIP alert = dotted a b c d"

lemma IPv4_nonempty [simp]: "IPv4 a b c d \<noteq> []"
  by (simp add: IPv4_def)

text \<open>An entry is active while its expiry lies in the future.\<close>

definition active :: "int \<Rightarrow> string \<Rightarrow> FeedbackController \<Rightarrow> bool" where
  "active now ip fc \<longleftrightarrow> (case go_get (blocked fc) ip of None \<Rightarrow> False | Some e \<Rightarrow> now < e)"

lemma handle_safe:
  "from_host alert a b c d \<Longrightarrow> isSafeNetwork fc (IPv4 a b c d) = Some n \<Longrightarrow>
   handle api mgr now alert fc s = (fc, s, Exempted alert n)"
  by (simp add: handle_def)

lemma handle_active:
  "from_host alert a b c d \<Longrightarrow> isSafeNetwork fc (IPv4 a b c d) = None \<Longrightarrow>
   active now (dotted a b c d) fc \<Longrightarrow> handle api mgr now alert fc s = (fc, s, AlreadyBlocked)"
  by (simp add: handle_def active_def)

lemma handle_new:
  assumes "from_host alert a b c d" and "isSafeNetwork fc (IPv4 a b c d) = None"
    and "\<not> active now (dotted a b c d) fc"
  shows "handle api mgr now alert fc s =
     (case BlockIP api mgr (dotted a b c d @ ''/32'') s of
        (Some e, s') \<Rightarrow>
          (fc\<lparr>blocked := go_del (go_set (blocked fc) (dotted a b c d) (now + BlockTTL)) (dotted a b c d)\<rparr>,
           s', BlockFailed alert e)
      | (None, s') \<Rightarrow>
          (fc\<lparr>blocked := go_set (blocked fc) (dotted a b c d) (now + BlockTTL)\<rparr>, s', Blocked alert))"
  using assms by (simp add: handle_def active_def Let_def split: prod.split option.split)

definition dotted_set :: "string set \<Rightarrow> bool" where
  "dotted_set K \<longleftrightarrow> (\<forall>ip \<in> K. \<exists>a b c d. ip = dotted a b c d)"

lemma dotted_set_simps [simp]:
  "dotted_set {}" "dotted_set (insert (dotted a b c d) K) \<longleftrightarrow> dotted_set K"
  by (auto simp: dotted_set_def)

lemma dotted_set_mono: "dotted_set K \<Longrightarrow> K' \<subseteq> K \<Longrightarrow> dotted_set K'"
  by (auto simp: dotted_set_def)

definition dotted_keys :: "FeedbackController \<Rightarrow> bool" where
  "dotted_keys fc \<longleftrightarrow> go_map_ok (blocked fc) \<and> dotted_set (go_keys (blocked fc))"

context ebpf_maps
begin

text \<open>
  The relation of the tracking table and the reputation map \<open>h\<close>: every tracked address is
  in the map.
\<close>

definition tracked_in_kernel :: "'h \<Rightarrow> FeedbackController \<Rightarrow> 'k \<Rightarrow> bool" where
  "tracked_in_kernel h fc s \<longleftrightarrow> dotted_keys fc \<and>
     (\<forall>a b c d. dotted a b c d \<in> go_keys (blocked fc) \<longrightarrow>
        contents h s (host_key a b c d) = Some (VU32 1))"

lemma handle_cases:
  assumes mgr: "reputationMap mgr = Some h" and src: "from_host alert a b c d"
    and res: "handle api mgr now alert fc s = (fc', s', nt)"
  obtains (same) "fc' = fc" "s' = s"
      "isSafeNetwork fc (IPv4 a b c d) \<noteq> None \<or> active now (dotted a b c d) fc"
  | (ok) "blocked fc' = go_set (blocked fc) (dotted a b c d) (now + BlockTTL)"
      "safeNetworks fc' = safeNetworks fc" "nt = Blocked alert"
      "\<And>h'. contents h' s' = (if h' = h then (contents h s)(host_key a b c d \<mapsto> VU32 1) else contents h' s)"
  | (fail) e where "blocked fc' = go_del (go_set (blocked fc) (dotted a b c d) (now + BlockTTL)) (dotted a b c d)"
      "safeNetworks fc' = safeNetworks fc" "nt = BlockFailed alert e"
      "fst (BlockIP api mgr (dotted a b c d @ ''/32'') s) = Some e"
      "\<And>h'. contents h' s' = contents h' s"
proof (cases "isSafeNetwork fc (IPv4 a b c d) \<noteq> None \<or> active now (dotted a b c d) fc")
  case True
  then have "fc' = fc \<and> s' = s"
    using res handle_safe [OF src, of fc _ api mgr now s] handle_active [OF src, of fc now api mgr s]
    by (cases "isSafeNetwork fc (IPv4 a b c d)") auto
  then show ?thesis using same True by blast
next
  case False
  then have n: "isSafeNetwork fc (IPv4 a b c d) = None" "\<not> active now (dotted a b c d) fc" by auto
  obtain err s1 where blk: "BlockIP api mgr (dotted a b c d @ ''/32'') s = (err, s1)"
    by (cases "BlockIP api mgr (dotted a b c d @ ''/32'') s")
  note eff = BlockIP_effect [OF mgr NewLpmKey_slash32 [of a b c d], where s = s, unfolded norm_host_key blk fst_conv snd_conv]
  show ?thesis
  proof (cases err)
    case None
    then show ?thesis using ok res handle_new [OF src n, of api mgr s] eff blk by auto
  next
    case (Some e)
    then show ?thesis using fail [of e] res handle_new [OF src n, of api mgr s] eff blk by auto
  qed
qed

lemma dotted_keys_set:
  "dotted_keys fc \<Longrightarrow> blocked fc' = go_set (blocked fc) (dotted a b c d) t \<Longrightarrow> dotted_keys fc'"
  by (simp add: dotted_keys_def go_keys_set)

lemma dotted_keys_del:
  "dotted_keys fc \<Longrightarrow> blocked fc' = go_del (blocked fc) ip \<Longrightarrow> dotted_keys fc'"
  by (simp add: dotted_keys_def go_keys_del dotted_set_mono [OF _ Diff_subset])

lemma handle_tracked:
  assumes "reputationMap mgr = Some h" and "from_host alert a b c d"
    and "handle api mgr now alert fc s = (fc', s', nt)" and "tracked_in_kernel h fc s"
  shows "tracked_in_kernel h fc' s'"
  using assms(1-3)
proof (cases rule: handle_cases)
  case same
  then show ?thesis using assms(4) by simp
next
  case ok
  then show ?thesis
    using assms(4) dotted_keys_set [OF _ ok(1)]
    by (auto simp: tracked_in_kernel_def go_keys_set dotted_inj)
next
  case (fail e)
  let ?fc1 = "fc\<lparr>blocked := go_set (blocked fc) (dotted a b c d) (now + BlockTTL)\<rparr>"
  have "dotted_keys fc" using assms(4) by (simp add: tracked_in_kernel_def)
  then have "dotted_keys ?fc1" by (rule dotted_keys_set) simp
  then have "dotted_keys fc'" by (rule dotted_keys_del) (simp add: fail(1))
  then show ?thesis
    using assms(4) fail by (auto simp: tracked_in_kernel_def go_keys_set go_keys_del)
qed


text \<open>One address after a sweep: untouched, lifted on both sides, or kept on both sides.\<close>

definition untouched :: "'h \<Rightarrow> FeedbackController \<Rightarrow> 'k \<Rightarrow> FeedbackController \<Rightarrow> 'k \<Rightarrow>
    u8 \<Rightarrow> u8 \<Rightarrow> u8 \<Rightarrow> u8 \<Rightarrow> bool" where
  "untouched h fc s fc' s' a b c d \<longleftrightarrow>
     go_get (blocked fc') (dotted a b c d) = go_get (blocked fc) (dotted a b c d) \<and>
     contents h s' (host_key a b c d) = contents h s (host_key a b c d)"

definition lifted :: "'h \<Rightarrow> FeedbackController \<Rightarrow> 'k \<Rightarrow> u8 \<Rightarrow> u8 \<Rightarrow> u8 \<Rightarrow> u8 \<Rightarrow> bool" where
  "lifted h fc' s' a b c d \<longleftrightarrow>
     go_get (blocked fc') (dotted a b c d) = None \<and> contents h s' (host_key a b c d) = None"

lemma janitor_entry_cases:
  assumes mgr: "reputationMap mgr = Some h"
    and res: "janitor_entry api mgr (dotted a b c d) (fc, s, ns) = (fc', s', ns')"
  obtains (gone) "fc' = fc\<lparr>blocked := go_del (blocked fc) (dotted a b c d)\<rparr>"
      "\<And>h'. contents h' s' = (if h' = h then (contents h s)(host_key a b c d := None) else contents h' s)"
      "ns' = ns @ [Unblocked (dotted a b c d)]"
  | (kept) e where "fc' = fc" "\<And>h'. contents h' s' = contents h' s"
      "ns' = ns @ [UnblockFailed (dotted a b c d) e]"
proof -
  obtain err s1 where u: "UnblockIP api mgr (dotted a b c d @ ''/32'') s = (err, s1)"
    by (cases "UnblockIP api mgr (dotted a b c d @ ''/32'') s")
  note eff = UnblockIP_effect [OF mgr NewLpmKey_slash32 [of a b c d], where s = s,
      unfolded norm_host_key u fst_conv snd_conv]
  show ?thesis
  proof (cases err)
    case None
    then show ?thesis using gone res eff u by (simp add: janitor_entry_def)
  next
    case (Some e)
    then show ?thesis using kept [of e] res eff u by (auto simp: janitor_entry_def)
  qed
qed

lemma janitor_fold_notices:
  "fold (janitor_entry api mgr) L (fc, s, ns) = (fc', s', ns') \<Longrightarrow> set ns \<subseteq> set ns'"
proof (induction L arbitrary: fc s ns)
  case Nil
  then show ?case by simp
next
  case (Cons ip L)
  obtain fc1 s1 ns1 where e: "janitor_entry api mgr ip (fc, s, ns) = (fc1, s1, ns1)"
    by (cases "janitor_entry api mgr ip (fc, s, ns)")
  then have "set ns \<subseteq> set ns1" by (auto simp: janitor_entry_def split: prod.splits option.splits)
  moreover have "set ns1 \<subseteq> set ns'" using Cons.IH Cons.prems e by simp
  ultimately show ?case by blast
qed

lemma janitor_fold:
  assumes mgr: "reputationMap mgr = Some h"
    and "fold (janitor_entry api mgr) L (fc, s, ns) = (fc', s', ns')"
    and "distinct L" and "\<forall>ip \<in> set L. \<exists>a b c d. ip = dotted a b c d"
  shows "(dotted a b c d \<notin> set L \<longrightarrow> untouched h fc s fc' s' a b c d) \<and>
         (dotted a b c d \<in> set L \<longrightarrow>
            lifted h fc' s' a b c d \<or>
            untouched h fc s fc' s' a b c d \<and> (\<exists>e. UnblockFailed (dotted a b c d) e \<in> set ns'))"
  using assms(2-)
proof (induction L arbitrary: fc s ns)
  case Nil
  then show ?case by (simp add: untouched_def)
next
  case (Cons ip L)
  obtain p q u v where ip: "ip = dotted p q u v" using Cons.prems(3) by auto
  obtain fc1 s1 ns1 where e: "janitor_entry api mgr ip (fc, s, ns) = (fc1, s1, ns1)"
    by (cases "janitor_entry api mgr ip (fc, s, ns)")
  have rest: "fold (janitor_entry api mgr) L (fc1, s1, ns1) = (fc', s', ns')"
    using Cons.prems(1) e by simp
  note IH = Cons.IH [OF rest]
  have notin: "ip \<notin> set L" and dist: "distinct L" using Cons.prems(2) by auto
  have IH: "(dotted a b c d \<notin> set L \<longrightarrow> untouched h fc1 s1 fc' s' a b c d) \<and>
         (dotted a b c d \<in> set L \<longrightarrow>
            lifted h fc' s' a b c d \<or>
            untouched h fc1 s1 fc' s' a b c d \<and> (\<exists>e. UnblockFailed (dotted a b c d) e \<in> set ns'))"
    using Cons.prems by (intro IH) auto
  have other: "untouched h fc s fc1 s1 a b c d" if "dotted a b c d \<noteq> ip"
    using mgr e [unfolded ip]
    by (cases rule: janitor_entry_cases)
       (use that ip in \<open>auto simp: untouched_def go_get_del dotted_inj\<close>)
  have self: "lifted h fc1 s1 a b c d \<or>
      untouched h fc s fc1 s1 a b c d \<and> (\<exists>e. UnblockFailed (dotted a b c d) e \<in> set ns')"
    if "dotted a b c d = ip"
    using mgr e [unfolded ip]
  proof (cases rule: janitor_entry_cases)
    case gone
    then show ?thesis using that ip by (auto simp: lifted_def go_get_del dotted_inj)
  next
    case (kept e')
    then show ?thesis
      using that ip janitor_fold_notices [OF rest] by (auto simp: untouched_def)
  qed
  show ?case
  proof (cases "dotted a b c d = ip")
    case True
    then show ?thesis using IH notin self by (auto simp: untouched_def lifted_def)
  next
    case False
    then show ?thesis using IH other by (auto simp: untouched_def)
  qed
qed

lemma expired_entries_dotted:
  assumes "dotted_keys fc" and "\<And>l. mset (ordB l) = mset l"
  shows "distinct (expired_entries ordB now fc)"
    and "\<forall>ip \<in> set (expired_entries ordB now fc). \<exists>a b c d. ip = dotted a b c d"
    and "ip \<in> set (expired_entries ordB now fc) \<longleftrightarrow>
         (\<exists>t. go_get (blocked fc) ip = Some t \<and> t < now)"
proof -
  have ok: "distinct (map fst (blocked fc))" using assms(1) by (simp add: dotted_keys_def go_map_ok_def)
  have "mset (map fst (ordB (blocked fc))) = mset (map fst (blocked fc))"
    unfolding mset_map assms(2) ..
  then have "distinct (map fst (ordB (blocked fc)))" using ok by (metis mset_eq_imp_distinct_iff)
  then show "distinct (expired_entries ordB now fc)"
    unfolding expired_entries_def by (rule distinct_map_filter)
  have set: "set (ordB (blocked fc)) = set (blocked fc)" using assms(2) by (metis set_mset_mset)
  then show "\<forall>ip \<in> set (expired_entries ordB now fc). \<exists>a b c d. ip = dotted a b c d"
    using assms(1) by (force simp: dotted_keys_def dotted_set_def expired_entries_def)
  show "ip \<in> set (expired_entries ordB now fc) \<longleftrightarrow>
        (\<exists>t. go_get (blocked fc) ip = Some t \<and> t < now)"
    using ok by (force simp: expired_entries_def set map_of_eq_Some_iff)
qed

text \<open>A sweep, address by address.\<close>

lemma runJanitor_effect:
  assumes "reputationMap mgr = Some h" and "dotted_keys fc" and "\<And>l. mset (ordB l) = mset l"
    and "runJanitor api mgr ordB now fc s = (fc', s', ns)"
  shows "if \<exists>t. go_get (blocked fc) (dotted a b c d) = Some t \<and> t < now
         then lifted h fc' s' a b c d \<or>
              untouched h fc s fc' s' a b c d \<and> (\<exists>e. UnblockFailed (dotted a b c d) e \<in> set ns)
         else untouched h fc s fc' s' a b c d"
  using janitor_fold [OF assms(1) assms(4) [unfolded runJanitor_def]
      expired_entries_dotted(1,2) [where ordB = ordB, OF assms(2,3)]]
    expired_entries_dotted(3) [where ordB = ordB, OF assms(2,3)] by auto


end

section \<open>Runs of the controller\<close>

text \<open>
  Everything the controller can do: the receives of \<open>Run\<close>, with alerts of IPv4 sources at any
  times and map orders, and a refresh of the safe networks at any point.
\<close>

fun ev_ok :: "fb_event \<Rightarrow> bool" where
  "ev_ok (FbAlert now alert) \<longleftrightarrow> (\<exists>a b c d. from_host alert a b c d)"
| "ev_ok _ \<longleftrightarrow> True"

inductive fb_reachable ::
    "('h, 'k) ebpf_api \<Rightarrow> 'h MapManager \<Rightarrow> 'k \<Rightarrow> FeedbackController \<Rightarrow> 'k \<Rightarrow> bool"
  for api mgr s0 where
  fb_new: "fb_reachable api mgr s0 (NewFeedbackController (env :: nat host_env)) s0"
| fb_event: "fb_reachable api mgr s0 fc s \<Longrightarrow> ev_ok ev \<Longrightarrow> (\<And>l. mset (ordB l) = mset l) \<Longrightarrow>
    Feedback_Run_event api mgr ordB ev (fc, s) = ((fc', s'), go) \<Longrightarrow>
    fb_reachable api mgr s0 fc' s'"
| fb_refresh: "fb_reachable api mgr s0 fc s \<Longrightarrow>
    fb_reachable api mgr s0 (RefreshSafeNetworks (env :: nat host_env) fc) s"

text \<open>Sweeps only delete tracked entries.\<close>

lemma janitor_entry_blocked:
  assumes "janitor_entry api mgr ip (fc, s, ns) = (fc1, s1, ns1)"
  shows "fc1 = fc \<or> fc1 = fc\<lparr>blocked := go_del (blocked fc) ip\<rparr>"
  using assms by (auto simp: janitor_entry_def split: prod.splits option.splits)

lemma janitor_fold_blocked:
  assumes "fold (janitor_entry api mgr) L (fc, s, ns) = (fc', s', ns')"
  shows "safeNetworks fc' = safeNetworks fc \<and> go_keys (blocked fc') \<subseteq> go_keys (blocked fc) \<and>
         (go_map_ok (blocked fc) \<longrightarrow> go_map_ok (blocked fc'))"
  using assms
proof (induction L arbitrary: fc s ns)
  case Nil
  then show ?case by simp
next
  case (Cons ip L)
  obtain fc1 s1 ns1 where e: "janitor_entry api mgr ip (fc, s, ns) = (fc1, s1, ns1)"
    by (cases "janitor_entry api mgr ip (fc, s, ns)")
  have "safeNetworks fc1 = safeNetworks fc \<and> go_keys (blocked fc1) \<subseteq> go_keys (blocked fc) \<and>
         (go_map_ok (blocked fc) \<longrightarrow> go_map_ok (blocked fc1))"
    using janitor_entry_blocked [OF e] by (elim disjE) (simp_all add: go_keys_del)
  moreover have "safeNetworks fc' = safeNetworks fc1 \<and> go_keys (blocked fc') \<subseteq> go_keys (blocked fc1) \<and>
         (go_map_ok (blocked fc1) \<longrightarrow> go_map_ok (blocked fc'))"
    using Cons.prems e by (intro Cons.IH) auto
  ultimately show ?case by (elim conjE) (intro conjI impI; simp)
qed

lemma handle_blocked:
  assumes "handle api mgr now alert fc s = (fc', s', nt)"
  shows "safeNetworks fc' = safeNetworks fc \<and>
         (fc' = fc \<or> isSafeNetwork fc (ParseIP (alert_SrcIP alert)) = None \<and>
            go_keys (blocked fc') \<subseteq> insert (alert_SrcIP alert) (go_keys (blocked fc)) \<and>
            (go_map_ok (blocked fc) \<longrightarrow> go_map_ok (blocked fc')))"
proof -
  let ?b = "go_set (blocked fc) (alert_SrcIP alert) (now + BlockTTL)"
  consider "fc' = fc"
    | "isSafeNetwork fc (ParseIP (alert_SrcIP alert)) = None"
      "fc' = fc\<lparr>blocked := ?b\<rparr> \<or> fc' = fc\<lparr>blocked := go_del ?b (alert_SrcIP alert)\<rparr>"
    using assms by (auto simp: handle_def Let_def split: if_splits option.splits prod.splits)
  then show ?thesis
  proof cases
    case 2
    from 2(2) show ?thesis
      by (elim disjE) (simp_all add: 2(1) go_keys_set go_keys_del subset_insertI2 Diff_subset_conv)
  qed simp
qed

text \<open>The step of a run as a case distinction.\<close>

lemma Feedback_Run_event_cases:
  assumes "Feedback_Run_event api mgr ordB ev (fc, s) = ((fc', s'), go)"
  obtains (stop) "fc' = fc" "s' = s"
  | (sweep) now ns where "runJanitor api mgr ordB now fc s = (fc', s', ns)"
  | (alert) now alert nt where "ev = FbAlert now alert" "handle api mgr now alert fc s = (fc', s', nt)"
  using assms by (cases ev) (auto split: prod.splits)

definition no_safe :: "string set \<Rightarrow> bool" where
  "no_safe K \<longleftrightarrow> (\<forall>a b c d. always_safe a b c d \<longrightarrow> dotted a b c d \<notin> K)"

lemma no_safe_simps [simp]:
  "no_safe {}" "no_safe (insert (dotted a b c d) K) \<longleftrightarrow> \<not> always_safe a b c d \<and> no_safe K"
  by (auto simp: no_safe_def dotted_inj)

lemma no_safe_mono: "no_safe K \<Longrightarrow> K' \<subseteq> K \<Longrightarrow> no_safe K'"
  by (auto simp: no_safe_def)

definition registry_inv :: "FeedbackController \<Rightarrow> bool" where
  "registry_inv fc \<longleftrightarrow> (\<exists>env :: nat host_env. safeNetworks fc = DiscoverSafeNetworks env) \<and>
     dotted_keys fc \<and> no_safe (go_keys (blocked fc))"

lemma registry_inv_subset:
  assumes "registry_inv fc" and "safeNetworks fc' = safeNetworks fc" and "go_map_ok (blocked fc')"
    and "go_keys (blocked fc') \<subseteq> K" and "dotted_set K" and "no_safe K"
  shows "registry_inv fc'"
  using assms dotted_set_mono [OF assms(5,4)] no_safe_mono [OF assms(6,4)]
  by (simp add: registry_inv_def dotted_keys_def)

lemma registry_inv_handle:
  assumes inv: "registry_inv fc" and "handle api mgr now alert fc s = (fc', s', nt)"
    and src: "from_host alert p q u v"
  shows "registry_inv fc'"
proof (cases "fc' = fc")
  case True
  then show ?thesis using inv by simp
next
  case False
  note h = handle_blocked [OF assms(2)]
  have "isSafeNetwork fc (IPv4 p q u v) = None" using False h src by simp
  then have "\<not> always_safe p q u v"
    using inv always_safe_discovered unfolding registry_inv_def by blast
  then show ?thesis
    using False h src inv
    by (intro registry_inv_subset [OF inv, of _ "insert (dotted p q u v) (go_keys (blocked fc))"])
       (simp_all add: registry_inv_def dotted_keys_def)
qed

lemma fb_reachable_registry: "fb_reachable api mgr s0 fc s \<Longrightarrow> registry_inv fc"
proof (induction rule: fb_reachable.induct)
  case (fb_new env)
  show ?case
    by (auto simp: registry_inv_def dotted_keys_def NewFeedbackController_def RefreshSafeNetworks_def)
next
  case (fb_event fc s ev ordB fc' s' go)
  from fb_event.hyps(4) show ?case
  proof (cases rule: Feedback_Run_event_cases)
    case stop
    then show ?thesis using fb_event.IH by simp
  next
    case (sweep now ns)
    note b = janitor_fold_blocked [OF sweep [unfolded runJanitor_def]]
    show ?thesis
      by (rule registry_inv_subset [OF fb_event.IH, of _ "go_keys (blocked fc)"])
         (use b fb_event.IH in \<open>simp_all add: registry_inv_def dotted_keys_def\<close>)
  next
    case (alert now alert nt)
    then show ?thesis using fb_event.IH fb_event.hyps(2) registry_inv_handle by auto
  qed
next
  case (fb_refresh fc s env)
  then show ?case by (simp add: registry_inv_def dotted_keys_def RefreshSafeNetworks_def) blast
qed

context ebpf_maps
begin

lemma fb_reachable_tracked:
  assumes mgr: "reputationMap mgr = Some h"
  shows "fb_reachable api mgr s0 fc s \<Longrightarrow> tracked_in_kernel h fc s"
proof (induction rule: fb_reachable.induct)
  case (fb_new env)
  show ?case
    by (simp add: tracked_in_kernel_def dotted_keys_def NewFeedbackController_def RefreshSafeNetworks_def)
next
  case (fb_event fc s ev ordB fc' s' go)
  from fb_event.hyps(4) show ?case
  proof (cases rule: Feedback_Run_event_cases)
    case stop
    then show ?thesis using fb_event.IH by simp
  next
    case (sweep now ns)
    have reach: "fb_reachable api mgr s0 fc' s'" using fb_event.hyps by (rule fb_reachable.fb_event)
    have dk: "dotted_keys fc" "dotted_keys fc'"
      using fb_reachable_registry [OF fb_event.hyps(1)] fb_reachable_registry [OF reach]
      by (auto simp: registry_inv_def)
    have "contents h s' (host_key a b c d) = Some (VU32 1)"
      if "dotted a b c d \<in> go_keys (blocked fc')" for a b c d
    proof -
      have "go_get (blocked fc') (dotted a b c d) \<noteq> None" using that by (simp add: go_get_None_iff)
      then have "untouched h fc s fc' s' a b c d"
        using runJanitor_effect [OF mgr dk(1) fb_event.hyps(3) sweep, of a b c d]
        by (auto simp: lifted_def split: if_splits)
      moreover have "dotted a b c d \<in> go_keys (blocked fc)"
        using calculation \<open>go_get (blocked fc') (dotted a b c d) \<noteq> None\<close>
        by (simp add: untouched_def go_get_None_iff)
      ultimately show ?thesis using fb_event.IH by (simp add: untouched_def tracked_in_kernel_def)
    qed
    with dk(2) show ?thesis by (simp add: tracked_in_kernel_def)
  next
    case (alert now alert nt)
    then obtain a b c d where "from_host alert a b c d" using fb_event.hyps(2) by auto
    then show ?thesis using handle_tracked [OF mgr _ alert(2)] fb_event.IH by blast
  qed
next
  case (fb_refresh fc s env)
  then show ?case by (simp add: tracked_in_kernel_def dotted_keys_def RefreshSafeNetworks_def)
qed


text \<open>
  When an update of a present host entry always succeeds, nothing is ever lost: the host
  entries of the reputation map are exactly the tracked addresses.
\<close>

definition reput_reliable :: "'h \<Rightarrow> bool" where
  "reput_reliable h \<longleftrightarrow> (\<forall>a b c d s. contents h s (host_key a b c d) \<noteq> None \<longrightarrow>
     fst (Map_Put api h (host_key a b c d) (VU32 1) s) = None)"

definition kernel_exact :: "'h \<Rightarrow> FeedbackController \<Rightarrow> 'k \<Rightarrow> bool" where
  "kernel_exact h fc s \<longleftrightarrow> (\<forall>a b c d.
     contents h s (host_key a b c d) \<noteq> None \<longleftrightarrow> go_get (blocked fc) (dotted a b c d) \<noteq> None)"

lemma BlockIP_reliable:
  assumes "reput_reliable h" and "reputationMap mgr = Some h"
    and "contents h s (host_key a b c d) \<noteq> None"
  shows "fst (BlockIP api mgr (dotted a b c d @ ''/32'') s) = None"
  using assms by (simp add: BlockIP_def NewLpmKey_slash32 put_wrap_def reput_reliable_def case_prod_unfold)

lemma handle_exact:
  assumes "reputationMap mgr = Some h" and "from_host alert a b c d"
    and "handle api mgr now alert fc s = (fc', s', nt)"
    and "reput_reliable h" and "kernel_exact h fc s"
  shows "kernel_exact h fc' s'"
  using assms(1-3)
proof (cases rule: handle_cases)
  case same
  then show ?thesis using assms(5) by simp
next
  case ok
  then show ?thesis using assms(5) by (simp add: kernel_exact_def dotted_inj)
next
  case (fail e)
  then have "contents h s (host_key a b c d) = None"
    using BlockIP_reliable [OF assms(4,1)] by fastforce
  moreover from this have "go_get (blocked fc) (dotted a b c d) = None"
    using assms(5) unfolding kernel_exact_def by blast
  ultimately show ?thesis
    using assms(5) fail unfolding kernel_exact_def by (auto simp: go_get_del dotted_inj)
qed

lemma fb_reachable_exact:
  assumes mgr: "reputationMap mgr = Some h" and rel: "reput_reliable h"
    and empty: "\<And>a b c d. contents h s0 (host_key a b c d) = None"
  shows "fb_reachable api mgr s0 fc s \<Longrightarrow> kernel_exact h fc s"
proof (induction rule: fb_reachable.induct)
  case (fb_new env)
  show ?case
    by (simp add: kernel_exact_def empty NewFeedbackController_def RefreshSafeNetworks_def)
next
  case (fb_event fc s ev ordB fc' s' go)
  from fb_event.hyps(4) show ?case
  proof (cases rule: Feedback_Run_event_cases)
    case stop
    then show ?thesis using fb_event.IH by simp
  next
    case (sweep now ns)
    have "dotted_keys fc"
      using fb_reachable_registry [OF fb_event.hyps(1)] by (simp add: registry_inv_def)
    from runJanitor_effect [OF mgr this fb_event.hyps(3) sweep]
    have "lifted h fc' s' a b c d \<or> untouched h fc s fc' s' a b c d" for a b c d
      by (metis (no_types, lifting))
    then show ?thesis
      using fb_event.IH unfolding kernel_exact_def lifted_def untouched_def by metis
  next
    case (alert now alert nt)
    then obtain a b c d where "from_host alert a b c d" using fb_event.hyps(2) by auto
    then show ?thesis using handle_exact [OF mgr _ alert(2) rel fb_event.IH] by blast
  qed
next
  case (fb_refresh fc s env)
  then show ?case by (simp add: kernel_exact_def RefreshSafeNetworks_def)
qed

end

section \<open>Example runs\<close>

text \<open>A host with no routes, links or resolvers; an alert from 203.0.113.7.\<close>

definition bare_host :: "nat host_env" where
  "bare_host = \<lparr>RouteList = Inl [], LinkList = Inl [], AddrList = \<lambda>_. Inl [], resolv_conf = None\<rparr>"

definition example_alert :: ThreatAlert where
  "example_alert = \<lparr>alert_SrcIP = dotted 203 0 113 7, alert_Attack = AttackSynFlood,
     alert_Probability = 1, DetectedAt = 0\<rparr>"

lemma bare_host_networks:
  "set (DiscoverSafeNetworks bare_host) =
     set [cidr 127 0 0 0 8, cidr 255 255 255 255 32, cidr 224 0 0 0 4] \<union>
     set [cidr 8 8 8 8 32, cidr 8 8 4 4 32, cidr 1 1 1 1 32, cidr 1 0 0 1 32]"
  unfolding DiscoverSafeNetworks_def static_networks
  by (simp add: bare_host_def discoverDefaultGateway_def discoverLocalSubnets_def
        discoverLocalResolvers_def insert_commute)

lemma example_not_safe: "isSafeNetwork (NewFeedbackController bare_host) (IPv4 203 0 113 7) = None"
proof -
  have "\<not> always_safe 203 0 113 7" unfolding always_safe_def by simp
  then show ?thesis
    unfolding isSafeNetwork_def find_None_iff NewFeedbackController_def RefreshSafeNetworks_def
    using always_safe_iff [of 203 0 113 7] by (simp only: bare_host_networks
        FeedbackController.select_convs FeedbackController.update_convs) blast
qed

end
