(* ===== verification/FeedbackSafety.thy ===== *)
theory FeedbackSafety
  imports FeedbackProps
begin

text \<open>
  The properties of the feedback controller, and the runs that witness them: on the kernel
  maps of \<^verbatim>\<open>maps.rs\<close>, and on the same maps with an update call that fails after its first
  success.
\<close>

section \<open>Runs on the kernel maps\<close>

abbreviation "fc0 \<equiv> NewFeedbackController bare_host"
abbreviation "src0 \<equiv> dotted 203 0 113 7"

lemma fc0_blocked [simp]: "blocked fc0 = []"
  by (simp add: NewFeedbackController_def RefreshSafeNetworks_def)

lemma example_alert_src [simp]: "alert_SrcIP example_alert = src0"
  by (simp add: example_alert_def)

definition fc1 :: FeedbackController where
  "fc1 = fc0\<lparr>blocked := [(src0, BlockTTL)]\<rparr>"

definition kernel1 :: kernel where
  "kernel1 = kernel_boot\<lparr>entries := [((REPUTATION_MAP, host_key 203 0 113 7), VU32 1)]\<rparr>"

lemma kernel_mgr_reputation [simp]: "reputationMap kernel_mgr = Some REPUTATION_MAP"
  by (simp add: kernel_mgr_def)

lemma kernel_put_example: "k_put REPUTATION_MAP (host_key 203 0 113 7) (VU32 1) kernel_boot = (None, kernel1)"
  unfolding k_put_def norm_host_key
  by (simp add: kernel1_def kernel_boot_def map_full_def k_contents_def REPUTATION_MAP_def)

lemma example_blocked:
  "handle kernel_api kernel_mgr 0 example_alert fc0 kernel_boot = (fc1, kernel1, Blocked example_alert)"
proof -
  have "BlockIP kernel_api kernel_mgr (src0 @ ''/32'') kernel_boot = (None, kernel1)"
    using kernel_put_example
    by (simp add: BlockIP_def NewLpmKey_slash32 put_wrap_def kernel_api_def)
  then show ?thesis
    using handle_new [OF example_alert_src example_not_safe, of 0 kernel_api kernel_mgr kernel_boot]
    by (simp add: active_def fc1_def)
qed

lemma kernel_run: "fb_reachable kernel_api kernel_mgr kernel_boot fc1 kernel1"
proof (rule fb_reachable.fb_event)
  show "fb_reachable kernel_api kernel_mgr kernel_boot fc0 kernel_boot" by (rule fb_reachable.fb_new)
  show "Feedback_Run_event kernel_api kernel_mgr (\<lambda>l. l) (FbAlert 0 example_alert) (fc0, kernel_boot) =
        ((fc1, kernel1), True)"
    by (simp add: example_blocked)
  show "ev_ok (FbAlert 0 example_alert)" by (simp only: ev_ok.simps example_alert_src) blast
qed simp

lemma kernel_reliable:
  "k_contents REPUTATION_MAP s (host_key a b c d) \<noteq> None \<Longrightarrow>
   fst (Map_Put kernel_api REPUTATION_MAP (host_key a b c d) (VU32 1) s) = None"
  unfolding kernel_api_def ebpf_api.simps k_put_def norm_host_key
  by (simp add: REPUTATION_MAP_def)

lemma fc1_keys [simp]: "go_keys (blocked fc1) = {src0}"
  by (simp add: fc1_def)

section \<open>A kernel whose updates stop succeeding\<close>

text \<open>The flag tells whether an update has succeeded before; then every further one fails.\<close>

definition flaky_put :: "kmap \<Rightarrow> bpf_val \<Rightarrow> bpf_val \<Rightarrow> kernel \<times> bool \<Rightarrow> ebpf_error option \<times> (kernel \<times> bool)" where
  "flaky_put h key v = (\<lambda>(s, used).
     if used then (Some (ErrSys ''ENOMEM''), (s, used))
     else case k_put h key v s of (err, s') \<Rightarrow> (err, (s', err = None)))"

definition flaky_api :: "(kmap, kernel \<times> bool) ebpf_api" where
  "flaky_api =
     \<lparr>LoadPinnedMap = \<lambda>p (s, u). case k_load p s of (r, s') \<Rightarrow> (r, (s', u)),
      Map_Close = \<lambda>h (s, u). (k_close h s, u),
      Map_Put = flaky_put,
      Map_Lookup = \<lambda>h key (s, u). k_lookup h key s,
      Map_Delete = \<lambda>h key (s, u). case k_delete h key s of (r, s') \<Rightarrow> (r, (s', u))\<rparr>"

lemma flaky_contract:
  "ebpf_maps flaky_api (\<lambda>h. k_contents h \<circ> fst) ksize vsize (\<lambda>s. mset (descriptors (fst s)))"
  by unfold_locales
     (auto simp: flaky_api_def flaky_put_def comp_def k_put_def k_lookup_def k_delete_def k_load_def
        k_close_def k_contents_put k_contents_del split: if_splits option.splits bpf_val.splits)

text \<open>Sweeps leave the kernel entry of an untracked address alone.\<close>

context ebpf_maps
begin

lemma sweeps_keep_untracked:
  assumes mgr: "reputationMap mgr = Some h"
  shows "dotted_keys fc \<Longrightarrow> go_get (blocked fc) (dotted a b c d) = None \<Longrightarrow>
    contents h (snd (fold (\<lambda>now st. fst (Feedback_Run_event api mgr (\<lambda>l. l) (FbJanitor now) st))
      sweeps (fc, s))) (host_key a b c d) = contents h s (host_key a b c d)"
proof (induction sweeps arbitrary: fc s)
  case Nil
  then show ?case by simp
next
  case (Cons now sweeps)
  obtain fc' s' ns where run: "runJanitor api mgr (\<lambda>l. l) now fc s = (fc', s', ns)"
    by (cases "runJanitor api mgr (\<lambda>l. l) now fc s")
  have "dotted_keys fc'"
    using Cons.prems(1) janitor_fold_blocked [OF run [unfolded runJanitor_def]] dotted_set_mono
    unfolding dotted_keys_def by blast
  moreover have "untouched h fc s fc' s' a b c d"
    using runJanitor_effect [OF mgr Cons.prems(1) _ run, of a b c d] Cons.prems(2) by simp
  ultimately show ?case
    using Cons.IH [of fc' s'] Cons.prems(2) run by (simp add: untouched_def)
qed

end

lemma flaky_run: "fb_reachable flaky_api kernel_mgr (kernel_boot, False) fc1 (kernel1, True)"
proof (rule fb_reachable.fb_event)
  have "BlockIP flaky_api kernel_mgr (src0 @ ''/32'') (kernel_boot, False) = (None, (kernel1, True))"
    using kernel_put_example
    by (simp add: BlockIP_def NewLpmKey_slash32 put_wrap_def flaky_api_def flaky_put_def)
  then have "handle flaky_api kernel_mgr 0 example_alert fc0 (kernel_boot, False) =
             (fc1, (kernel1, True), Blocked example_alert)"
    using handle_new [OF example_alert_src example_not_safe, of 0 flaky_api kernel_mgr]
    by (simp add: active_def fc1_def)
  then show "Feedback_Run_event flaky_api kernel_mgr (\<lambda>l. l) (FbAlert 0 example_alert)
               (fc0, (kernel_boot, False)) = ((fc1, (kernel1, True)), True)"
    by simp
  show "fb_reachable flaky_api kernel_mgr (kernel_boot, False) fc0 (kernel_boot, False)"
    by (rule fb_reachable.fb_new)
  show "ev_ok (FbAlert 0 example_alert)" by (simp only: ev_ok.simps example_alert_src) blast
qed simp

lemma flaky_block_fails:
  "BlockIP flaky_api kernel_mgr (src0 @ ''/32'') (kernel1, True) =
     (Some (ErrInsertIP (ErrSys ''ENOMEM'')), (kernel1, True))"
  by (simp add: BlockIP_def NewLpmKey_slash32 put_wrap_def flaky_api_def flaky_put_def)

section \<open>Properties\<close>

text \<open>
  (C5) Infrastructure is never blocked.  In every state the controller can reach, whatever the
  host reports and whatever alerts came before, an alert whose source is a loopback or
  multicast address, the broadcast address, one of the listed public resolvers or inside any
  other registered network leaves the controller and the kernel exactly as they were, and no
  always-safe address is ever in the tracking table.
\<close>

theorem safe_sources_exempt:
  assumes "fb_reachable api mgr s0 fc s" and "alert_SrcIP alert = dotted a b c d"
    and "always_safe a b c d \<or> (\<exists>n \<in> set (safeNetworks fc). Contains n (IPv4 a b c d))"
  shows "(\<exists>n. handle api mgr now alert fc s = (fc, s, Exempted alert n)) \<and>
         (always_safe a b c d \<longrightarrow> dotted a b c d \<notin> go_keys (blocked fc))"
proof -
  have inv: "registry_inv fc" using assms(1) by (rule fb_reachable_registry)
  then have "isSafeNetwork fc (IPv4 a b c d) \<noteq> None"
    using assms(3) always_safe_discovered [of a b c d fc]
    by (auto simp: registry_inv_def isSafeNetwork_def find_None_iff)
  then obtain n where "isSafeNetwork fc (IPv4 a b c d) = Some n" by auto
  then have "handle api mgr now alert fc s = (fc, s, Exempted alert n)"
    by (rule handle_safe [OF assms(2)])
  then show ?thesis using inv unfolding registry_inv_def no_safe_def by blast
qed

theorem safe_sources_exempt_witness:
  "(\<exists>n. handle kernel_api kernel_mgr 5 (example_alert\<lparr>alert_SrcIP := dotted 127 0 0 1\<rparr>) fc1 kernel1 =
      (fc1, kernel1, Exempted (example_alert\<lparr>alert_SrcIP := dotted 127 0 0 1\<rparr>) n)) \<and>
   dotted 127 0 0 1 \<notin> go_keys (blocked fc1)"
proof -
  have safe: "always_safe 127 0 0 1" by (simp add: always_safe_def)
  have src: "alert_SrcIP (example_alert\<lparr>alert_SrcIP := dotted 127 0 0 1\<rparr>) = dotted 127 0 0 1" by simp
  show ?thesis
    using safe_sources_exempt [OF kernel_run src disjI1 [OF safe], of 5] safe by blast
qed

text \<open>
  (C16) What an alert from an IPv4 source does, on every branch: from a safe network or with an
  unexpired block nothing changes; otherwise, if the kernel accepts the block, the address
  is in the reputation map and tracked until 300 seconds from now and nothing else changes;
  if the kernel refuses, no map changes and the address is no longer tracked.
\<close>

theorem handle_outcome:
  assumes "ebpf_maps api contents key_size value_size opened" and "reputationMap mgr = Some h"
    and "alert_SrcIP alert = dotted a b c d"
    and "handle api mgr now alert fc s = (fc', s', nt)"
  shows "if isSafeNetwork fc (IPv4 a b c d) \<noteq> None \<or>
            (\<exists>t. go_get (blocked fc) (dotted a b c d) = Some t \<and> now < t)
         then fc' = fc \<and> s' = s
         else safeNetworks fc' = safeNetworks fc \<and>
              (nt = Blocked alert \<and>
               go_get (blocked fc') = (go_get (blocked fc))(dotted a b c d \<mapsto> now + 300000000000) \<and>
               contents h s' = (contents h s)(host_key a b c d \<mapsto> VU32 1) \<or>
               (\<exists>e. nt = BlockFailed alert e) \<and>
               go_get (blocked fc') = (go_get (blocked fc))(dotted a b c d := None) \<and>
               contents h s' = contents h s)"
proof -
  have act: "(\<exists>t. go_get (blocked fc) (dotted a b c d) = Some t \<and> now < t) \<longleftrightarrow>
             active now (dotted a b c d) fc"
    by (auto simp: active_def split: option.split)
  show ?thesis
  proof (cases rule: ebpf_maps.handle_cases [OF assms, consumes 0, case_names same ok fail])
    case same
    then show ?thesis by (simp add: act)
  next
    case ok
    then show ?thesis
      using assms(4) handle_active [OF assms(3), of fc now api mgr s]
        handle_safe [OF assms(3), of fc _ api mgr now s]
      by (auto simp: act BlockTTL_def fun_eq_iff)
  next
    case (fail e)
    then show ?thesis
      using assms(4) handle_active [OF assms(3), of fc now api mgr s]
        handle_safe [OF assms(3), of fc _ api mgr now s]
      by (auto simp: act fun_eq_iff go_get_del)
  qed
qed

theorem handle_outcome_witness:
  "go_get (blocked fc1) = (go_get (blocked fc0))(src0 \<mapsto> 0 + 300000000000) \<and>
   k_contents REPUTATION_MAP kernel1 =
     (k_contents REPUTATION_MAP kernel_boot)(host_key 203 0 113 7 \<mapsto> VU32 1)"
  using handle_outcome [OF kernel_contract kernel_mgr_reputation example_alert_src example_blocked]
    example_not_safe by (simp add: fun_eq_iff)

text \<open>
  (C15) The janitor's sweep, address by address.  An address whose block has not expired keeps
  its expiry and its kernel entry.  An expired one is either removed from both the kernel and
  the tracking table, or, if the kernel refused, reported and kept in both for the next sweep.
  This holds in every reachable state and for every order of the map.
\<close>

theorem janitor_sweep:
  assumes "ebpf_maps api contents key_size value_size opened" and "reputationMap mgr = Some h"
    and "fb_reachable api mgr s0 fc s" and "\<And>l. mset (ordB l) = mset l"
    and "runJanitor api mgr ordB now fc s = (fc', s', ns)"
    and "go_get (blocked fc) (dotted a b c d) = Some t"
  shows "if t < now
         then go_get (blocked fc') (dotted a b c d) = None \<and> contents h s' (host_key a b c d) = None \<or>
              (\<exists>e. UnblockFailed (dotted a b c d) e \<in> set ns) \<and>
              go_get (blocked fc') (dotted a b c d) = Some t \<and>
              contents h s' (host_key a b c d) = Some (VU32 1)
         else go_get (blocked fc') (dotted a b c d) = Some t \<and>
              contents h s' (host_key a b c d) = Some (VU32 1)"
proof -
  have "dotted_keys fc"
    using fb_reachable_registry [OF assms(3)] by (simp add: registry_inv_def)
  note sweep = ebpf_maps.runJanitor_effect [OF assms(1,2) this assms(4,5), of a b c d]
  have "dotted a b c d \<in> go_keys (blocked fc)"
    using assms(6) go_get_None_iff [of "blocked fc" "dotted a b c d"] by simp
  then have "contents h s (host_key a b c d) = Some (VU32 1)"
    using ebpf_maps.fb_reachable_tracked [OF assms(1-3)]
    by (simp add: ebpf_maps.tracked_in_kernel_def [OF assms(1)])
  then show ?thesis
    using sweep assms(6)
    by (auto simp: ebpf_maps.untouched_def [OF assms(1)] ebpf_maps.lifted_def [OF assms(1)]
          split: if_splits)
qed

theorem janitor_sweep_witness:
  "case runJanitor kernel_api kernel_mgr (\<lambda>l. l) 300000000001 fc1 kernel1 of (fc', s', ns) \<Rightarrow>
     go_get (blocked fc') src0 = None \<and> k_contents REPUTATION_MAP s' (host_key 203 0 113 7) = None \<or>
     (\<exists>e. UnblockFailed src0 e \<in> set ns) \<and> go_get (blocked fc') src0 = Some 300000000000 \<and>
     k_contents REPUTATION_MAP s' (host_key 203 0 113 7) = Some (VU32 1)"
proof (cases "runJanitor kernel_api kernel_mgr (\<lambda>l. l) 300000000001 fc1 kernel1")
  case (fields fc' s' ns)
  have "go_get (blocked fc1) src0 = Some 300000000000" by (simp add: fc1_def BlockTTL_def)
  from janitor_sweep [OF kernel_contract kernel_mgr_reputation kernel_run refl fields this]
  show ?thesis using fields by simp
qed

text \<open>
  In every state the controller can reach, each address it tracks is blocked in the kernel:
  its host entry is in the reputation map with value 1.
\<close>

theorem tracked_addresses_blocked:
  assumes "ebpf_maps api contents key_size value_size opened" and "reputationMap mgr = Some h"
    and "fb_reachable api mgr s0 fc s" and "dotted a b c d \<in> go_keys (blocked fc)"
  shows "contents h s (host_key a b c d) = Some (VU32 1)"
  using ebpf_maps.fb_reachable_tracked [OF assms(1-3)] assms(4)
  by (simp add: ebpf_maps.tracked_in_kernel_def [OF assms(1)])

theorem tracked_addresses_blocked_witness:
  "k_contents REPUTATION_MAP kernel1 (host_key 203 0 113 7) = Some (VU32 1)"
  by (rule tracked_addresses_blocked [OF kernel_contract kernel_mgr_reputation kernel_run]) simp

text \<open>
  No block is forgotten, provided the kernel never refuses to rewrite an entry it already
  has: starting with no host entries, in every reachable state the host entries of the
  reputation map are exactly the addresses the controller tracks, so each of them will be
  swept.
\<close>

theorem no_forgotten_blocks:
  assumes "ebpf_maps api contents key_size value_size opened" and "reputationMap mgr = Some h"
    and "\<And>a b c d. contents h s0 (host_key a b c d) = None"
    and "\<And>a b c d s. contents h s (host_key a b c d) \<noteq> None \<Longrightarrow>
           fst (Map_Put api h (host_key a b c d) (VU32 1) s) = None"
    and "fb_reachable api mgr s0 fc s"
  shows "contents h s (host_key a b c d) \<noteq> None \<longleftrightarrow> go_get (blocked fc) (dotted a b c d) \<noteq> None"
proof -
  have "ebpf_maps.reput_reliable api contents h"
    using assms(4) by (simp add: ebpf_maps.reput_reliable_def [OF assms(1)])
  from ebpf_maps.fb_reachable_exact [OF assms(1,2) this assms(3,5)]
  show ?thesis by (simp add: ebpf_maps.kernel_exact_def [OF assms(1)])
qed

theorem no_forgotten_blocks_witness:
  "k_contents REPUTATION_MAP kernel1 (host_key 203 0 113 7) \<noteq> None \<longleftrightarrow>
   go_get (blocked fc1) src0 \<noteq> None"
  by (rule no_forgotten_blocks [OF kernel_contract kernel_mgr_reputation _ _ kernel_run])
     (simp_all add: kernel_reliable, simp add: k_contents_def kernel_boot_def REPUTATION_MAP_def)

text \<open>
  (C23) A block can be forgotten when that proviso fails.  If an alert arrives for an address
  whose block has expired but was not swept yet, and the kernel refuses to rewrite the entry,
  the controller stops tracking the address although it is still blocked in the kernel, and
  no later sweep, at any time, removes the entry.
\<close>

theorem failed_reblock_forgets:
  assumes "ebpf_maps api contents key_size value_size opened" and "reputationMap mgr = Some h"
    and "fb_reachable api mgr s0 fc s" and "alert_SrcIP alert = dotted a b c d"
    and "isSafeNetwork fc (IPv4 a b c d) = None"
    and "go_get (blocked fc) (dotted a b c d) = Some t" and "t \<le> now"
    and "BlockIP api mgr (dotted a b c d @ ''/32'') s = (Some e, s1)"
  shows "\<exists>fc' nt. handle api mgr now alert fc s = (fc', s1, nt) \<and>
           go_get (blocked fc') (dotted a b c d) = None \<and>
           contents h s1 (host_key a b c d) = Some (VU32 1) \<and>
           contents h (snd (fold (\<lambda>now st. fst (Feedback_Run_event api mgr (\<lambda>l. l) (FbJanitor now) st))
             sweeps (fc', s1))) (host_key a b c d) = Some (VU32 1)"
proof -
  have "\<not> active now (dotted a b c d) fc" using assms(6,7) by (simp add: active_def)
  then obtain fc' nt where h: "handle api mgr now alert fc s = (fc', s1, nt)"
    and gone: "go_get (blocked fc') (dotted a b c d) = None"
    using handle_new [OF assms(4,5), of now api mgr s] assms(8) by (simp add: go_get_del)
  have "dotted a b c d \<in> go_keys (blocked fc)"
    using assms(6) go_get_None_iff [of "blocked fc" "dotted a b c d"] by simp
  then have "contents h s (host_key a b c d) = Some (VU32 1)"
    using ebpf_maps.fb_reachable_tracked [OF assms(1-3)]
    by (simp add: ebpf_maps.tracked_in_kernel_def [OF assms(1)])
  then have k: "contents h s1 (host_key a b c d) = Some (VU32 1)"
    using ebpf_maps.BlockIP_err [OF assms(1,8)] by simp
  have "dotted_keys fc'"
    using fb_reachable_registry [OF assms(3)] registry_inv_handle [OF _ h assms(4)]
    by (simp add: registry_inv_def)
  then have "contents h (snd (fold (\<lambda>now st. fst (Feedback_Run_event api mgr (\<lambda>l. l) (FbJanitor now) st))
      sweeps (fc', s1))) (host_key a b c d) = contents h s1 (host_key a b c d)"
    using gone by (rule ebpf_maps.sweeps_keep_untracked [OF assms(1,2)])
  then show ?thesis using h gone k by auto
qed

theorem failed_reblock_forgets_witness:
  "\<exists>fc' nt. handle flaky_api kernel_mgr 300000000000 example_alert fc1 (kernel1, True) =
       (fc', (kernel1, True), nt) \<and>
     go_get (blocked fc') src0 = None \<and>
     (k_contents REPUTATION_MAP \<circ> fst) (kernel1, True) (host_key 203 0 113 7) = Some (VU32 1) \<and>
     (k_contents REPUTATION_MAP \<circ> fst)
       (snd (fold (\<lambda>now st. fst (Feedback_Run_event flaky_api kernel_mgr (\<lambda>l. l) (FbJanitor now) st))
         [330000000000, 360000000000] (fc', (kernel1, True)))) (host_key 203 0 113 7) = Some (VU32 1)"
proof -
  have safe: "isSafeNetwork fc1 (IPv4 203 0 113 7) = None"
    using example_not_safe by (simp add: isSafeNetwork_def fc1_def)
  have exp: "go_get (blocked fc1) src0 = Some 300000000000" by (simp add: fc1_def BlockTTL_def)
  show ?thesis
    by (rule failed_reblock_forgets [OF flaky_contract kernel_mgr_reputation flaky_run
          example_alert_src safe exp order_refl flaky_block_fails])
qed

end
