(* ===== verification/BlockList.thy ===== *)
theory BlockList
  imports FeedbackSafety
begin

text \<open>
  What the feedback controller promises, without its tables and system calls: a list of
  blocked hosts with expiry times, which only changes by blocking a host that is neither safe
  nor still blocked, for five minutes, and by lifting blocks that have expired.  The controller
  of \<^verbatim>\<open>feedback.go\<close> together with the kernel's reputation map refines it.
\<close>

section \<open>The specification\<close>

text \<open>
  The list is a deterministic machine.  Its events carry the time at which they happen and the
  answers of the kernel: whether it accepts the entry of a host, and which removals it refuses.
\<close>

type_synonym host = "u8 \<times> u8 \<times> u8 \<times> u8"

datatype bl_event =
    BlAlert int host bool
  | BlSweep int "host set"
  | BlEnd

fun bl_next :: "host set \<Rightarrow> bl_event \<Rightarrow> (host \<rightharpoonup> int) \<Rightarrow> (host \<rightharpoonup> int)" where
  "bl_next safe (BlAlert now x accepted) m =
     (if x \<in> safe \<or> (\<exists>t. m x = Some t \<and> now < t) \<or> \<not> accepted then m
      else m(x \<mapsto> now + 300 * 1000000000))"
| "bl_next safe (BlSweep now refused) m =
     m |` (refused \<union> {x. \<forall>t. m x = Some t \<longrightarrow> now \<le> t})"
| "bl_next safe BlEnd m = m"

text \<open>No event blocks a safe host; a block ends by a sweep after its time, and only so.\<close>

lemma bl_next_safe: "x \<in> safe \<Longrightarrow> m x = None \<Longrightarrow> bl_next safe ev m x = None"
  by (cases ev) (auto simp: restrict_map_def)

lemma bl_next_keeps:
  assumes "m x = Some t" and "bl_next safe ev m x = None"
  shows "\<exists>now refused. ev = BlSweep now refused \<and> t < now \<and> x \<notin> refused"
  using assms by (cases ev) (auto simp: restrict_map_def split: if_splits)

section \<open>The abstraction\<close>

definition abs_blocks :: "FeedbackController \<Rightarrow> (host \<rightharpoonup> int)" where
  "abs_blocks fc = (\<lambda>(a, b, c, d). go_get (blocked fc) (dotted a b c d))"

definition safe_hosts :: "FeedbackController \<Rightarrow> host set" where
  "safe_hosts fc = {(a, b, c, d). isSafeNetwork fc (IPv4 a b c d) \<noteq> None}"

definition kernel_hosts :: "('k \<Rightarrow> bpf_val \<Rightarrow> bpf_val option) \<Rightarrow> 'k \<Rightarrow> host set" where
  "kernel_hosts cont s = {(a, b, c, d). cont s (host_key a b c d) \<noteq> None}"

lemma abs_blocks_set:
  "blocked fc' = go_set (blocked fc) (dotted a b c d) t \<Longrightarrow> abs_blocks fc' = (abs_blocks fc)((a, b, c, d) \<mapsto> t)"
  by (auto simp: abs_blocks_def fun_eq_iff dotted_inj)

text \<open>
  The event of the list that a receive of the controller's select stands for: the host of an
  alert with the kernel's answer to an update of its entry, and the hosts a sweep reports as
  refused.
\<close>

definition refused_unblocks ::
    "('h, 'k) ebpf_api \<Rightarrow> 'h MapManager \<Rightarrow> ((string \<times> int) list \<Rightarrow> (string \<times> int) list) \<Rightarrow> int \<Rightarrow>
     FeedbackController \<Rightarrow> 'k \<Rightarrow> host set" where
  "refused_unblocks api mgr ordB now fc s =
     {(a, b, c, d). \<exists>e. UnblockFailed (dotted a b c d) e \<in> set (snd (snd (runJanitor api mgr ordB now fc s)))}"

inductive stands_for ::
    "('h, 'k) ebpf_api \<Rightarrow> 'h MapManager \<Rightarrow> 'h \<Rightarrow> ((string \<times> int) list \<Rightarrow> (string \<times> int) list) \<Rightarrow>
     FeedbackController \<Rightarrow> 'k \<Rightarrow> fb_event \<Rightarrow> bl_event \<Rightarrow> bool" for api mgr h ordB fc s where
  sf_alert: "from_host alert a b c d \<Longrightarrow>
    stands_for api mgr h ordB fc s (FbAlert now alert)
      (BlAlert now (a, b, c, d) (fst (Map_Put api h (host_key a b c d) (VU32 1) s) = None))"
| sf_sweep: "stands_for api mgr h ordB fc s (FbJanitor now) (BlSweep now (refused_unblocks api mgr ordB now fc s))"
| sf_ctx: "stands_for api mgr h ordB fc s FbCtxDone BlEnd"
| sf_closed: "stands_for api mgr h ordB fc s FbAlertsClosed BlEnd"

lemma stands_for_total: "ev_ok ev \<Longrightarrow> \<exists>bev. stands_for api mgr h ordB fc s ev bev"
  by (cases ev) (auto intro: stands_for.intros)

context ebpf_maps
begin

lemma kernel_exact_hosts: "kernel_exact h fc s \<longleftrightarrow> kernel_hosts (contents h) s = dom (abs_blocks fc)"
proof -
  have "(a, b, c, d) \<in> kernel_hosts (contents h) s \<longleftrightarrow> contents h s (host_key a b c d) \<noteq> None"
    "(a, b, c, d) \<in> dom (abs_blocks fc) \<longleftrightarrow> go_get (blocked fc) (dotted a b c d) \<noteq> None" for a b c d
    by (auto simp: kernel_hosts_def abs_blocks_def)
  then show ?thesis unfolding kernel_exact_def set_eq_iff by (simp only: split_paired_All)
qed

lemma alert_refines:
  assumes mgr: "reputationMap mgr = Some h" and src: "from_host alert a b c d"
    and res: "handle api mgr now alert fc s = (fc', s', nt)"
    and rel: "reput_reliable h" and exact: "kernel_exact h fc s"
  shows "abs_blocks fc' = bl_next (safe_hosts fc)
           (BlAlert now (a, b, c, d) (fst (Map_Put api h (host_key a b c d) (VU32 1) s) = None)) (abs_blocks fc)"
proof -
  have put: "fst (BlockIP api mgr (dotted a b c d @ ''/32'') s) = None \<longleftrightarrow>
      fst (Map_Put api h (host_key a b c d) (VU32 1) s) = None"
    using mgr by (simp add: BlockIP_def NewLpmKey_slash32 put_wrap_def case_prod_unfold)
  have guard: "(a, b, c, d) \<in> safe_hosts fc \<longleftrightarrow> isSafeNetwork fc (IPv4 a b c d) \<noteq> None"
    "(\<exists>t. abs_blocks fc (a, b, c, d) = Some t \<and> now < t) \<longleftrightarrow> active now (dotted a b c d) fc"
    by (auto simp: safe_hosts_def abs_blocks_def active_def split: option.splits)
  show ?thesis
    using mgr src res
  proof (cases rule: handle_cases)
    case same
    then show ?thesis by (auto simp: guard)
  next
    case ok
    then have new: "isSafeNetwork fc (IPv4 a b c d) = None" "\<not> active now (dotted a b c d) fc"
      using res handle_safe [OF src, of fc _ api mgr now s] handle_active [OF src, of fc now api mgr s]
      by (cases "isSafeNetwork fc (IPv4 a b c d)"; auto)+
    then have "fst (BlockIP api mgr (dotted a b c d @ ''/32'') s) = None"
      using res ok(3) handle_new [OF src new, of api mgr s]
      by (auto split: prod.splits option.splits)
    then show ?thesis using new put abs_blocks_set [OF ok(1)] by (simp add: guard BlockTTL_def)
  next
    case (fail e)
    then have "contents h s (host_key a b c d) = None" using BlockIP_reliable [OF rel mgr] by fastforce
    then have none: "go_get (blocked fc) (dotted a b c d) = None"
      using exact unfolding kernel_exact_def by blast
    have "abs_blocks fc' = abs_blocks fc"
      using fail(1) none by (auto simp: abs_blocks_def fun_eq_iff go_get_del dotted_inj)
    then show ?thesis using fail(4) put by simp
  qed
qed

lemma janitor_fold_refusals:
  assumes mgr: "reputationMap mgr = Some h"
    and "fold (janitor_entry api mgr) L (fc, s, ns) = (fc', s', ns')"
    and "distinct L" and "\<forall>ip \<in> set L. \<exists>a b c d. ip = dotted a b c d"
    and "UnblockFailed (dotted a b c d) e \<in> set ns' - set ns"
  shows "dotted a b c d \<in> set L \<and> go_get (blocked fc') (dotted a b c d) = go_get (blocked fc) (dotted a b c d)"
  using assms(2-)
proof (induction L arbitrary: fc s ns)
  case Nil
  then show ?case by simp
next
  case (Cons ip L)
  obtain p q u v where ip: "ip = dotted p q u v" using Cons.prems(3) by auto
  obtain fc1 s1 ns1 where en: "janitor_entry api mgr ip (fc, s, ns) = (fc1, s1, ns1)"
    by (cases "janitor_entry api mgr ip (fc, s, ns)")
  have rest: "fold (janitor_entry api mgr) L (fc1, s1, ns1) = (fc', s', ns')"
    using Cons.prems(1) en by simp
  have dist: "distinct L" "ip \<notin> set L" and dot: "\<forall>ip \<in> set L. \<exists>a b c d. ip = dotted a b c d"
    using Cons.prems(2,3) by auto
  note IH = Cons.IH [OF rest dist(1) dot]
  show ?case
    using mgr en [unfolded ip]
  proof (cases rule: janitor_entry_cases)
    case gone
    then have "UnblockFailed (dotted a b c d) e \<in> set ns' - set ns1" using Cons.prems(4) by auto
    then show ?thesis using IH gone(1) dist(2) ip by (auto simp: go_get_del dotted_inj)
  next
    case (kept e')
    show ?thesis
    proof (cases "UnblockFailed (dotted a b c d) e \<in> set ns1")
      case True
      then have self: "dotted a b c d = ip" using kept(3) Cons.prems(4) ip by auto
      then have "untouched h fc1 s1 fc' s' a b c d" using janitor_fold [OF mgr rest dist(1) dot] dist(2) by blast
      then show ?thesis using self kept(1) by (simp add: untouched_def)
    next
      case False
      then show ?thesis using IH Cons.prems(4) kept(1) by simp
    qed
  qed
qed

lemma janitor_fold_no_refusal:
  assumes mgr: "reputationMap mgr = Some h"
    and del: "\<And>a b c d s. fst (Map_Delete api h (host_key a b c d) s) \<in> {None, Some ErrKeyNotExist}"
    and "fold (janitor_entry api mgr) L (fc, s, ns) = (fc', s', ns')"
    and "\<forall>ip \<in> set L. \<exists>a b c d. ip = dotted a b c d"
  shows "UnblockFailed ip e \<in> set ns' \<Longrightarrow> UnblockFailed ip e \<in> set ns"
  using assms(3-)
proof (induction L arbitrary: fc s ns)
  case Nil
  then show ?case by simp
next
  case (Cons k L)
  obtain p q u v where k: "k = dotted p q u v" using Cons.prems(3) by auto
  obtain err s1 where d: "Map_Delete api h (host_key p q u v) s = (err, s1)"
    by (cases "Map_Delete api h (host_key p q u v) s")
  then have "err \<in> {None, Some ErrKeyNotExist}" using del [of p q u v s] by simp
  then have un: "UnblockIP api mgr (dotted p q u v @ ''/32'') s = (None, s1)"
    using mgr d by (auto simp: UnblockIP_def NewLpmKey_slash32)
  then have "janitor_entry api mgr k (fc, s, ns) = (fc\<lparr>blocked := go_del (blocked fc) k\<rparr>, s1, ns @ [Unblocked k])"
    by (simp add: janitor_entry_def k)
  then have "fold (janitor_entry api mgr) L
      (fc\<lparr>blocked := go_del (blocked fc) k\<rparr>, s1, ns @ [Unblocked k]) = (fc', s', ns')"
    using Cons.prems(2) by simp
  from Cons.IH [OF Cons.prems(1) this] show ?case using Cons.prems(3) by simp
qed

lemma sweep_refines:
  assumes "reputationMap mgr = Some h" and "dotted_keys fc" and "\<And>l. mset (ordB l) = mset l"
    and "runJanitor api mgr ordB now fc s = (fc', s', ns)"
  shows "abs_blocks fc' = bl_next safe (BlSweep now (refused_unblocks api mgr ordB now fc s)) (abs_blocks fc)"
proof (rule ext, clarify)
  fix a b c d
  note fold = assms(4) [unfolded runJanitor_def]
  note exp = expired_entries_dotted [where ordB = ordB, OF assms(2,3)]
  have ref: "(a, b, c, d) \<in> refused_unblocks api mgr ordB now fc s \<longleftrightarrow> (\<exists>e. UnblockFailed (dotted a b c d) e \<in> set ns)"
    by (simp add: refused_unblocks_def assms(4))
  have same: "go_get (blocked fc') (dotted a b c d) = go_get (blocked fc) (dotted a b c d)"
    if "(a, b, c, d) \<in> refused_unblocks api mgr ordB now fc s"
    using that ref janitor_fold_refusals [OF assms(1) fold exp(1,2)] by auto
  show "abs_blocks fc' (a, b, c, d) =
      bl_next safe (BlSweep now (refused_unblocks api mgr ordB now fc s)) (abs_blocks fc) (a, b, c, d)"
    using runJanitor_effect [OF assms, of a b c d] ref same
    by (auto simp: restrict_map_def abs_blocks_def lifted_def untouched_def split: if_splits)
qed

lemma event_refines:
  assumes mgr: "reputationMap mgr = Some h" and rel: "reput_reliable h"
    and empty: "\<And>a b c d. contents h s0 (host_key a b c d) = None"
    and reach: "fb_reachable api mgr s0 fc s" and "stands_for api mgr h ordB fc s ev bev"
    and ord: "\<And>l. mset (ordB l) = mset l"
    and ev: "Feedback_Run_event api mgr ordB ev (fc, s) = ((fc', s'), go)"
  shows "abs_blocks fc' = bl_next (safe_hosts fc) bev (abs_blocks fc)"
  using assms(5)
proof cases
  case (sf_alert alert a b c d now)
  obtain nt where "handle api mgr now alert fc s = (fc', s', nt)"
    using ev sf_alert(1) by (auto split: prod.splits)
  then show ?thesis
    using alert_refines [OF mgr sf_alert(3) _ rel fb_reachable_exact [OF mgr rel empty reach]] sf_alert(2) by simp
next
  case (sf_sweep now)
  obtain ns where "runJanitor api mgr ordB now fc s = (fc', s', ns)"
    using ev sf_sweep(1) by (auto split: prod.splits)
  moreover have "dotted_keys fc" using fb_reachable_registry [OF reach] by (simp add: registry_inv_def)
  ultimately show ?thesis using sweep_refines [where ordB = ordB, OF mgr _ ord] sf_sweep(2) by blast
qed (use ev in simp_all)

lemma reliable_deletes:
  assumes "reputationMap mgr = Some h" and "dotted_keys fc" and "\<And>l. mset (ordB l) = mset l"
    and "\<And>a b c d s. fst (Map_Delete api h (host_key a b c d) s) \<in> {None, Some ErrKeyNotExist}"
  shows "refused_unblocks api mgr ordB now fc s = {}"
proof (cases "runJanitor api mgr ordB now fc s")
  case (fields fc' s' ns)
  then have "UnblockFailed ip e \<notin> set ns" for ip e
    using janitor_fold_no_refusal [OF assms(1,4) fields [unfolded runJanitor_def]
        expired_entries_dotted(2) [where ordB = ordB, OF assms(2,3)]] by auto
  then show ?thesis using fields by (auto simp: refused_unblocks_def)
qed

end

section \<open>Properties\<close>

text \<open>
  (C6) The controller and the kernel refine the block list, provided the kernel never refuses
  to rewrite an entry it has and starts without host entries.  In every reachable state the
  hosts the kernel blocks are those of the list, and what the controller receives next moves
  the list as its specification says: an alert at time \<open>now\<close> about a host that is neither safe
  nor still blocked, whose entry the kernel accepts, blocks it until exactly \<open>now\<close> plus 300
  seconds, and any other alert changes nothing; a sweep at time \<open>now\<close> lifts exactly the blocks
  whose time has passed, less those the kernel refused to remove, and there are none of these
  when removals fail at most for a missing entry; the end of the loop changes nothing.  Every
  receive of an IPv4 alert, a tick or an end stands for an event of the list.
\<close>

theorem controller_refines_blocklist:
  assumes "ebpf_maps api contents key_size value_size opened" and "reputationMap mgr = Some h"
    and "\<And>a b c d. contents h s0 (host_key a b c d) = None"
    and "\<And>a b c d s. contents h s (host_key a b c d) \<noteq> None \<Longrightarrow>
           fst (Map_Put api h (host_key a b c d) (VU32 1) s) = None"
    and "fb_reachable api mgr s0 fc s" and "ev_ok ev" and "\<And>l. mset (ordB l) = mset l"
    and "Feedback_Run_event api mgr ordB ev (fc, s) = ((fc', s'), go)"
  shows "kernel_hosts (contents h) s = dom (abs_blocks fc) \<and>
         kernel_hosts (contents h) s' = dom (abs_blocks fc') \<and>
         (\<exists>bev. stands_for api mgr h ordB fc s ev bev) \<and>
         (\<forall>bev. stands_for api mgr h ordB fc s ev bev \<longrightarrow>
            abs_blocks fc' = bl_next (safe_hosts fc) bev (abs_blocks fc)) \<and>
         ((\<forall>a b c d s. fst (Map_Delete api h (host_key a b c d) s) \<in> {None, Some ErrKeyNotExist}) \<longrightarrow>
            refused_unblocks api mgr ordB now fc s = {})"
proof -
  have rel: "ebpf_maps.reput_reliable api contents h"
    using assms(4) by (simp add: ebpf_maps.reput_reliable_def [OF assms(1)])
  note exact = ebpf_maps.fb_reachable_exact [OF assms(1,2) rel assms(3)]
  have "fb_reachable api mgr s0 fc' s'" using fb_reachable.fb_event [OF assms(5-8)] .
  then have "kernel_hosts (contents h) s = dom (abs_blocks fc) \<and> kernel_hosts (contents h) s' = dom (abs_blocks fc')"
    using exact [OF assms(5)] exact by (simp add: ebpf_maps.kernel_exact_hosts [OF assms(1)])
  moreover have "dotted_keys fc" using fb_reachable_registry [OF assms(5)] by (simp add: registry_inv_def)
  then have "(\<forall>a b c d s. fst (Map_Delete api h (host_key a b c d) s) \<in> {None, Some ErrKeyNotExist}) \<longrightarrow>
      refused_unblocks api mgr ordB now fc s = {}"
    using ebpf_maps.reliable_deletes [OF assms(1,2) _ assms(7)] by blast
  moreover have "abs_blocks fc' = bl_next (safe_hosts fc) bev (abs_blocks fc)"
    if "stands_for api mgr h ordB fc s ev bev" for bev
    by (rule ebpf_maps.event_refines [OF assms(1,2) rel assms(3,5) that assms(7,8)])
  ultimately show ?thesis using stands_for_total [OF assms(6)] by (intro conjI) simp_all
qed

lemma kernel_boot_no_hosts: "k_contents REPUTATION_MAP kernel_boot (host_key a b c d) = None"
  by (simp add: k_contents_def kernel_boot_def REPUTATION_MAP_def)

lemma kernel_deletes: "fst (Map_Delete kernel_api REPUTATION_MAP (host_key a b c d) s) \<in> {None, Some ErrKeyNotExist}"
  by (simp add: kernel_api_def k_delete_def REPUTATION_MAP_def)

theorem controller_refines_blocklist_witness:
  "abs_blocks fc1 = [(203, 0, 113, 7) \<mapsto> 300 * 1000000000] \<and>
   (case Feedback_Run_event kernel_api kernel_mgr (\<lambda>l. l) (FbJanitor 300000000001) (fc1, kernel1) of
      ((fc', s'), go) \<Rightarrow> abs_blocks fc' = Map.empty \<and> kernel_hosts (k_contents REPUTATION_MAP) s' = {}) \<and>
   (case Feedback_Run_event kernel_api kernel_mgr (\<lambda>l. l) (FbJanitor 300000000000) (fc1, kernel1) of
      ((fc', s'), go) \<Rightarrow> abs_blocks fc' = [(203, 0, 113, 7) \<mapsto> 300 * 1000000000])"
proof -
  note step = controller_refines_blocklist [where h = REPUTATION_MAP and ordB = "\<lambda>l. l", OF kernel_contract kernel_mgr_reputation
      kernel_boot_no_hosts kernel_reliable, simplified]
  have ok: "ev_ok (FbAlert 0 example_alert)" by (simp only: ev_ok.simps example_alert_src) blast
  have ev: "Feedback_Run_event kernel_api kernel_mgr (\<lambda>l. l) (FbAlert 0 example_alert) (fc0, kernel_boot) =
      ((fc1, kernel1), True)"
    by (simp add: example_blocked)
  have bev: "stands_for kernel_api kernel_mgr REPUTATION_MAP (\<lambda>l. l) fc0 kernel_boot (FbAlert 0 example_alert)
      (BlAlert 0 (203, 0, 113, 7) True)"
    using sf_alert [OF example_alert_src, of kernel_api kernel_mgr REPUTATION_MAP "\<lambda>l. l" fc0 kernel_boot 0]
      kernel_put_example by (simp add: kernel_api_def)
  have fc0: "abs_blocks fc0 = Map.empty" by (simp add: abs_blocks_def fun_eq_iff)
  have "(203, 0, 113, 7) \<notin> safe_hosts fc0" using example_not_safe by (simp add: safe_hosts_def)
  then have blk: "abs_blocks fc1 = [(203, 0, 113, 7) \<mapsto> 300 * 1000000000]"
    using step [OF fb_reachable.fb_new [where env = bare_host] ok ev] bev by (simp add: fc0)
  have sweep: "abs_blocks fc' = bl_next (safe_hosts fc1) (BlSweep now {}) (abs_blocks fc1) \<and>
      kernel_hosts (k_contents REPUTATION_MAP) s' = dom (abs_blocks fc')"
    if "Feedback_Run_event kernel_api kernel_mgr (\<lambda>l. l) (FbJanitor now) (fc1, kernel1) = ((fc', s'), go)"
    for now fc' s' go
    using step [OF kernel_run _ that, where now = now] kernel_deletes
      sf_sweep [of kernel_api kernel_mgr REPUTATION_MAP "\<lambda>l. l" fc1 kernel1 now] by simp
  let ?run = "\<lambda>now. Feedback_Run_event kernel_api kernel_mgr (\<lambda>l. l) (FbJanitor now) (fc1, kernel1)"
  have late: "abs_blocks fc' = Map.empty \<and> kernel_hosts (k_contents REPUTATION_MAP) s' = {}"
    if "?run 300000000001 = ((fc', s'), go)" for fc' s' go
    using sweep [OF that] by (simp add: blk)
  have soon: "abs_blocks fc' = [(203, 0, 113, 7) \<mapsto> 300 * 1000000000]"
    if "?run 300000000000 = ((fc', s'), go)" for fc' s' go
    using sweep [OF that] by (simp add: blk)
  show ?thesis
    using blk late soon by (cases "?run 300000000001"; cases "?run 300000000000") fastforce
qed

end
