(* ===== verification/Monitor.thy ===== *)
theory Monitor
  imports MapProps
begin

text \<open>
  \<^verbatim>\<open>src/user-space/pkg/engine/monitor.go\<close>: the telemetry monitor.  The ring buffer reader of
  \<open>github.com/cilium/ebpf/ringbuf\<close> is the sequence of results its \<open>Read\<close> calls give; each
  result carries the wall-clock text printed with it and whether the monitor has been told
  to stop by then.  The lines printed per frame are the result; the banner is left out.
\<close>

section \<open>The stream and the lines printed\<close>

datatype ring_read =
    RdSample nat "u8 list"
  | RdErr bool
  | RdClosed

text \<open>The verbs \<open>%-39s\<close>, \<open>%-8s\<close> and \<open>%-9s\<close>, and \<open>%d\<close> of a port.\<close>

definition pad :: "nat \<Rightarrow> string \<Rightarrow> string" where
  "pad n s = s @ replicate (n - length s) CHR '' ''"

definition ip_text :: "IP \<Rightarrow> string" where
  "ip_text ip = (case IP_String ip of None \<Rightarrow> ''?'' | Some s \<Rightarrow> s)"

definition flowStr :: "FlowPacketMeta \<Rightarrow> string" where
  "flowStr m = ip_text (SrcIPNet m) @ '':'' @ dec_string (unat (SrcPort m)) @ '' -> '' @
               ip_text (DstIPNet m) @ '':'' @ dec_string (unat (DstPort m))"

definition monitor_line :: "string \<Rightarrow> FlowPacketMeta \<Rightarrow> string" where
  "monitor_line now m =
     now @ '' '' @ ColoredPrefix (Severity (m_DropReason m)) @ '' '' @ ColoredBadge (m_Action m) @
     ''  '' @ pad 39 (flowStr m) @ '' '' @ pad 8 (ProtocolName m) @ '' '' @
     pad 9 (TCPFlagsString m) @ '' '' @ DropReason_String (m_DropReason m) @ [CHR 0x0A]"

text \<open>
  The read loop, with the one \<open>meta\<close> variable every frame is decoded into.  The stream ends
  when the reader is closed, or at a read error after the stop.
\<close>

fun monitor_loop :: "LogSeverity \<Rightarrow> FlowPacketMeta \<Rightarrow> ring_read list \<Rightarrow> string list" where
  "monitor_loop targetLevel meta [] = []"
| "monitor_loop targetLevel meta (RdClosed # rs) = []"
| "monitor_loop targetLevel meta (RdErr stopped # rs) =
     (if stopped then [] else monitor_loop targetLevel meta rs)"
| "monitor_loop targetLevel meta (RdSample now data # rs) =
     (case UnmarshalBinary meta data of
        Inl _ \<Rightarrow> monitor_loop targetLevel meta rs
      | Inr meta' \<Rightarrow>
          if Severity (m_DropReason meta') < targetLevel then monitor_loop targetLevel meta' rs
          else monitor_line (FormattedTime now) meta' # monitor_loop targetLevel meta' rs)"

definition zero_meta :: FlowPacketMeta where
  "zero_meta = \<lparr>SrcIP = 0, DstIP = 0, SrcPort = 0, DstPort = 0, Protocol = 0, TCPFlags = 0,
     m_Action = 0, m_DropReason = 0, TimestampNS = 0\<rparr>"

section \<open>MonitorEvents\<close>

datatype monitor_error = MonEnable engine_error | MonNilEvents | MonReader string

text \<open>
  The whole call: \<open>new_reader\<close> is \<open>ringbuf.NewReader\<close>; the kernel state \<open>between\<close> is what other
  processes and the monitored traffic make of it while the loop runs.
\<close>

definition MonitorEvents ::
    "('h, 'k) ebpf_api \<Rightarrow> ('h \<Rightarrow> string option) \<Rightarrow> 'h MapManager \<Rightarrow> LogSeverity \<Rightarrow>
     ring_read list \<Rightarrow> ('k \<Rightarrow> 'k) \<Rightarrow> 'k \<Rightarrow> (monitor_error + string list) \<times> 'k" where
  "MonitorEvents api new_reader mgr targetLevel reads between s =
     (case SetLogLevel api mgr targetLevel s of
        (Some e, s1) \<Rightarrow> (Inl (MonEnable e), s1)
      | (None, s1) \<Rightarrow>
          (let restore = (\<lambda>k. snd (SetLogLevel api mgr LogLevelOff k))
           in case GetEventsMap mgr of
                None \<Rightarrow> (Inl MonNilEvents, restore s1)
              | Some h \<Rightarrow>
                  (case new_reader h of
                     Some e \<Rightarrow> (Inl (MonReader e), restore s1)
                   | None \<Rightarrow> (Inr (monitor_loop targetLevel zero_meta reads), restore (between s1)))))"

section \<open>Lemmas\<close>

text \<open>The part of the stream the loop consumes.\<close>

fun consumed :: "ring_read list \<Rightarrow> ring_read list" where
  "consumed [] = []"
| "consumed (RdClosed # rs) = []"
| "consumed (RdErr stopped # rs) = (if stopped then [] else consumed rs)"
| "consumed (RdSample now data # rs) = RdSample now data # consumed rs"

text \<open>Decoding does not depend on what the variable held before.\<close>

lemma UnmarshalBinary_fresh: "UnmarshalBinary meta data = UnmarshalBinary meta' data"
  by (simp add: UnmarshalBinary_def)

fun frame_line :: "LogSeverity \<Rightarrow> ring_read \<Rightarrow> string list" where
  "frame_line level (RdSample now data) =
     (case UnmarshalBinary zero_meta data of
        Inl _ \<Rightarrow> []
      | Inr m \<Rightarrow> if level \<le> Severity (m_DropReason m) then [monitor_line (FormattedTime now) m] else [])"
| "frame_line level _ = []"

lemma monitor_loop_spec:
  "monitor_loop level meta reads = concat (map (frame_line level) (consumed reads))"
proof (induction level meta reads rule: monitor_loop.induct)
  case (4 level meta now data rs)
  then show ?case
    using UnmarshalBinary_fresh [of meta data zero_meta]
    by (auto simp: not_less split: sum.split)
qed auto

lemma short_frame: "length data < 24 \<Longrightarrow> frame_line level (RdSample now data) = []"
  by (simp add: UnmarshalBinary_def)

context ebpf_maps
begin

lemma SetLogLevel_get:
  assumes "configMap m = Some h" and "SetLogLevel api m level s = (None, s')"
  shows "GetLogLevel api m s' = Inr level"
proof -
  have "contents h s' (norm_key (VU32 0)) = Some (VU32 (ucast level))"
    using put_wrap_ok [of h "VU32 0" "VU32 (ucast level)" _ s s' h] assms by (simp add: SetLogLevel_def)
  then have "Map_Lookup api h (VU32 0) s' = Inr (ucast level)" by (rule lookup_found)
  then show ?thesis using assms(1) by (simp add: GetLogLevel_def)
qed

text \<open>The level read depends only on the configuration map.\<close>

lemma GetLogLevel_cong:
  assumes "configMap m = Some h" and "contents h s' = contents h s" and "GetLogLevel api m s = Inr l"
  shows "GetLogLevel api m s' = Inr l"
proof -
  obtain x where x: "Map_Lookup api h (VU32 0) s = Inr x" "l = ucast x"
    using assms(1,3) by (auto simp: GetLogLevel_def split: sum.splits)
  then have "contents h s' (norm_key (VU32 0)) = Some (VU32 x)" using lookup_value assms(2) by metis
  then have "Map_Lookup api h (VU32 0) s' = Inr x" by (rule lookup_found)
  then show ?thesis using assms(1) x(2) by (simp add: GetLogLevel_def)
qed

lemma SetLogLevel_other:
  assumes "configMap m = Some h" and "SetLogLevel api m level s = (err, s')" and "h' \<noteq> h"
  shows "contents h' s' = contents h' s"
  using put_wrap_effect [of h' h "VU32 0" "VU32 (ucast level)" "ErrConfigLogLevel level" s] assms
  by (simp add: SetLogLevel_def)

end

section \<open>Properties\<close>

text \<open>
  (C37) What the monitor prints: one line for each complete frame it reads whose severity reaches
  the requested level, in the order of the stream and up to its end; frames shorter than 24
  bytes and read errors before the stop are skipped without losing later frames, and no
  field of an earlier frame shows up in a later line.
\<close>

theorem monitor_prints:
  "monitor_loop level meta reads =
     concat (map (\<lambda>rd. case rd of
        RdSample now data \<Rightarrow>
          if length data < 24 then []
          else let m = projr (UnmarshalBinary zero_meta data)
               in if level \<le> Severity (m_DropReason m) then [monitor_line (FormattedTime now) m] else []
      | _ \<Rightarrow> []) (consumed reads))"
proof -
  have "frame_line level rd = (case rd of
        RdSample now data \<Rightarrow>
          if length data < 24 then []
          else let m = projr (UnmarshalBinary zero_meta data)
               in if level \<le> Severity (m_DropReason m) then [monitor_line (FormattedTime now) m] else []
      | _ \<Rightarrow> [])" for rd
    by (cases rd) (auto simp: UnmarshalBinary_def Let_def)
  then show ?thesis
    unfolding monitor_loop_spec by (intro arg_cong [where f = concat] map_cong refl)
qed

text \<open>
  The monitor does not give back the log level it found.  Whatever level was configured
  before, once it has returned (and its last update went through) the level is OFF, on every
  path after the first update succeeded.  In particular a daemon that had set the level to
  DEBUG gets no more telemetry.
\<close>

theorem monitor_turns_off:
  assumes "ebpf_maps api contents key_size value_size opened" and "configMap mgr = Some h"
    and "SetLogLevel api mgr level s = (None, s1)"
    and "\<And>k. fst (SetLogLevel api mgr LogLevelOff k) = None"
    and "MonitorEvents api new_reader mgr level reads between s = (res, s')"
  shows "GetLogLevel api mgr s' = Inr LogLevelOff"
proof -
  have "s' = snd (SetLogLevel api mgr LogLevelOff s1) \<or>
        s' = snd (SetLogLevel api mgr LogLevelOff (between s1))"
    using assms(3,5) by (auto simp: MonitorEvents_def Let_def split: option.splits)
  then obtain k where "SetLogLevel api mgr LogLevelOff k = (None, s')"
    using assms(4) by (metis prod.collapse)
  then show ?thesis by (rule ebpf_maps.SetLogLevel_get [OF assms(1,2)])
qed

lemma kernel_SetLogLevel_ok: "fst (SetLogLevel kernel_api kernel_mgr level k) = None"
proof -
  have "k_contents CONFIG_MAP k (VU32 0) \<noteq> None"
    by (simp add: k_contents_def CONFIG_MAP_def split: option.split)
  then have "fst (k_put CONFIG_MAP (VU32 0) (VU32 v) k) = None" for v
    by (simp add: k_put_def) (simp add: CONFIG_MAP_def)
  then show ?thesis
    by (simp add: SetLogLevel_def put_wrap_def kernel_mgr_def kernel_api_def case_prod_unfold)
qed

theorem monitor_turns_off_witness:
  "GetLogLevel kernel_api kernel_mgr
     (snd (MonitorEvents kernel_api (\<lambda>_. None) kernel_mgr LogLevelInfo [RdClosed] id
        (snd (SetLogLevel kernel_api kernel_mgr LogLevelDebug kernel_boot)))) = Inr LogLevelOff"
proof -
  let ?s = "snd (SetLogLevel kernel_api kernel_mgr LogLevelDebug kernel_boot)"
  have cfg: "configMap kernel_mgr = Some CONFIG_MAP" by (simp add: kernel_mgr_def)
  have "SetLogLevel kernel_api kernel_mgr LogLevelInfo ?s =
        (None, snd (SetLogLevel kernel_api kernel_mgr LogLevelInfo ?s))"
    using kernel_SetLogLevel_ok by (metis prod.collapse)
  from monitor_turns_off [OF kernel_contract cfg this kernel_SetLogLevel_ok prod.collapse [symmetric]]
  show ?thesis .
qed

end
