(* ===== verification/Daemon.thy ===== *)
theory Daemon
  imports Aggregator Inference Feedback Monitor
begin

text \<open>
  \<^verbatim>\<open>src/user-space/pkg/engine/daemon.go\<close>: the closed loop.  \<open>RunDaemon\<close> starts four goroutines
  (signal handler, aggregator, inference, feedback) beside its read loop, connected by two
  channels, a cancellable context and the ring buffer reader that the signal handler closes.
  The state of all of them is one record; each thing a goroutine does
  between two blocking points is a function on it with the condition under which it can
  happen, and \<open>daemon_step\<close> interleaves them freely.  Set-up and tear-down are functions.
\<close>

section \<open>State\<close>

definition alertBufferSize :: nat where "alertBufferSize = 1024"

text \<open>
  The goroutine that waits for a signal or for the end of the context: after a signal it closes
  the reader and then cancels the context.
\<close>

datatype sig_pc = SigWaiting | SigCancelling | SigReturned

text \<open>
  \<open>d_meta\<close> is the read loop's buffer, \<open>d_pending\<close> the alert the inference goroutine is about to
  send; \<open>rd_closed\<close> says that the ring buffer reader is closed.  A goroutine that has returned has its flag set; the output channel is closed when
  the aggregator has returned, the alert channel when inference has.
\<close>

record 'k daemon =
  d_meta :: FlowPacketMeta
  d_agg :: Aggregator
  d_pending :: "ThreatAlert option"
  d_alerts :: "ThreatAlert list"
  d_fc :: FeedbackController
  d_kernel :: 'k
  ctx_done :: bool
  rd_closed :: bool
  sig_pc :: sig_pc
  read_done :: bool
  agg_done :: bool
  infer_done :: bool
  fb_done :: bool

section \<open>What the goroutines do\<close>

text \<open>
  The signal goroutine: the signal and \<open>reader.Close()\<close>; \<open>cancel()\<close> after it; or \<open>reader.Close()\<close>
  because the context is done.
\<close>

definition signal_close :: "'k daemon \<Rightarrow> 'k daemon" where
  "signal_close d = d\<lparr>rd_closed := True, sig_pc := SigCancelling\<rparr>"

definition signal_cancel :: "'k daemon \<Rightarrow> 'k daemon" where
  "signal_cancel d = d\<lparr>ctx_done := True, sig_pc := SigReturned\<rparr>"

definition ctx_close :: "'k daemon \<Rightarrow> 'k daemon" where
  "ctx_close d = d\<lparr>rd_closed := True, sig_pc := SigReturned\<rparr>"

text \<open>
  The read loop: one frame; the end of the loop, after which the context is cancelled; a read
  error other than \<open>ErrClosed\<close>, which ends the loop only when the context is done.
\<close>

definition read_frame :: "u8 list \<Rightarrow> 'k daemon \<Rightarrow> 'k daemon" where
  "read_frame data d =
     (case UnmarshalBinary (d_meta d) data of
        Inl _ \<Rightarrow> d
      | Inr m \<Rightarrow> d\<lparr>d_meta := m, d_agg := Ingest fl64 m (d_agg d)\<rparr>)"

definition read_end :: "'k daemon \<Rightarrow> 'k daemon" where
  "read_end d = d\<lparr>read_done := True, ctx_done := True\<rparr>"

definition read_error :: "'k daemon \<Rightarrow> 'k daemon" where
  "read_error d = (if ctx_done d then read_end d else d)"

text \<open>The aggregator: a tick of \<open>Run\<close>, or its return after the last flush.\<close>

definition agg_event ::
    "((u16 \<times> u32) list \<Rightarrow> (u16 \<times> u32) list) \<Rightarrow> (flow_shard \<Rightarrow> flow_shard) \<Rightarrow> run_event \<Rightarrow>
     'k daemon \<Rightarrow> 'k daemon" where
  "agg_event ordP ordF ev d =
     (case Run_event fl64 ordP ordF ev (d_agg d) of
        (a, go) \<Rightarrow> d\<lparr>d_agg := a, agg_done := \<not> go\<rparr>)"

text \<open>Inference: receive a feature vector and classify it; send the alert; give up; finish.\<close>

definition alert_of :: "FlowFeatures \<Rightarrow> Result \<Rightarrow> ThreatAlert" where
  "alert_of ff result =
     \<lparr>alert_SrcIP = ip_text (ff_SrcIP ff), alert_Attack = Attack result,
      alert_Probability = Probability result, DetectedAt = WindowEnd ff\<rparr>"

definition infer_receive :: "FlowFeatures \<Rightarrow> FlowFeatures list \<Rightarrow> 'k daemon \<Rightarrow> 'k daemon" where
  "infer_receive ff rest d =
     (let result = Classify fl64 ff
      in d\<lparr>d_agg := (d_agg d)\<lparr>out := rest\<rparr>,
           d_pending := (if Malicious result then Some (alert_of ff result) else None)\<rparr>)"

definition infer_send :: "ThreatAlert \<Rightarrow> 'k daemon \<Rightarrow> 'k daemon" where
  "infer_send alert d = d\<lparr>d_pending := None, d_alerts := d_alerts d @ [alert]\<rparr>"

definition infer_return :: "'k daemon \<Rightarrow> 'k daemon" where
  "infer_return d = d\<lparr>d_pending := None, infer_done := True\<rparr>"

text \<open>Feedback: one receive of \<open>FeedbackController.Run\<close>.\<close>

definition fb_receive ::
    "('h, 'k) ebpf_api \<Rightarrow> 'h MapManager \<Rightarrow> ((string \<times> int) list \<Rightarrow> (string \<times> int) list) \<Rightarrow> fb_event \<Rightarrow>
     'k daemon \<Rightarrow> 'k daemon" where
  "fb_receive api mgr ordB ev d =
     (case Feedback_Run_event api mgr ordB ev (d_fc d, d_kernel d) of
        ((fc, s), go) \<Rightarrow> d\<lparr>d_fc := fc, d_kernel := s, fb_done := \<not> go\<rparr>)"

lemmas outside_defs = signal_close_def signal_cancel_def ctx_close_def read_end_def read_error_def

section \<open>The interleaving\<close>

text \<open>
  What comes from outside is on the labels: a frame, a failing read, a signal, the end of the
  caller's context.  Of the internal steps, receiving a feature vector is labelled with it.  A
  read that began before the reader was closed may still return a frame; after it, reads
  return \<open>ErrClosed\<close>.
\<close>

datatype dm_label = Frame "u8 list" | ReadError | Signal | Cancelled | Verdict FlowFeatures | Silent

inductive daemon_step ::
    "('h, 'k) ebpf_api \<Rightarrow> 'h MapManager \<Rightarrow> 'k daemon \<Rightarrow> dm_label \<Rightarrow> 'k daemon \<Rightarrow> bool"
  for api mgr where
  st_frame: "\<not> read_done d \<Longrightarrow> daemon_step api mgr d (Frame data) (read_frame data d)"
| st_read_closed: "\<not> read_done d \<Longrightarrow> rd_closed d \<Longrightarrow> daemon_step api mgr d Silent (read_end d)"
| st_read_error: "\<not> read_done d \<Longrightarrow> daemon_step api mgr d ReadError (read_error d)"
| st_signal: "sig_pc d = SigWaiting \<Longrightarrow> daemon_step api mgr d Signal (signal_close d)"
| st_sig_cancel: "sig_pc d = SigCancelling \<Longrightarrow> daemon_step api mgr d Silent (signal_cancel d)"
| st_sig_ctx: "sig_pc d = SigWaiting \<Longrightarrow> ctx_done d \<Longrightarrow> daemon_step api mgr d Silent (ctx_close d)"
| st_cancelled: "daemon_step api mgr d Cancelled (d\<lparr>ctx_done := True\<rparr>)"
| st_tick: "\<not> agg_done d \<Longrightarrow> (\<And>l. mset (ordP l) = mset l) \<Longrightarrow> (\<And>l. mset (ordF l) = mset l) \<Longrightarrow>
    daemon_step api mgr d Silent (agg_event ordP ordF (Tick now) d)"
| st_agg_end: "\<not> agg_done d \<Longrightarrow> ctx_done d \<Longrightarrow> (\<And>l. mset (ordP l) = mset l) \<Longrightarrow>
    (\<And>l. mset (ordF l) = mset l) \<Longrightarrow>
    daemon_step api mgr d Silent (agg_event ordP ordF (CtxDone now) d)"
| st_infer: "\<not> infer_done d \<Longrightarrow> d_pending d = None \<Longrightarrow> out (d_agg d) = ff # rest \<Longrightarrow>
    daemon_step api mgr d (Verdict ff) (infer_receive ff rest d)"
| st_send: "\<not> infer_done d \<Longrightarrow> d_pending d = Some alert \<Longrightarrow> length (d_alerts d) < alertBufferSize \<Longrightarrow>
    daemon_step api mgr d Silent (infer_send alert d)"
| st_infer_abort: "\<not> infer_done d \<Longrightarrow> d_pending d \<noteq> None \<Longrightarrow> ctx_done d \<Longrightarrow>
    daemon_step api mgr d Silent (infer_return d)"
| st_infer_end: "\<not> infer_done d \<Longrightarrow> d_pending d = None \<Longrightarrow> out (d_agg d) = [] \<Longrightarrow>
    out_closed (d_agg d) \<Longrightarrow> daemon_step api mgr d Silent (infer_return d)"
| st_alert: "\<not> fb_done d \<Longrightarrow> d_alerts d = alert # rest \<Longrightarrow>
    daemon_step api mgr d Silent (fb_receive api mgr (\<lambda>l. l) (FbAlert now alert) (d\<lparr>d_alerts := rest\<rparr>))"
| st_janitor: "\<not> fb_done d \<Longrightarrow> (\<And>l. mset (ordB l) = mset l) \<Longrightarrow>
    daemon_step api mgr d Silent (fb_receive api mgr ordB (FbJanitor now) d)"
| st_fb_ctx: "\<not> fb_done d \<Longrightarrow> ctx_done d \<Longrightarrow>
    daemon_step api mgr d Silent (fb_receive api mgr (\<lambda>l. l) FbCtxDone d)"
| st_fb_closed: "\<not> fb_done d \<Longrightarrow> d_alerts d = [] \<Longrightarrow> infer_done d \<Longrightarrow>
    daemon_step api mgr d Silent (fb_receive api mgr (\<lambda>l. l) FbAlertsClosed d)"

text \<open>\<open>wg.Wait()\<close> returns when the read loop and all goroutines have returned.\<close>

definition daemon_finished :: "'k daemon \<Rightarrow> bool" where
  "daemon_finished d \<longleftrightarrow> read_done d \<and> agg_done d \<and> infer_done d \<and> fb_done d"

section \<open>Set-up and tear-down\<close>

datatype daemon_error = DmTelemetry engine_error | DmNilEvents | DmReader string

definition daemon_init :: "nat host_env \<Rightarrow> int \<Rightarrow> 'k \<Rightarrow> 'k daemon" where
  "daemon_init env now s =
     \<lparr>d_meta = zero_meta, d_agg = NewAggregator now, d_pending = None, d_alerts = [],
      d_fc = NewFeedbackController env, d_kernel = s, ctx_done = False, rd_closed = False, sig_pc = SigWaiting, read_done = False,
      agg_done = False, infer_done = False, fb_done = False\<rparr>"

definition prev_level :: "('h, 'k) ebpf_api \<Rightarrow> 'h MapManager \<Rightarrow> 'k \<Rightarrow> LogSeverity" where
  "prev_level api mgr s = (case GetLogLevel api mgr s of Inl _ \<Rightarrow> LogLevelOff | Inr l \<Rightarrow> l)"

text \<open>Up to the start of the goroutines; an error return restores the level it had changed.\<close>

definition RunDaemon_setup ::
    "('h, 'k) ebpf_api \<Rightarrow> ('h \<Rightarrow> string option) \<Rightarrow> 'h MapManager \<Rightarrow> nat host_env \<Rightarrow> int \<Rightarrow> 'k \<Rightarrow>
     (daemon_error + 'k daemon) \<times> 'k" where
  "RunDaemon_setup api new_reader mgr env now s =
     (case SetLogLevel api mgr LogLevelDebug s of
        (Some e, s1) \<Rightarrow> (Inl (DmTelemetry e), s1)
      | (None, s1) \<Rightarrow>
          (let restore = (\<lambda>k. snd (SetLogLevel api mgr (prev_level api mgr s) k))
           in case GetEventsMap mgr of
                None \<Rightarrow> (Inl DmNilEvents, restore s1)
              | Some h \<Rightarrow>
                  (case new_reader h of
                     Some e \<Rightarrow> (Inl (DmReader e), restore s1)
                   | None \<Rightarrow> (Inr (daemon_init env now s1), s1))))"

definition RunDaemon_teardown ::
    "('h, 'k) ebpf_api \<Rightarrow> 'h MapManager \<Rightarrow> LogSeverity \<Rightarrow> 'k daemon \<Rightarrow> engine_error option \<times> 'k" where
  "RunDaemon_teardown api mgr prevLevel d = SetLogLevel api mgr prevLevel (d_kernel d)"

text \<open>The counters printed at the end, if one of them is not zero.\<close>

definition shutdown_stats :: "'k daemon \<Rightarrow> (u64 \<times> u64) option" where
  "shutdown_stats d =
     (let dropped = DroppedNewFlows (d_agg d); droppedOut = DroppedOutput (d_agg d)
      in if dropped > 0 \<or> droppedOut > 0 then Some (dropped, droppedOut) else None)"

end
