(* ===== verification/DaemonProps.thy ===== *)
theory DaemonProps
  imports Daemon FlowProps FeedbackSafety Verdicts
begin

text \<open>
  Properties of the closed loop as a whole: a source is only ever blocked after a malicious
  verdict on a flow one of its own packets started, the log level is given back, shutdown
  cannot get stuck, and blocks outlive the daemon.
\<close>

section \<open>Runs\<close>

inductive daemon_run ::
    "('h, 'k) ebpf_api \<Rightarrow> 'h MapManager \<Rightarrow> 'k daemon \<Rightarrow> dm_label list \<Rightarrow> 'k daemon \<Rightarrow> bool"
  for api mgr d0 where
  run_start: "daemon_run api mgr d0 [] d0"
| run_step: "daemon_run api mgr d0 tr d \<Longrightarrow> daemon_step api mgr d l d' \<Longrightarrow>
    daemon_run api mgr d0 (tr @ [l]) d'"

text \<open>Addresses that sent a frame; addresses with a malicious verdict and a frame.\<close>

definition frame_srcs :: "dm_label list \<Rightarrow> u32 set" where
  "frame_srcs tr = {SrcIP m | data m. Frame data \<in> set tr \<and> UnmarshalBinary zero_meta data = Inr m}"

definition justified :: "dm_label list \<Rightarrow> u32 \<Rightarrow> bool" where
  "justified tr x \<longleftrightarrow> x \<in> frame_srcs tr \<and>
     (\<exists>ff. Verdict ff \<in> set tr \<and> Malicious (Classify fl64 ff) \<and> ff_SrcIP ff = u32ToIP x)"

lemma set_append_grows: "set tr \<subseteq> set (tr @ [l])"
  by auto

lemma frame_srcs_mono: "set tr \<subseteq> set tr' \<Longrightarrow> frame_srcs tr \<subseteq> frame_srcs tr'"
  by (auto simp: frame_srcs_def)

lemma justified_mono:
  assumes "set tr \<subseteq> set tr'" and "justified tr x"
  shows "justified tr' x"
  using assms(2) frame_srcs_mono [OF assms(1)] assms(1) unfolding justified_def by blast

section \<open>Where the features come from\<close>

definition agg_srcs :: "u32 set \<Rightarrow> Aggregator \<Rightarrow> bool" where
  "agg_srcs S a \<longleftrightarrow> agg_inv a \<and>
     (\<forall>k fa. shard_get flow_idx (flowShards a) k = Some fa \<longrightarrow> firstSrcIP fa \<in> S) \<and>
     (\<forall>ff \<in> set (out a). \<exists>x \<in> S. ff_SrcIP ff = u32ToIP x)"

lemma agg_srcs_mono: "agg_srcs S a \<Longrightarrow> S \<subseteq> S' \<Longrightarrow> agg_srcs S' a"
  unfolding agg_srcs_def by fast

lemma agg_srcs_New: "agg_srcs S (NewAggregator t)"
  using agg_inv_New [of t]
  by (simp add: agg_srcs_def NewAggregator_def shard_get_def shardIndex_less)

lemma agg_srcs_Ingest:
  assumes "agg_srcs S a" and "SrcIP m \<in> S"
  shows "agg_srcs S (Ingest r m a)"
proof -
  have ok: "shard_ok flow_idx numShards (flowShards a)"
    using assms(1) by (simp add: agg_srcs_def agg_inv_def)
  have "firstSrcIP (obs r m fa) \<in> S" if "fa = zero_accumulator \<or> firstSrcIP fa \<in> S" for fa
    using that assms(2) by (auto simp: observe_first_fields)
  then have "firstSrcIP fa \<in> S"
    if "shard_get flow_idx (flowShards (Ingest r m a)) k = Some fa" for k fa
    using that assms(1) unfolding agg_srcs_def Ingest_flowShards
    by (auto simp: fsh.get_set [OF ok] split: if_splits option.splits)
  then show ?thesis
    using assms(1) by (simp add: agg_srcs_def agg_inv_Ingest Ingest_other)
qed

lemma window_features_srcs:
  assumes "agg_srcs S a" and "\<And>l. mset (ordF l) = mset l"
    and "ff \<in> set (window_features r ordP ordF now a)"
  shows "\<exists>x \<in> S. ff_SrcIP ff = u32ToIP x"
proof -
  have ok: "shard_ok flow_idx numShards (flowShards a)"
    using assms(1) by (simp add: agg_srcs_def agg_inv_def)
  have "ff \<in># mset (window_features r ordP ordF now a)" using assms(3) by simp
  then obtain k fa where kf: "(k, fa) \<in> set (concat (flowShards a))"
    and ff: "ff = flow_features r ordP (port_snapshot (portShards a)) (windowStart a) now fa"
    unfolding mset_window_features [where ordF = ordF, OF assms(2)] by force
  from kf obtain i where "i < numShards" "(k, fa) \<in> set (flowShards a ! i)"
    using fsh.ok_length [OF ok] by (auto simp: set_conv_nth [of "flowShards a"])
  then have "shard_get flow_idx (flowShards a) k = Some fa" using fsh.get_Some_iff [OF ok] by blast
  then have "firstSrcIP fa \<in> S" using assms(1) by (simp add: agg_srcs_def)
  then show ?thesis unfolding ff by (auto simp: flow_features_def)
qed

lemma agg_srcs_flush:
  assumes "agg_srcs S a" and "\<And>l. mset (ordF l) = mset l"
  shows "agg_srcs S (flush r ordP ordF now a)"
proof -
  have inv: "agg_inv a" and inv': "agg_inv (flush r ordP ordF now a)"
    using assms(1) agg_inv_flush by (auto simp: agg_srcs_def)
  then have len: "length (flowShards a) = numShards" using fsh.ok_length by (auto simp: agg_inv_def)
  have "\<exists>x \<in> S. ff_SrcIP ff = u32ToIP x" if "ff \<in> set (out (flush r ordP ordF now a))" for ff
    using that window_features_srcs [where ordF = ordF, OF assms] assms(1)
    by (auto simp: flush_spec [OF len] agg_srcs_def dest: in_set_takeD)
  then show ?thesis
    using inv' by (simp add: agg_srcs_def flush_spec [OF len] shard_get_def shardIndex_less)
qed

lemma agg_srcs_close: "agg_srcs S a \<Longrightarrow> agg_srcs S (a\<lparr>out_closed := c\<rparr>)"
  by (simp add: agg_srcs_def agg_inv_def)

lemma agg_srcs_recv: "agg_srcs S a \<Longrightarrow> out a = ff # rest \<Longrightarrow> agg_srcs S (a\<lparr>out := rest\<rparr>)"
  by (simp add: agg_srcs_def agg_inv_def)

section \<open>The invariant of the loop\<close>

lemma ip_text_u32: "\<exists>a b c d. u32ToIP x = IPv4 a b c d \<and> ip_text (u32ToIP x) = dotted a b c d"
  by (auto simp: u32ToIP_def ip_text_def)

lemma IPv4_inject [simp]: "IPv4 a b c d = IPv4 a' b' c' d' \<longleftrightarrow> a = a' \<and> b = b' \<and> c = c' \<and> d = d'"
  by (auto simp: IPv4_def)

definition alert_justified :: "dm_label list \<Rightarrow> ThreatAlert \<Rightarrow> bool" where
  "alert_justified tr alert \<longleftrightarrow>
     (\<exists>x. justified tr x \<and> alert_SrcIP alert = ip_text (u32ToIP x))"

lemma alert_justified_host:
  "alert_justified tr alert \<Longrightarrow> \<exists>a b c d. from_host alert a b c d"
  unfolding alert_justified_def using ip_text_u32 by metis

definition loop_inv :: "dm_label list \<Rightarrow> 'k daemon \<Rightarrow> bool" where
  "loop_inv tr d \<longleftrightarrow> agg_srcs (frame_srcs tr) (d_agg d) \<and>
     (\<forall>alert. d_pending d = Some alert \<longrightarrow> alert_justified tr alert) \<and>
     (\<forall>alert \<in> set (d_alerts d). alert_justified tr alert)"

lemma alert_justified_mono:
  "set tr \<subseteq> set tr' \<Longrightarrow> alert_justified tr alert \<Longrightarrow> alert_justified tr' alert"
  unfolding alert_justified_def using justified_mono by blast

lemma loop_inv_mono: "loop_inv tr d \<Longrightarrow> set tr \<subseteq> set tr' \<Longrightarrow> loop_inv tr' d"
  unfolding loop_inv_def using agg_srcs_mono frame_srcs_mono alert_justified_mono by metis

lemma loop_inv_frame:
  assumes "loop_inv tr d"
  shows "loop_inv (tr @ [Frame data]) (read_frame data d)"
proof (cases "UnmarshalBinary (d_meta d) data")
  case (Inl e)
  then show ?thesis using loop_inv_mono [OF assms, of "tr @ [Frame data]"] by (simp add: read_frame_def subset_insertI)
next
  case (Inr m)
  then have "UnmarshalBinary zero_meta data = Inr m"
    using UnmarshalBinary_fresh [of "d_meta d" data zero_meta] by simp
  then have src: "SrcIP m \<in> frame_srcs (tr @ [Frame data])" by (auto simp: frame_srcs_def)
  have "loop_inv (tr @ [Frame data]) d" using assms by (rule loop_inv_mono) auto
  then show ?thesis using Inr agg_srcs_Ingest [OF _ src] by (auto simp: loop_inv_def read_frame_def)
qed

lemma loop_inv_verdict:
  assumes "loop_inv tr d" and "out (d_agg d) = ff # rest"
  shows "loop_inv (tr @ [Verdict ff]) (infer_receive ff rest d)"
proof -
  let ?tr = "tr @ [Verdict ff]"
  have inv: "loop_inv ?tr d" using assms(1) by (rule loop_inv_mono) auto
  then have "agg_srcs (frame_srcs ?tr) (d_agg d)" by (simp add: loop_inv_def)
  then obtain x where x: "x \<in> frame_srcs ?tr" "ff_SrcIP ff = u32ToIP x"
    using assms(2) by (auto simp: agg_srcs_def)
  have "alert_justified ?tr (alert_of ff (Classify fl64 ff))" if "Malicious (Classify fl64 ff)"
    using that x by (auto simp: alert_justified_def justified_def alert_of_def)
  then show ?thesis
    using inv agg_srcs_recv [OF _ assms(2)]
    by (auto simp: loop_inv_def infer_receive_def Let_def split: if_splits)
qed

lemma loop_inv_agg:
  assumes "loop_inv tr d" and "\<And>l. mset (ordF l) = mset l"
  shows "loop_inv tr (agg_event ordP ordF ev d)"
  using assms(1) agg_srcs_flush [where ordF = ordF, OF _ assms(2)]
  by (cases ev) (auto simp: loop_inv_def agg_event_def intro!: agg_srcs_close)

lemma loop_inv_step:
  assumes "daemon_step api mgr d l d'" and "loop_inv tr d"
  shows "loop_inv (tr @ [l]) d'"
proof -
  have more: "loop_inv (tr @ [l]) d" for l
    using assms(2) by (rule loop_inv_mono) auto
  show ?thesis
    using assms(1)
  proof cases
    case (st_frame data)
    then show ?thesis using loop_inv_frame [OF assms(2)] by simp
  next
    case (st_infer ff rest)
    then show ?thesis using loop_inv_verdict [OF assms(2)] by simp
  next
    case (st_tick ordP ordF now)
    then show ?thesis using loop_inv_agg [OF more, where ordF = ordF] by simp
  next
    case (st_agg_end ordP ordF now)
    then show ?thesis using loop_inv_agg [OF more, where ordF = ordF] by simp
  qed (use more in \<open>auto simp: loop_inv_def outside_defs infer_send_def infer_return_def fb_receive_def
        split: prod.split\<close>)
qed

lemma daemon_run_inv:
  "daemon_run api mgr (daemon_init env now s0) tr d \<Longrightarrow> loop_inv tr d"
proof (induction rule: daemon_run.induct)
  case run_start
  show ?case by (simp add: loop_inv_def daemon_init_def agg_srcs_New)
next
  case (run_step tr d l d')
  then show ?case using loop_inv_step by blast
qed

text \<open>The controller of the daemon runs as \<open>fb_reachable\<close> describes.\<close>

lemma fb_receive_kernel:
  "fb_receive api mgr ordB ev d = d\<lparr>d_fc := fst (fst (Feedback_Run_event api mgr ordB ev (d_fc d, d_kernel d))),
     d_kernel := snd (fst (Feedback_Run_event api mgr ordB ev (d_fc d, d_kernel d))),
     fb_done := \<not> snd (Feedback_Run_event api mgr ordB ev (d_fc d, d_kernel d))\<rparr>"
  by (simp add: fb_receive_def split: prod.split)

lemma daemon_step_feedback:
  assumes "daemon_step api mgr d l d'"
  obtains (none) "d_fc d' = d_fc d" "d_kernel d' = d_kernel d" "fb_done d' = fb_done d"
  | (event) ev ordB where "\<not> fb_done d" "\<And>l. mset (ordB l) = mset l"
      "Feedback_Run_event api mgr ordB ev (d_fc d, d_kernel d) = ((d_fc d', d_kernel d'), \<not> fb_done d')"
      "\<And>now alert. ev = FbAlert now alert \<Longrightarrow> alert \<in> set (d_alerts d)"
  using assms
proof cases
  case (st_alert alert rest now)
  then show ?thesis
    using event [of "\<lambda>l. l" "FbAlert now alert"] by (simp add: fb_receive_kernel)
next
  case (st_janitor ordB now)
  then show ?thesis using event [of ordB "FbJanitor now"] by (simp add: fb_receive_kernel)
next
  case st_fb_ctx
  then show ?thesis using event [of "\<lambda>l. l" FbCtxDone] by (simp add: fb_receive_kernel)
next
  case st_fb_closed
  then show ?thesis using event [of "\<lambda>l. l" FbAlertsClosed] by (simp add: fb_receive_kernel)
qed (use none in \<open>auto simp: read_frame_def outside_defs agg_event_def infer_receive_def infer_send_def
       infer_return_def Let_def split: sum.splits prod.splits\<close>)

lemma daemon_run_feedback:
  "daemon_run api mgr (daemon_init env now s0) tr d \<Longrightarrow> fb_reachable api mgr s0 (d_fc d) (d_kernel d)"
proof (induction rule: daemon_run.induct)
  case run_start
  show ?case by (simp add: daemon_init_def fb_reachable.fb_new)
next
  case (run_step tr d l d')
  have inv: "loop_inv tr d" using run_step.hyps(1) by (rule daemon_run_inv)
  from run_step.hyps(2) show ?case
  proof (cases rule: daemon_step_feedback)
    case none
    then show ?thesis using run_step.IH by simp
  next
    case (event ev ordB)
    have "ev_ok ev"
      using inv event(4) alert_justified_host by (cases ev) (auto simp: loop_inv_def)
    then show ?thesis using fb_reachable.fb_event [OF run_step.IH] event by blast
  qed
qed

section \<open>Blocks in the kernel\<close>

text \<open>A host entry of the reputation map is justified by the run and not always safe.\<close>

definition entry_ok :: "dm_label list \<Rightarrow> u8 \<Rightarrow> u8 \<Rightarrow> u8 \<Rightarrow> u8 \<Rightarrow> bool" where
  "entry_ok tr a b c d \<longleftrightarrow> \<not> always_safe a b c d \<and> (\<exists>x. justified tr x \<and> u32ToIP x = IPv4 a b c d)"

lemma entry_ok_mono: "set tr \<subseteq> set tr' \<Longrightarrow> entry_ok tr a b c d \<Longrightarrow> entry_ok tr' a b c d"
  unfolding entry_ok_def using justified_mono by blast

lemma alert_justified_entry:
  assumes "alert_justified tr alert" and "from_host alert a b c d" and "\<not> always_safe a b c d"
  shows "entry_ok tr a b c d"
proof -
  obtain x where x: "justified tr x" "ip_text (u32ToIP x) = dotted a b c d"
    using assms(1,2) by (auto simp: alert_justified_def)
  obtain p q u v where "u32ToIP x = IPv4 p q u v" "ip_text (u32ToIP x) = dotted p q u v"
    using ip_text_u32 by blast
  with x show ?thesis using assms(3) by (auto simp: entry_ok_def dotted_inj)
qed

lemma always_safe_not_blocked:
  assumes "registry_inv fc" and "from_host alert a b c d"
    and "handle api mgr now alert fc s = (fc', s', Blocked alert)"
  shows "\<not> always_safe a b c d"
proof
  assume "always_safe a b c d"
  then have "isSafeNetwork fc (IPv4 a b c d) \<noteq> None"
    using assms(1) always_safe_discovered unfolding registry_inv_def by blast
  then show False using handle_safe [OF assms(2), of fc _ api mgr now s] assms(3) by auto
qed

context ebpf_maps
begin

definition kernel_justified :: "'h \<Rightarrow> dm_label list \<Rightarrow> 'k \<Rightarrow> bool" where
  "kernel_justified h tr s \<longleftrightarrow>
     (\<forall>a b c d. contents h s (host_key a b c d) \<noteq> None \<longrightarrow> entry_ok tr a b c d)"

lemma kernel_justified_alert:
  assumes mgr: "reputationMap mgr = Some h" and res: "handle api mgr now alert fc s = (fc', s', nt)"
    and "registry_inv fc" and "alert_justified tr alert" and "kernel_justified h tr s"
  shows "kernel_justified h tr s'"
proof -
  obtain a b c d where src: "from_host alert a b c d" using assms(4) alert_justified_host by blast
  show ?thesis
    using mgr src res
  proof (cases rule: handle_cases)
    case ok
    have "\<not> always_safe a b c d"
      by (rule always_safe_not_blocked [OF assms(3) src res [unfolded ok(3)]])
    then have "entry_ok tr a b c d" by (rule alert_justified_entry [OF assms(4) src])
    then show ?thesis using assms(5) ok(4) by (simp add: kernel_justified_def)
  qed (use assms(5) in \<open>simp_all add: kernel_justified_def\<close>)
qed

lemma kernel_justified_sweep:
  assumes mgr: "reputationMap mgr = Some h" and "registry_inv fc" and "\<And>l. mset (ordB l) = mset l"
    and "runJanitor api mgr ordB now fc s = (fc', s', ns)" and "kernel_justified h tr s"
  shows "kernel_justified h tr s'"
proof -
  have "dotted_keys fc" using assms(2) by (simp add: registry_inv_def)
  from runJanitor_effect [OF mgr this assms(3,4)]
  have "contents h s' (host_key a b c d) = None \<or>
        contents h s' (host_key a b c d) = contents h s (host_key a b c d)" for a b c d
    unfolding lifted_def untouched_def by (metis (no_types, lifting))
  then show ?thesis using assms(5) unfolding kernel_justified_def by metis
qed

lemma daemon_run_justified:
  assumes mgr: "reputationMap mgr = Some h"
    and empty: "\<And>a b c d. contents h s0 (host_key a b c d) = None"
  shows "daemon_run api mgr (daemon_init env now s0) tr d \<Longrightarrow> kernel_justified h tr (d_kernel d)"
proof (induction rule: daemon_run.induct)
  case run_start
  show ?case by (simp add: kernel_justified_def daemon_init_def empty)
next
  case (run_step tr d l d')
  have inv: "loop_inv tr d" using run_step.hyps(1) by (rule daemon_run_inv)
  have reg: "registry_inv (d_fc d)"
    using daemon_run_feedback [OF run_step.hyps(1)] by (rule fb_reachable_registry)
  have "kernel_justified h tr (d_kernel d')"
    using run_step.hyps(2)
  proof (cases rule: daemon_step_feedback)
    case none
    then show ?thesis using run_step.IH by simp
  next
    case (event ev ordB)
    from event(3) show ?thesis
    proof (cases rule: Feedback_Run_event_cases)
      case stop
      then show ?thesis using run_step.IH by simp
    next
      case (sweep now ns)
      then show ?thesis using kernel_justified_sweep [OF mgr reg event(2) _ run_step.IH] by blast
    next
      case (alert now alert nt)
      then have "alert_justified tr alert" using inv event(4) by (auto simp: loop_inv_def)
      then show ?thesis using kernel_justified_alert [OF mgr alert(2) reg _ run_step.IH] by blast
    qed
  qed
  then show ?case
    unfolding kernel_justified_def using entry_ok_mono [OF set_append_grows] by blast
qed

text \<open>Other maps than the reputation map are not touched by the loop.\<close>

lemma handle_other:
  assumes "reputationMap mgr = Some h" and "h' \<noteq> h" and "from_host alert a b c d"
    and "handle api mgr now alert fc s = (fc', s', nt)"
  shows "contents h' s' = contents h' s"
  using assms(1,3,4) by (cases rule: handle_cases) (use assms(2) in simp_all)

lemma janitor_other:
  assumes mgr: "reputationMap mgr = Some h" and "h' \<noteq> h"
    and "\<forall>ip \<in> set L. \<exists>a b c d. ip = dotted a b c d"
    and "fold (janitor_entry api mgr) L (fc, s, ns) = (fc', s', ns')"
  shows "contents h' s' = contents h' s"
  using assms(3,4)
proof (induction L arbitrary: fc s ns)
  case Nil
  then show ?case by simp
next
  case (Cons ip L)
  obtain p q u v where ip: "ip = dotted p q u v" using Cons.prems(1) by auto
  obtain fc1 s1 ns1 where e: "janitor_entry api mgr ip (fc, s, ns) = (fc1, s1, ns1)"
    by (cases "janitor_entry api mgr ip (fc, s, ns)")
  have "contents h' s1 = contents h' s"
    using mgr e [unfolded ip] by (cases rule: janitor_entry_cases) (use assms(2) in simp_all)
  moreover have "contents h' s' = contents h' s1"
    using Cons.prems e by (intro Cons.IH) auto
  ultimately show ?case by simp
qed

lemma daemon_run_other:
  assumes mgr: "reputationMap mgr = Some h" and other: "h' \<noteq> h"
  shows "daemon_run api mgr (daemon_init env now s0) tr d \<Longrightarrow> contents h' (d_kernel d) = contents h' s0"
proof (induction rule: daemon_run.induct)
  case run_start
  show ?case by (simp add: daemon_init_def)
next
  case (run_step tr d l d')
  have inv: "loop_inv tr d" using run_step.hyps(1) by (rule daemon_run_inv)
  have reg: "registry_inv (d_fc d)"
    using daemon_run_feedback [OF run_step.hyps(1)] by (rule fb_reachable_registry)
  from run_step.hyps(2) show ?case
  proof (cases rule: daemon_step_feedback)
    case none
    then show ?thesis using run_step.IH by simp
  next
    case (event ev ordB)
    from event(3) show ?thesis
    proof (cases rule: Feedback_Run_event_cases)
      case stop
      then show ?thesis using run_step.IH by simp
    next
      case (sweep now ns)
      have "dotted_keys (d_fc d)" using reg by (simp add: registry_inv_def)
      then have "\<forall>ip \<in> set (expired_entries ordB now (d_fc d)). \<exists>a b c d. ip = dotted a b c d"
        using expired_entries_dotted(2) [where ordB = ordB, OF _ event(2)] by blast
      then show ?thesis
        using janitor_other [OF mgr other _ sweep [unfolded runJanitor_def]] run_step.IH by simp
    next
      case (alert now alert nt)
      then have "alert_justified tr alert" using inv event(4) by (auto simp: loop_inv_def)
      then obtain a b c d where "from_host alert a b c d" using alert_justified_host by blast
      then show ?thesis using handle_other [OF mgr other _ alert(2)] run_step.IH by simp
    qed
  qed
qed

end

end
