(* ===== verification/DaemonSafety.thy ===== *)
theory DaemonSafety
  imports DaemonProps Detection KernelWire
begin

text \<open>
  The properties of the closed loop of \<^verbatim>\<open>daemon.go\<close> over all interleavings of its goroutines:
  which sources can be blocked and which are, the log level over the life of the daemon, what
  is left behind when it stops, and that a shutdown can always be completed.
\<close>

section \<open>A flood drives the loop to a block\<close>

lemma daemon_run_trans:
  assumes "daemon_run api mgr d0 tr d" and "daemon_run api mgr d tr' d'"
  shows "daemon_run api mgr d0 (tr @ tr') d'"
  using assms(2)
proof (induction rule: daemon_run.induct)
  case run_start
  then show ?case using assms(1) by simp
next
  case (run_step tr' d1 l d2)
  then show ?case using daemon_run.run_step [of api mgr d0 "tr @ tr'" d1 l d2] by simp
qed

lemma daemon_run_single: "daemon_step api mgr d l d' \<Longrightarrow> daemon_run api mgr d [l] d'"
  using daemon_run.run_step [OF daemon_run.run_start] by fastforce

lemma read_frames:
  assumes "list_all2 (\<lambda>data m. UnmarshalBinary zero_meta data = Inr m) ds ms" and "\<not> read_done d"
  shows "\<exists>meta. daemon_run api mgr d (map Frame ds)
           (d\<lparr>d_meta := meta, d_agg := fold (Ingest fl64) ms (d_agg d)\<rparr>)"
  using assms
proof (induction arbitrary: d rule: list_all2_induct)
  case Nil
  have "d\<lparr>d_meta := d_meta d, d_agg := d_agg d\<rparr> = d" by simp
  then show ?case using daemon_run.run_start [of api mgr d] by (metis fold_simps(1) list.map(1))
next
  case (Cons data ds m ms)
  let ?d = "d\<lparr>d_meta := m, d_agg := Ingest fl64 m (d_agg d)\<rparr>"
  have "UnmarshalBinary (d_meta d) data = Inr m"
    using UnmarshalBinary_fresh [of "d_meta d" data zero_meta] Cons.hyps(1) by simp
  then have "read_frame data d = ?d" by (simp add: read_frame_def)
  then have step: "daemon_run api mgr d [Frame data] ?d"
    using st_frame [OF Cons.prems, of api mgr data] by (intro daemon_run_single) simp
  obtain meta where "daemon_run api mgr ?d (map Frame ds)
      (?d\<lparr>d_meta := meta, d_agg := fold (Ingest fl64) ms (d_agg ?d)\<rparr>)"
    using Cons.IH [of ?d] Cons.prems by auto
  then show ?case using daemon_run_trans [OF step] by (intro exI [of _ meta]) simp
qed

text \<open>The run in which the frames of a flood are read, its window ends, and its alert is handled.\<close>

text \<open>One window with one malicious flow: the tick, the verdict, the alert, and what \<open>handle\<close> does with it.\<close>

lemma window_to_alert:
  fixes d1 :: "'k daemon"
  assumes win: "out (flush fl64 (\<lambda>l. l) (\<lambda>l. l) now (d_agg d1)) = [ff]" and mal: "Malicious (Classify fl64 ff)"
    and idle: "d_pending d1 = None" "d_alerts d1 = []" "\<not> agg_done d1" "\<not> infer_done d1" "\<not> fb_done d1"
    and al: "handle api mgr now (alert_of ff (Classify fl64 ff)) (d_fc d1) (d_kernel d1) = (fc, s1, Blocked al)"
  shows "\<exists>d. daemon_run api mgr d1 [Silent, Verdict ff, Silent, Silent] d \<and> d_kernel d = s1 \<and> d_fc d = fc"
proof -
  let ?d2 = "agg_event (\<lambda>l. l) (\<lambda>l. l) (Tick now) d1"
  let ?d3 = "infer_receive ff [] ?d2"
  let ?al = "alert_of ff (Classify fl64 ff)"
  let ?d4 = "infer_send ?al ?d3"
  let ?d5 = "fb_receive api mgr (\<lambda>l. l) (FbAlert now ?al) (?d4\<lparr>d_alerts := []\<rparr>)"
  have s1: "daemon_step api mgr d1 Silent ?d2" using idle by (intro st_tick) simp_all
  have s2: "daemon_step api mgr ?d2 (Verdict ff) ?d3"
    using win idle by (intro st_infer) (simp_all add: agg_event_def)
  have s3: "daemon_step api mgr ?d3 Silent ?d4"
    using mal idle by (intro st_send) (simp_all add: agg_event_def infer_receive_def Let_def alertBufferSize_def)
  have s4: "daemon_step api mgr ?d4 Silent ?d5"
    using idle by (intro st_alert) (simp_all add: agg_event_def infer_receive_def infer_send_def Let_def)
  have "daemon_run api mgr d1 [Silent, Verdict ff, Silent, Silent] ?d5"
    using daemon_run_trans [OF daemon_run_trans [OF daemon_run_trans [OF daemon_run_single [OF s1]
      daemon_run_single [OF s2]] daemon_run_single [OF s3]] daemon_run_single [OF s4]] by simp
  moreover have "d_kernel ?d5 = s1" "d_fc ?d5 = fc"
    using al by (simp_all add: fb_receive_def agg_event_def infer_receive_def infer_send_def Let_def)
  ultimately show ?thesis by blast
qed

lemma flood_run:
  assumes flood: "syn_flood ms" and key: "\<And>m. m \<in> set ms \<Longrightarrow> key_of m = k"
    and frames: "list_all2 (\<lambda>data m. UnmarshalBinary zero_meta data = Inr m) ds ms"
    and src: "u32ToIP (IPLo k) = IPv4 a b c e"
    and unsafe: "isSafeNetwork (NewFeedbackController env) (IPv4 a b c e) = None"
    and block: "BlockIP api mgr (dotted a b c e @ ''/32'') s0 = (None, s1)"
  shows "\<exists>ff d. daemon_run api mgr (daemon_init env t s0) (map Frame ds @ [Silent, Verdict ff, Silent, Silent]) d \<and>
           ff_SrcIP ff = IPv4 a b c e \<and> Attack (Classify fl64 ff) = AttackSynFlood \<and> d_kernel d = s1 \<and>
           go_get (blocked (d_fc d)) (dotted a b c e) = Some (now + BlockTTL)"
proof -
  let ?a = "fold (Ingest fl64) ms (NewAggregator t)" and ?d0 = "daemon_init env t s0"
  let ?fc = "NewFeedbackController env"
  have ne: "ms \<noteq> []" and fwd: "\<forall>m \<in> set ms. snd (canonicalize m)" using flood by (auto simp: syn_flood_def)
  define ff where "ff = flow_features fl64 (\<lambda>l. l) (port_snapshot (portShards ?a)) (windowStart ?a) now
      (fold (obs fl64) ms zero_accumulator)"
  have "SrcIP (hd ms) = IPLo k"
    using key [of "hd ms"] fwd ne flow_packets_src [of "hd ms" k ms] by (simp add: flow_packets_def)
  then have ff: "ff_SrcIP ff = IPv4 a b c e" "Malicious (Classify fl64 ff)" "Attack (Classify fl64 ff) = AttackSynFlood"
    using syn_flood_verdict [OF flood, of "\<lambda>l. l" "port_snapshot (portShards ?a)" "windowStart ?a" now] src
    by (simp_all add: ff_def)
  have win: "out (flush fl64 (\<lambda>l. l) (\<lambda>l. l) now ?a) = [ff]"
    unfolding ff_def using key by (intro one_flow_window [OF ne]) auto
  obtain meta where r0: "daemon_run api mgr ?d0 (map Frame ds) (?d0\<lparr>d_meta := meta, d_agg := ?a\<rparr>)"
    using read_frames [OF frames, of ?d0 api mgr] by (auto simp: daemon_init_def)
  let ?al = "alert_of ff (Classify fl64 ff)"
  have from_src: "from_host ?al a b c e" by (simp add: alert_of_def ff(1) ip_text_def)
  have handle: "handle api mgr now ?al ?fc s0 =
      (?fc\<lparr>blocked := go_set (blocked ?fc) (dotted a b c e) (now + BlockTTL)\<rparr>, s1, Blocked ?al)"
    using handle_new [OF from_src unsafe, of now api mgr s0] block
    by (simp add: active_def NewFeedbackController_def RefreshSafeNetworks_def)
  obtain d where "daemon_run api mgr (?d0\<lparr>d_meta := meta, d_agg := ?a\<rparr>) [Silent, Verdict ff, Silent, Silent] d"
    "d_kernel d = s1" "d_fc d = ?fc\<lparr>blocked := go_set (blocked ?fc) (dotted a b c e) (now + BlockTTL)\<rparr>"
    using window_to_alert [of now "?d0\<lparr>d_meta := meta, d_agg := ?a\<rparr>" ff api mgr, OF _ ff(2)] win handle
    by (simp add: daemon_init_def) blast
  then show ?thesis using daemon_run_trans [OF r0] ff(1,3) by fastforce
qed

section \<open>Blocks from before the start\<close>

context ebpf_maps
begin

text \<open>A host entry the controller does not track stays, as long as its source does not offend.\<close>

definition orphan :: "'h \<Rightarrow> bpf_val \<Rightarrow> u8 \<Rightarrow> u8 \<Rightarrow> u8 \<Rightarrow> u8 \<Rightarrow> FeedbackController \<Rightarrow> 'k \<Rightarrow> bool" where
  "orphan h v a b c e fc s \<longleftrightarrow>
     contents h s (host_key a b c e) = Some v \<and> go_get (blocked fc) (dotted a b c e) = None"

lemma orphan_alert:
  assumes mgr: "reputationMap mgr = Some h" and src: "from_host alert p q u w"
    and res: "handle api mgr now alert fc s = (fc', s', nt)"
    and "orphan h v a b c e fc s" and "dotted p q u w \<noteq> dotted a b c e"
  shows "orphan h v a b c e fc' s'"
  using mgr src res
  by (cases rule: handle_cases) (use assms(4,5) in \<open>auto simp: orphan_def go_get_del dotted_inj\<close>)

lemma orphan_sweep:
  assumes "reputationMap mgr = Some h" and "registry_inv fc" and "\<And>l. mset (ordB l) = mset l"
    and "runJanitor api mgr ordB now fc s = (fc', s', ns)" and "orphan h v a b c e fc s"
  shows "orphan h v a b c e fc' s'"
proof -
  have "dotted_keys fc" using assms(2) by (simp add: registry_inv_def)
  from runJanitor_effect [OF assms(1) this assms(3,4), of a b c e]
  show ?thesis using assms(5) by (simp add: orphan_def untouched_def)
qed

lemma orphan_stays:
  assumes mgr: "reputationMap mgr = Some h" and start: "contents h s0 (host_key a b c e) = Some v"
  shows "daemon_run api mgr (daemon_init env now s0) tr d \<Longrightarrow>
         (\<And>x. justified tr x \<Longrightarrow> u32ToIP x \<noteq> IPv4 a b c e) \<Longrightarrow> orphan h v a b c e (d_fc d) (d_kernel d)"
proof (induction rule: daemon_run.induct)
  case run_start
  show ?case
    by (simp add: orphan_def start daemon_init_def NewFeedbackController_def RefreshSafeNetworks_def)
next
  case (run_step tr d l d')
  have inv: "loop_inv tr d" using run_step.hyps(1) by (rule daemon_run_inv)
  have reg: "registry_inv (d_fc d)"
    using daemon_run_feedback [OF run_step.hyps(1)] by (rule fb_reachable_registry)
  have quiet: "justified tr x \<Longrightarrow> u32ToIP x \<noteq> IPv4 a b c e" for x
    using run_step.prems justified_mono [OF set_append_grows] by blast
  then have IH: "orphan h v a b c e (d_fc d) (d_kernel d)" by (rule run_step.IH)
  from run_step.hyps(2) show ?case
  proof (cases rule: daemon_step_feedback)
    case none
    then show ?thesis using IH by simp
  next
    case (event ev ordB)
    from event(3) show ?thesis
    proof (cases rule: Feedback_Run_event_cases)
      case stop
      then show ?thesis using IH by simp
    next
      case (sweep now ns)
      then show ?thesis using orphan_sweep [OF mgr reg event(2) _ IH] by blast
    next
      case (alert now alert nt)
      then have "alert_justified tr alert" using inv event(4) by (auto simp: loop_inv_def)
      then obtain x where x: "justified tr x" "alert_SrcIP alert = ip_text (u32ToIP x)"
        by (auto simp: alert_justified_def)
      obtain p q u w where p: "u32ToIP x = IPv4 p q u w" "ip_text (u32ToIP x) = dotted p q u w"
        using ip_text_u32 by blast
      then have "dotted p q u w \<noteq> dotted a b c e" using quiet [OF x(1)] by (auto simp: dotted_inj)
      then show ?thesis using orphan_alert [OF mgr _ alert(2) IH] x(2) p(2) by simp
    qed
  qed
qed

end

section \<open>Shutdown\<close>

definition close_inv :: "'k daemon \<Rightarrow> bool" where
  "close_inv d \<longleftrightarrow> (agg_done d \<longrightarrow> out_closed (d_agg d))"

lemma close_inv_step: "daemon_step api mgr d l d' \<Longrightarrow> close_inv d \<Longrightarrow> close_inv d'"
  by (induction rule: daemon_step.induct)
     (auto simp: close_inv_def read_frame_def outside_defs agg_event_def infer_receive_def infer_send_def
        infer_return_def fb_receive_kernel Let_def Ingest_other split: sum.split)

lemma close_inv_run:
  assumes "daemon_run api mgr (daemon_init env now s0) tr d"
  shows "close_inv d"
  using assms
proof (induction rule: daemon_run.induct)
  case run_start
  show ?case by (simp add: close_inv_def daemon_init_def)
next
  case (run_step tr d l d')
  then show ?case using close_inv_step by blast
qed

text \<open>A shutdown was asked for by a signal or by the caller's context.\<close>

definition requested :: "dm_label list \<Rightarrow> bool" where
  "requested tr \<longleftrightarrow> Signal \<in> set tr \<or> Cancelled \<in> set tr"

text \<open>
  What has ended, was closed or was cancelled, was so because of a request, and a request has
  closed the reader or cancelled the context.
\<close>

definition stop_inv :: "dm_label list \<Rightarrow> 'k daemon \<Rightarrow> bool" where
  "stop_inv tr d \<longleftrightarrow>
     (sig_pc d = SigWaiting \<longleftrightarrow> \<not> rd_closed d) \<and> (requested tr \<longleftrightarrow> rd_closed d \<or> ctx_done d) \<and>
     (read_done d \<or> agg_done d \<or> infer_done d \<or> fb_done d \<or> out_closed (d_agg d) \<longrightarrow> ctx_done d)"

lemma fold_kept: "(\<And>x a. g (f x a) = g a) \<Longrightarrow> g (fold f xs a) = g a"
  by (induction xs arbitrary: a) simp_all

lemma flush_out_closed: "out_closed (flush r ordP ordF now a) = out_closed a"
proof -
  have "out_closed (flush_shard feat ordF i a) = out_closed a" for feat i a
    unfolding flush_shard_def Let_def by (subst fold_kept [where g = out_closed]) (auto simp: send_out_def split: if_splits)
  then show ?thesis unfolding flush_def Let_def by (subst fold_kept [where g = out_closed]) auto
qed

lemma stop_inv_step:
  assumes "daemon_step api mgr d l d'" and "stop_inv tr d"
  shows "stop_inv (tr @ [l]) d'"
  using assms(1)
proof cases
  case (st_frame data)
  then show ?thesis using assms(2)
    by (auto simp: stop_inv_def requested_def read_frame_def Ingest_other split: sum.split)
next
  case (st_janitor ordB now)
  then show ?thesis using assms(2)
    by (auto simp: stop_inv_def requested_def fb_receive_def split: prod.split)
qed (use assms(2) in \<open>auto simp: stop_inv_def requested_def outside_defs agg_event_def infer_receive_def
       infer_send_def infer_return_def fb_receive_def Let_def flush_out_closed split: prod.splits\<close>)

lemma stop_inv_run: "daemon_run api mgr (daemon_init env now s0) tr d \<Longrightarrow> stop_inv tr d"
proof (induction rule: daemon_run.induct)
  case run_start
  show ?case by (simp add: stop_inv_def requested_def daemon_init_def NewAggregator_def)
next
  case (run_step tr d l d')
  then show ?case using stop_inv_step by blast
qed

text \<open>A run of internal steps to a state in which the read loop and the goroutines have returned.\<close>

fun internal :: "dm_label \<Rightarrow> bool" where
  "internal (Verdict ff) = True"
| "internal Silent = True"
| "internal _ = False"

definition can_finish :: "('h, 'k) ebpf_api \<Rightarrow> 'h MapManager \<Rightarrow> 'k daemon \<Rightarrow> bool" where
  "can_finish api mgr d \<longleftrightarrow>
     (\<exists>tr d'. daemon_run api mgr d tr d' \<and> daemon_finished d' \<and> (\<forall>l \<in> set tr. internal l))"

lemma can_finish_step:
  assumes "daemon_step api mgr d l d'" and "internal l" and "can_finish api mgr d'"
  shows "can_finish api mgr d"
proof -
  obtain tr d'' where "daemon_run api mgr d' tr d''" "daemon_finished d''" "\<forall>l \<in> set tr. internal l"
    using assms(3) by (auto simp: can_finish_def)
  then have "daemon_run api mgr d ([l] @ tr) d''" "\<forall>l \<in> set ([l] @ tr). internal l"
    using daemon_run_trans [OF daemon_run_single [OF assms(1)]] assms(2) by auto
  then show ?thesis using \<open>daemon_finished d''\<close> unfolding can_finish_def by blast
qed

lemma can_finish_fb:
  assumes "ctx_done d" "read_done d" "agg_done d" "infer_done d"
  shows "can_finish api mgr d"
proof -
  have fin: "can_finish api mgr d" if "daemon_finished d" for d
    unfolding can_finish_def
    by (intro exI conjI, rule daemon_run.run_start) (use that in simp_all)
  show ?thesis
  proof (cases "fb_done d")
    case True
    then show ?thesis using assms by (intro fin) (simp add: daemon_finished_def)
  next
    case False
    have "can_finish api mgr (fb_receive api mgr (\<lambda>l. l) FbCtxDone d)"
      using assms by (intro fin) (simp add: daemon_finished_def fb_receive_def)
    then show ?thesis using can_finish_step [OF st_fb_ctx [OF False assms(1)]] by simp
  qed
qed

lemma can_finish_pending:
  assumes "ctx_done d" "read_done d" "agg_done d" "d_pending d \<noteq> None"
  shows "can_finish api mgr d"
proof (cases "infer_done d")
  case True
  then show ?thesis using assms by (intro can_finish_fb)
next
  case False
  have "can_finish api mgr (infer_return d)"
    using assms by (intro can_finish_fb) (simp_all add: infer_return_def)
  then show ?thesis using can_finish_step [OF st_infer_abort [OF False assms(4,1)]] by simp
qed

text \<open>Inference drains the closed channel, or gives up at the first alert it cannot send.\<close>

lemma can_finish_infer:
  assumes "ctx_done d" "read_done d" "agg_done d" "out_closed (d_agg d)"
  shows "can_finish api mgr d"
proof (cases "infer_done d \<or> d_pending d \<noteq> None")
  case True
  then show ?thesis using assms can_finish_fb can_finish_pending by blast
next
  case False
  then have "\<not> infer_done d" "d_pending d = None" by auto
  then show ?thesis
    using assms
  proof (induction "out (d_agg d)" arbitrary: d)
    case Nil
    then have step: "daemon_step api mgr d Silent (infer_return d)" by (intro st_infer_end) simp_all
    have "can_finish api mgr (infer_return d)"
      using Nil.prems by (intro can_finish_fb) (simp_all add: infer_return_def)
    then show ?case using can_finish_step [OF step] by simp
  next
    case (Cons ff rest)
    let ?d = "infer_receive ff rest d"
    have step: "daemon_step api mgr d (Verdict ff) ?d"
      using Cons.prems Cons.hyps(2) by (intro st_infer) simp_all
    have "can_finish api mgr ?d"
    proof (cases "d_pending ?d = None")
      case True
      then show ?thesis
        using Cons.prems by (intro Cons.hyps(1)) (simp_all add: infer_receive_def Let_def)
    next
      case False
      then show ?thesis
        using Cons.prems by (intro can_finish_pending) (simp_all add: infer_receive_def Let_def)
    qed
    then show ?case using can_finish_step [OF step] by simp
  qed
qed

lemma can_finish_agg:
  assumes "ctx_done d" "read_done d" "close_inv d"
  shows "can_finish api mgr d"
proof (cases "agg_done d")
  case True
  then show ?thesis using assms by (intro can_finish_infer) (simp_all add: close_inv_def)
next
  case False
  let ?d = "agg_event (\<lambda>l. l) (\<lambda>l. l) (CtxDone 0) d"
  have step: "daemon_step api mgr d Silent ?d" using False assms by (intro st_agg_end) simp_all
  have "can_finish api mgr ?d"
    using assms by (intro can_finish_infer) (simp_all add: agg_event_def)
  then show ?thesis using can_finish_step [OF step] by simp
qed

lemma can_finish_closed:
  assumes "rd_closed d" "close_inv d" "read_done d \<longrightarrow> ctx_done d"
  shows "can_finish api mgr d"
proof (cases "read_done d")
  case True
  then show ?thesis using assms by (intro can_finish_agg) simp_all
next
  case False
  then have step: "daemon_step api mgr d Silent (read_end d)" using assms(1) by (rule st_read_closed)
  have "can_finish api mgr (read_end d)"
    using close_inv_step [OF step assms(2)] by (intro can_finish_agg) (simp_all add: read_end_def)
  then show ?thesis using can_finish_step [OF step] by simp
qed

lemma daemon_can_finish:
  assumes "close_inv d" and "stop_inv tr d" and "requested tr"
  shows "can_finish api mgr d"
proof (cases "rd_closed d")
  case True
  then show ?thesis using assms by (intro can_finish_closed) (auto simp: stop_inv_def)
next
  case False
  then have wait: "sig_pc d = SigWaiting" and ctx: "ctx_done d" using assms(2,3) by (auto simp: stop_inv_def)
  have step: "daemon_step api mgr d Silent (ctx_close d)" using wait ctx by (rule st_sig_ctx)
  have "can_finish api mgr (ctx_close d)"
    using close_inv_step [OF step assms(1)] ctx by (intro can_finish_closed) (simp_all add: ctx_close_def)
  then show ?thesis using can_finish_step [OF step] by simp
qed

text \<open>So there are complete runs: a signal at the start, for instance.\<close>

lemma daemon_completes: "\<exists>tr d. daemon_run api mgr (daemon_init env now s0) tr d \<and> daemon_finished d"
proof -
  have "daemon_step api mgr (daemon_init env now s0) Signal (signal_close (daemon_init env now s0))"
    by (rule st_signal) (simp add: daemon_init_def)
  note run = daemon_run_single [OF this]
  have "can_finish api mgr (signal_close (daemon_init env now s0))"
    by (rule daemon_can_finish [OF close_inv_run [OF run] stop_inv_run [OF run]]) (simp add: requested_def)
  then show ?thesis using daemon_run_trans [OF run] unfolding can_finish_def by blast
qed

section \<open>A concrete run\<close>

text \<open>
  Five hundred frames as the kernel writes them: SYN packets from 203.0.113.7 to 203.0.113.8,
  200 microseconds apart, on a host without further safe networks.
\<close>

definition flood_wire :: "nat \<Rightarrow> u8 list" where
  "flood_wire i = rs_wire \<lparr>src_ip = raw_u32 203 0 113 7, dst_ip = raw_u32 203 0 113 8,
     src_port = 40000, dst_port = 80, protocol = 6, tcp_flags = 2, action = 2, drop_reason = 0,
     timestamp_ns = of_nat (i * 200000)\<rparr>"

abbreviation "flood_src \<equiv> syn_to 0xCB007107 0xCB007108"
abbreviation "flood_wires \<equiv> map flood_wire [1..<Suc 500]"

lemma flood_wire_decoded:
  "UnmarshalBinary zero_meta (flood_wire i) = Inr (flood_src\<lparr>TimestampNS := of_nat (i * 200000)\<rparr>)"
proof -
  have "flood_wire i @ [] = flood_wire i" by simp
  moreover have "\<not> length (flood_wire i) < 24" by (simp add: flood_wire_def rs_wire_length)
  moreover have "be_u32 [203, 0, 113, 7] = 0xCB007107" "be_u32 [203, 0, 113, 8] = 0xCB007108"
    by (simp_all add: be_u32_def)
  ultimately show ?thesis
    using rs_wire_fields [where rest = "[]"]
    by (simp add: UnmarshalBinary_def flood_wire_def le_bytes32_raw zero_meta_def syn_to_def del: of_nat_mult)
qed

lemma flood_wires_decoded:
  "list_all2 (\<lambda>data m. UnmarshalBinary zero_meta data = Inr m) flood_wires (paced flood_src 200000 500)"
  unfolding paced_def list_all2_map1 list_all2_map2 flood_wire_decoded by (rule list_all2_refl) simp

lemma flood_src_key: "u32ToIP (IPLo (key_of flood_src)) = IPv4 203 0 113 7"
  by (simp add: syn_to_def canonicalize_def u32ToIP_def)

lemma flood_kernel_run:
  "\<exists>ff d. daemon_run kernel_api kernel_mgr (daemon_init bare_host 0 kernel_boot)
        (map Frame flood_wires @ [Silent, Verdict ff, Silent, Silent]) d \<and>
     ff_SrcIP ff = IPv4 203 0 113 7 \<and> Attack (Classify fl64 ff) = AttackSynFlood \<and> d_kernel d = kernel1 \<and>
     go_get (blocked (d_fc d)) (dotted 203 0 113 7) = Some (7 + BlockTTL)"
proof (rule flood_run [OF _ _ flood_wires_decoded flood_src_key example_not_safe])
  show "syn_flood (paced flood_src 200000 500)" by (rule syn_to_flood) simp
  show "BlockIP kernel_api kernel_mgr (dotted 203 0 113 7 @ ''/32'') kernel_boot = (None, kernel1)"
    using kernel_put_example by (simp add: BlockIP_def NewLpmKey_slash32 put_wrap_def kernel_api_def)
qed (rule paced_key)

section \<open>Properties\<close>

lemma entry_okD:
  assumes "entry_ok tr a b c e"
  shows "\<not> always_safe a b c e"
    and "\<exists>data m. Frame data \<in> set tr \<and> UnmarshalBinary zero_meta data = Inr m \<and>
           u32ToIP (SrcIP m) = IPv4 a b c e"
    and "\<exists>ff. Verdict ff \<in> set tr \<and> Malicious (Classify fl64 ff) \<and> ff_SrcIP ff = IPv4 a b c e"
  using assms unfolding entry_ok_def justified_def frame_srcs_def by (blast, (clarsimp, metis)+)

text \<open>
  (C2) Nobody is blocked without cause: in every interleaving of the daemon's goroutines,
  starting from a reputation map without host entries, an address with a host entry is not
  one of the always-safe ones, it was the source of a frame read from the ring buffer, and a
  feature vector of that source was classified as malicious.
\<close>

theorem daemon_blocks_justified:
  assumes "ebpf_maps api contents key_size value_size opened" and "reputationMap mgr = Some h"
    and "\<And>a b c e. contents h s0 (host_key a b c e) = None"
    and "daemon_run api mgr (daemon_init env now s0) tr d"
    and "contents h (d_kernel d) (host_key a b c e) \<noteq> None"
  shows "\<not> always_safe a b c e \<and>
         (\<exists>data m. Frame data \<in> set tr \<and> UnmarshalBinary zero_meta data = Inr m \<and>
            u32ToIP (SrcIP m) = IPv4 a b c e) \<and>
         (\<exists>ff. Verdict ff \<in> set tr \<and> Malicious (Classify fl64 ff) \<and> ff_SrcIP ff = IPv4 a b c e)"
proof -
  have "ebpf_maps.kernel_justified contents h tr (d_kernel d)"
    by (rule ebpf_maps.daemon_run_justified [OF assms(1,2,3,4)])
  then have "entry_ok tr a b c e"
    using assms(5) unfolding ebpf_maps.kernel_justified_def [OF assms(1)] by blast
  then show ?thesis using entry_okD by blast
qed

lemma kernel1_entry: "k_contents REPUTATION_MAP kernel1 (host_key 203 0 113 7) = Some (VU32 1)"
  by (simp add: k_contents_def kernel1_def)

lemma kernel_boot_hosts: "k_contents REPUTATION_MAP kernel_boot (host_key a b c e) = None"
  by (simp add: k_contents_def kernel_boot_def REPUTATION_MAP_def)

theorem daemon_blocks_justified_witness:
  "\<exists>tr d. daemon_run kernel_api kernel_mgr (daemon_init bare_host 0 kernel_boot) tr d \<and>
     k_contents REPUTATION_MAP (d_kernel d) (host_key 203 0 113 7) = Some (VU32 1) \<and>
     \<not> always_safe 203 0 113 7 \<and>
     (\<exists>data m. Frame data \<in> set tr \<and> UnmarshalBinary zero_meta data = Inr m \<and>
        u32ToIP (SrcIP m) = IPv4 203 0 113 7) \<and>
     (\<exists>ff. Verdict ff \<in> set tr \<and> Malicious (Classify fl64 ff) \<and> ff_SrcIP ff = IPv4 203 0 113 7)"
proof -
  obtain tr d where d: "daemon_run kernel_api kernel_mgr (daemon_init bare_host 0 kernel_boot) tr d"
    "d_kernel d = kernel1"
    using flood_kernel_run by blast
  have "k_contents REPUTATION_MAP (d_kernel d) (host_key 203 0 113 7) \<noteq> None"
    unfolding d(2) kernel1_entry by simp
  from daemon_blocks_justified [OF kernel_contract kernel_mgr_reputation kernel_boot_hosts d(1) this]
  show ?thesis using d kernel1_entry by metis
qed

text \<open>
  The loop closes: for the frames of a one-way SYN flood from a source with the lower
  address that is in no safe network, if the kernel accepts the entry, there is a run of the
  daemon that reads just these frames, flags the flow as a SYN flood, puts the source into
  the reputation map and tracks it with an expiry 300 seconds later.
\<close>

theorem daemon_blocks_flood:
  assumes "ebpf_maps api contents key_size value_size opened" and "reputationMap mgr = Some h"
    and "syn_flood ms" and "\<forall>m \<in> set ms. key_of m = k"
    and "list_all2 (\<lambda>data m. UnmarshalBinary zero_meta data = Inr m) ds ms"
    and "u32ToIP (IPLo k) = IPv4 a b c e"
    and "isSafeNetwork (NewFeedbackController env) (IPv4 a b c e) = None"
    and "fst (BlockIP api mgr (dotted a b c e @ ''/32'') s0) = None"
  shows "\<exists>ff d. daemon_run api mgr (daemon_init env t s0)
             (map Frame ds @ [Silent, Verdict ff, Silent, Silent]) d \<and>
           ff_SrcIP ff = IPv4 a b c e \<and> Attack (Classify fl64 ff) = AttackSynFlood \<and>
           contents h (d_kernel d) (host_key a b c e) = Some (VU32 1) \<and>
           go_get (blocked (d_fc d)) (dotted a b c e) = Some (now + 300 * 1000000000)"
proof -
  obtain s1 where block: "BlockIP api mgr (dotted a b c e @ ''/32'') s0 = (None, s1)"
    using assms(8) by (metis prod.collapse)
  have "contents h s1 (host_key a b c e) = Some (VU32 1)"
    using ebpf_maps.BlockIP_effect [OF assms(1,2) NewLpmKey_slash32, of h a b c e s0]
    unfolding block norm_host_key by simp
  moreover obtain ff d where d: "daemon_run api mgr (daemon_init env t s0)
        (map Frame ds @ [Silent, Verdict ff, Silent, Silent]) d"
      "ff_SrcIP ff = IPv4 a b c e" "Attack (Classify fl64 ff) = AttackSynFlood" "d_kernel d = s1"
      "go_get (blocked (d_fc d)) (dotted a b c e) = Some (now + BlockTTL)"
    using flood_run [OF assms(3) _ assms(5-7) block, of t now] assms(4) by blast
  ultimately show ?thesis
    by (intro exI [of _ ff] exI [of _ d]) (simp add: BlockTTL_def)
qed

theorem daemon_blocks_flood_witness:
  "\<exists>ff d. daemon_run kernel_api kernel_mgr (daemon_init bare_host 0 kernel_boot)
       (map Frame flood_wires @ [Silent, Verdict ff, Silent, Silent]) d \<and>
     ff_SrcIP ff = IPv4 203 0 113 7 \<and> Attack (Classify fl64 ff) = AttackSynFlood \<and>
     k_contents REPUTATION_MAP (d_kernel d) (host_key 203 0 113 7) = Some (VU32 1) \<and>
     go_get (blocked (d_fc d)) (dotted 203 0 113 7) = Some (7 + 300 * 1000000000)"
proof (rule daemon_blocks_flood [OF kernel_contract kernel_mgr_reputation _ _ flood_wires_decoded
      flood_src_key example_not_safe])
  show "syn_flood (paced flood_src 200000 500)" by (rule syn_to_flood) simp
  show "\<forall>m \<in> set (paced flood_src 200000 500). key_of m = key_of flood_src" using paced_key by blast
  show "fst (BlockIP kernel_api kernel_mgr (dotted 203 0 113 7 @ ''/32'') kernel_boot) = None"
    using kernel_put_example by (simp add: BlockIP_def NewLpmKey_slash32 put_wrap_def kernel_api_def)
qed

lemma RunDaemon_setup_ok:
  assumes "RunDaemon_setup api new_reader mgr env now s = (Inr d0, s1)"
  shows "SetLogLevel api mgr LogLevelDebug s = (None, s1)" and "d0 = daemon_init env now s1"
  using assms by (auto simp: RunDaemon_setup_def Let_def split: prod.splits option.splits)

text \<open>
  (C25) The log level over the daemon's life: after a successful set-up the level is DEBUG in
  every state of every run, and when the last update goes through the level is again what it
  was before (OFF when it could not be read).
\<close>

theorem daemon_restores_level:
  assumes "ebpf_maps api contents key_size value_size opened" and "reputationMap mgr = Some h"
    and "configMap mgr = Some hc" and "hc \<noteq> h"
    and "RunDaemon_setup api new_reader mgr env now s = (Inr d0, s1)"
    and "daemon_run api mgr d0 tr d"
    and "RunDaemon_teardown api mgr (prev_level api mgr s) d = (None, s2)"
  shows "GetLogLevel api mgr (d_kernel d) = Inr LogLevelDebug \<and>
         GetLogLevel api mgr s2 = Inr (prev_level api mgr s)"
proof
  note start = RunDaemon_setup_ok [OF assms(5)]
  have "GetLogLevel api mgr s1 = Inr LogLevelDebug"
    by (rule ebpf_maps.SetLogLevel_get [OF assms(1,3) start(1)])
  moreover have "contents hc (d_kernel d) = contents hc s1"
    using ebpf_maps.daemon_run_other [OF assms(1,2,4)] assms(6) unfolding start(2) by blast
  ultimately show "GetLogLevel api mgr (d_kernel d) = Inr LogLevelDebug"
    using ebpf_maps.GetLogLevel_cong [OF assms(1,3)] by blast
  show "GetLogLevel api mgr s2 = Inr (prev_level api mgr s)"
    using assms(7) unfolding RunDaemon_teardown_def
    by (rule ebpf_maps.SetLogLevel_get [OF assms(1,3)])
qed

lemma kernel_mgr_config [simp]: "configMap kernel_mgr = Some CONFIG_MAP"
  by (simp add: kernel_mgr_def)

lemma kernel_maps_differ: "CONFIG_MAP \<noteq> REPUTATION_MAP"
  by (simp add: CONFIG_MAP_def REPUTATION_MAP_def)

lemma kernel_SetLogLevel:
  "SetLogLevel kernel_api kernel_mgr level k = (None, snd (SetLogLevel kernel_api kernel_mgr level k))"
  using kernel_SetLogLevel_ok by (metis prod.collapse)

abbreviation "debug_kernel s \<equiv> snd (SetLogLevel kernel_api kernel_mgr LogLevelDebug s)"

lemma kernel_setup:
  "RunDaemon_setup kernel_api (\<lambda>_. None) kernel_mgr bare_host 0 s =
     (Inr (daemon_init bare_host 0 (debug_kernel s)), debug_kernel s)"
  by (subst RunDaemon_setup_def, subst kernel_SetLogLevel) (simp add: GetEventsMap_def kernel_mgr_def)

text \<open>One frame of the flood is read.\<close>

lemma kernel_frame_run:
  "daemon_run kernel_api kernel_mgr (daemon_init bare_host 0 s) [Frame (flood_wire 1)]
     (read_frame (flood_wire 1) (daemon_init bare_host 0 s))"
  by (intro daemon_run_single st_frame) (simp add: daemon_init_def)

theorem daemon_restores_level_witness:
  "\<exists>s d s2. GetLogLevel kernel_api kernel_mgr s = Inr LogLevelWarn \<and>
     RunDaemon_teardown kernel_api kernel_mgr LogLevelWarn d = (None, s2) \<and>
     GetLogLevel kernel_api kernel_mgr (d_kernel d) = Inr LogLevelDebug \<and>
     GetLogLevel kernel_api kernel_mgr s2 = Inr LogLevelWarn"
proof -
  let ?s = "snd (SetLogLevel kernel_api kernel_mgr LogLevelWarn kernel_boot)"
  have warn: "GetLogLevel kernel_api kernel_mgr ?s = Inr LogLevelWarn"
    by (rule ebpf_maps.SetLogLevel_get [OF kernel_contract kernel_mgr_config kernel_SetLogLevel])
  then have prev: "prev_level kernel_api kernel_mgr ?s = LogLevelWarn" by (simp add: prev_level_def)
  let ?d = "read_frame (flood_wire 1) (daemon_init bare_host 0 (debug_kernel ?s))"
  have down: "RunDaemon_teardown kernel_api kernel_mgr (prev_level kernel_api kernel_mgr ?s) ?d =
      (None, snd (SetLogLevel kernel_api kernel_mgr LogLevelWarn (d_kernel ?d)))"
    unfolding RunDaemon_teardown_def prev by (rule kernel_SetLogLevel)
  from daemon_restores_level [OF kernel_contract kernel_mgr_reputation kernel_mgr_config
      kernel_maps_differ kernel_setup kernel_frame_run down]
  show ?thesis using warn down unfolding prev by blast
qed

text \<open>
  (C24) Blocks do not expire across a restart: an address blocked when the daemon stops is still
  blocked after its tear-down, and a daemon started later never lifts that block, at whatever
  times it sweeps, unless it sees the address offend again.  The expiry times live only in
  the process, so the time limit on blocks does not hold for a daemon that is restarted.
\<close>

theorem blocks_survive_restart:
  assumes "ebpf_maps api contents key_size value_size opened" and "reputationMap mgr = Some h"
    and "configMap mgr = Some hc" and "hc \<noteq> h"
    and "contents h (d_kernel d1) (host_key a b c e) = Some v"
    and "RunDaemon_teardown api mgr level d1 = (err, s1)"
    and "RunDaemon_setup api new_reader mgr env now s1 = (Inr d0, s2)"
    and "daemon_run api mgr d0 tr d"
    and "\<forall>ff. Verdict ff \<in> set tr \<and> Malicious (Classify fl64 ff) \<longrightarrow> ff_SrcIP ff \<noteq> IPv4 a b c e"
  shows "contents h s1 (host_key a b c e) = Some v \<and>
         contents h (d_kernel d) (host_key a b c e) = Some v"
proof
  note start = RunDaemon_setup_ok [OF assms(7)] and other = ebpf_maps.SetLogLevel_other [OF assms(1,3)]
  show kept: "contents h s1 (host_key a b c e) = Some v"
    using other [OF assms(6) [unfolded RunDaemon_teardown_def], of h] assms(4,5) by simp
  have s2: "contents h s2 (host_key a b c e) = Some v" using other [OF start(1), of h] assms(4) kept by simp
  have "ebpf_maps.orphan contents h v a b c e (d_fc d) (d_kernel d)"
    using assms(8,9) unfolding start(2)
    by (intro ebpf_maps.orphan_stays [OF assms(1,2) s2]) (auto simp: justified_def)
  then show "contents h (d_kernel d) (host_key a b c e) = Some v"
    by (simp add: ebpf_maps.orphan_def [OF assms(1)])
qed

theorem blocks_survive_restart_witness:
  "\<exists>tr1 d1 s1 tr d. daemon_run kernel_api kernel_mgr (daemon_init bare_host 0 kernel_boot) tr1 d1 \<and>
     go_get (blocked (d_fc d1)) (dotted 203 0 113 7) = Some (7 + BlockTTL) \<and>
     RunDaemon_teardown kernel_api kernel_mgr LogLevelOff d1 = (None, s1) \<and>
     daemon_run kernel_api kernel_mgr (daemon_init bare_host 0 (debug_kernel s1)) tr d \<and>
     k_contents REPUTATION_MAP (d_kernel d) (host_key 203 0 113 7) = Some (VU32 1)"
proof -
  obtain tr1 d1 where d1: "daemon_run kernel_api kernel_mgr (daemon_init bare_host 0 kernel_boot) tr1 d1"
    "d_kernel d1 = kernel1" "go_get (blocked (d_fc d1)) (dotted 203 0 113 7) = Some (7 + BlockTTL)"
    using flood_kernel_run by blast
  let ?s1 = "snd (SetLogLevel kernel_api kernel_mgr LogLevelOff (d_kernel d1))"
  have down: "RunDaemon_teardown kernel_api kernel_mgr LogLevelOff d1 = (None, ?s1)"
    unfolding RunDaemon_teardown_def by (rule kernel_SetLogLevel)
  have "k_contents REPUTATION_MAP (d_kernel d1) (host_key 203 0 113 7) = Some (VU32 1)"
    unfolding d1(2) by (rule kernel1_entry)
  from blocks_survive_restart [OF kernel_contract kernel_mgr_reputation kernel_mgr_config
      kernel_maps_differ this down kernel_setup kernel_frame_run]
  show ?thesis using d1 down kernel_frame_run by fastforce
qed

text \<open>
  (C22) The daemon stops when it is asked to, and only then.  A state reached without a signal or
  the end of the caller's context has every goroutine and the read loop still running, whatever
  read errors there were, and a signal can be delivered.  Once one of the two has happened, in
  whatever state and whatever is in the channels, the daemon can complete its shutdown by
  internal steps alone, without a further frame, read error, signal or cancellation: the signal
  goroutine closes the reader, so the read loop ends, the context is cancelled, and the three
  goroutines that \<open>wg.Wait\<close> waits for return.
\<close>

theorem daemon_can_shut_down:
  assumes "daemon_run api mgr (daemon_init env now s0) tr d"
  shows "if Signal \<in> set tr \<or> Cancelled \<in> set tr
         then \<exists>tr' d'. daemon_run api mgr d tr' d' \<and> daemon_finished d' \<and> (\<forall>l \<in> set tr'. internal l)
         else \<not> read_done d \<and> \<not> agg_done d \<and> \<not> infer_done d \<and> \<not> fb_done d \<and>
              (\<exists>d'. daemon_step api mgr d Signal d')"
proof (cases "requested tr")
  case True
  then have "can_finish api mgr d"
    by (rule daemon_can_finish [OF close_inv_run [OF assms] stop_inv_run [OF assms]])
  then show ?thesis using True by (simp add: can_finish_def requested_def)
next
  case False
  then have "sig_pc d = SigWaiting" "\<not> ctx_done d" "\<not> read_done d \<and> \<not> agg_done d \<and> \<not> infer_done d \<and> \<not> fb_done d"
    using stop_inv_run [OF assms] by (auto simp: stop_inv_def)
  then show ?thesis using False st_signal by (auto simp: requested_def)
qed

theorem daemon_can_shut_down_witness:
  "\<exists>tr d d1 tr' d'. daemon_run kernel_api kernel_mgr (daemon_init bare_host 0 kernel_boot) tr d \<and>
     d_kernel d = kernel1 \<and> \<not> read_done d \<and> daemon_step kernel_api kernel_mgr d Signal d1 \<and>
     daemon_run kernel_api kernel_mgr d1 tr' d' \<and> daemon_finished d' \<and> (\<forall>l \<in> set tr'. internal l)"
proof -
  obtain ff d where d: "daemon_run kernel_api kernel_mgr (daemon_init bare_host 0 kernel_boot)
      (map Frame flood_wires @ [Silent, Verdict ff, Silent, Silent]) d" "d_kernel d = kernel1"
    using flood_kernel_run by blast
  have "Signal \<notin> set (map Frame flood_wires @ [Silent, Verdict ff, Silent, Silent])"
    "Cancelled \<notin> set (map Frame flood_wires @ [Silent, Verdict ff, Silent, Silent])" by auto
  then have "\<not> read_done d \<and> (\<exists>d1. daemon_step kernel_api kernel_mgr d Signal d1)"
    using daemon_can_shut_down [OF d(1)] by (simp only: if_False simp_thms)
  then obtain d1 where d1: "\<not> read_done d" "daemon_step kernel_api kernel_mgr d Signal d1" by blast
  have "Signal \<in> set ((map Frame flood_wires @ [Silent, Verdict ff, Silent, Silent]) @ [Signal])" by simp
  then have "\<exists>tr' d'. daemon_run kernel_api kernel_mgr d1 tr' d' \<and> daemon_finished d' \<and> (\<forall>l \<in> set tr'. internal l)"
    using daemon_can_shut_down [OF daemon_run.run_step [OF d(1) d1(2)]] by (simp only: if_True simp_thms)
  with d d1 show ?thesis by blast
qed

end
