(* ===== verification/Inspector.thy ===== *)
theory Inspector
  imports Prelude
begin

text \<open>
  \<^verbatim>\<open>src/user-space/pkg/engine/xdp_inspector.go\<close>: the protection status of the network
  adapters.  The links come from the netlink package; a link carries the attributes the
  code reads, with the operational state as a value of that package and its \<open>String\<close> method
  as an argument.
\<close>

section \<open>What netlink returns\<close>

record link_xdp =
  Attached :: bool
  AttachMode :: u32
  ProgId :: u32
  Flags :: u32

record 'o link_attrs =
  la_Index :: int
  la_Name :: string
  HardwareAddr :: "u8 list"
  la_OperState :: 'o
  la_MTU :: int
  Xdp :: "link_xdp option"

section \<open>InspectInterfaces\<close>

record InterfaceStatus =
  Index :: int
  Name :: string
  MAC :: string
  OperState :: string
  MTU :: int
  IsProtected :: bool
  XdpMode :: string
  ProgramID :: u32

text \<open>\<open>net.HardwareAddr.String\<close>: two hexadecimal digits per byte, separated by colons.\<close>

definition hexDigit :: string where
  "hexDigit = ''0123456789abcdef''"

definition hex_byte :: "u8 \<Rightarrow> string" where
  "hex_byte b = [hexDigit ! unat (drop_bit 4 b), hexDigit ! unat (b AND 15)]"

fun HardwareAddr_String :: "u8 list \<Rightarrow> string" where
  "HardwareAddr_String [] = []"
| "HardwareAddr_String [b] = hex_byte b"
| "HardwareAddr_String (b # bs) = hex_byte b @ '':'' @ HardwareAddr_String bs"

definition xdp_mode :: "link_xdp \<Rightarrow> string" where
  "xdp_mode x =
     (if AttachMode x = 1 then ''GENERIC/SKB''
      else if AttachMode x = 2 then ''NATIVE/DRIVER''
      else if AttachMode x = 3 then ''HW_OFFLOAD''
      else if Flags x AND push_bit 1 1 \<noteq> 0 then ''GENERIC/SKB''
      else if Flags x AND push_bit 2 1 \<noteq> 0 then ''NATIVE/DRIVER''
      else if Flags x AND push_bit 3 1 \<noteq> 0 then ''HW_OFFLOAD''
      else ''ATTACHED'')"

definition link_status :: "('o \<Rightarrow> string) \<Rightarrow> 'o link_attrs \<Rightarrow> InterfaceStatus" where
  "link_status oper attrs =
     (let status = \<lparr>Index = la_Index attrs, Name = la_Name attrs,
                    MAC = HardwareAddr_String (HardwareAddr attrs),
                    OperState = oper (la_OperState attrs), MTU = la_MTU attrs,
                    IsProtected = False, XdpMode = ''NONE'', ProgramID = 0\<rparr>
      in case Xdp attrs of
           None \<Rightarrow> status
         | Some x \<Rightarrow> if Attached x
                     then status\<lparr>IsProtected := True, ProgramID := ProgId x, XdpMode := xdp_mode x\<rparr>
                     else status)"

datatype inspect_error = LinksFailed string

definition InspectInterfaces ::
    "('o \<Rightarrow> string) \<Rightarrow> string + 'o link_attrs list \<Rightarrow> inspect_error + InterfaceStatus list" where
  "InspectInterfaces oper links =
     (case links of Inl e \<Rightarrow> Inl (LinksFailed e) | Inr ls \<Rightarrow> Inr (map (link_status oper) ls))"

section \<open>Lemmas\<close>

lemma xdp_mode_not_none: "xdp_mode x \<noteq> ''NONE''"
  by (simp add: xdp_mode_def)

lemma link_status_protected:
  "IsProtected (link_status oper l) \<longleftrightarrow> (\<exists>x. Xdp l = Some x \<and> Attached x)"
  "IsProtected (link_status oper l) \<longleftrightarrow> XdpMode (link_status oper l) \<noteq> ''NONE''"
  by (auto simp: link_status_def Let_def xdp_mode_not_none split: option.split)

section \<open>Properties\<close>

text \<open>
  (C40) The status report covers every link once, in order, and tells exactly the links with an
  attached program as protected, with that program's number; the other links have mode NONE
  and number 0.  But the mode of a protected link is wrong for the two common cases: where
  the kernel numbers the attach modes 1 for the driver and 2 for the generic hook, a program
  in the driver is reported as generic and a generic one as native.
\<close>

theorem inspect_reports:
  assumes "uapi_DRV = 1" and "uapi_SKB = 2"
  shows "\<exists>sts. InspectInterfaces oper (Inr links) = Inr sts \<and>
           map Index sts = map la_Index links \<and>
           map IsProtected sts = map (\<lambda>l. \<exists>x. Xdp l = Some x \<and> Attached x) links \<and>
           map ProgramID sts = map (\<lambda>l. case Xdp l of Some x \<Rightarrow> if Attached x then ProgId x else 0 | None \<Rightarrow> 0) links \<and>
           (\<forall>st \<in> set sts. IsProtected st \<longleftrightarrow> XdpMode st \<noteq> ''NONE'') \<and>
           (\<forall>i x. i < length links \<and> Xdp (links ! i) = Some x \<and> Attached x \<longrightarrow>
              (AttachMode x = uapi_DRV \<longrightarrow> XdpMode (sts ! i) = ''GENERIC/SKB'') \<and>
              (AttachMode x = uapi_SKB \<longrightarrow> XdpMode (sts ! i) = ''NATIVE/DRIVER''))"
proof (intro exI [of _ "map (link_status oper) links"] conjI)
  show "\<forall>st \<in> set (map (link_status oper) links). IsProtected st \<longleftrightarrow> XdpMode st \<noteq> ''NONE''"
    using link_status_protected(2) by auto
  show "\<forall>i x. i < length links \<and> Xdp (links ! i) = Some x \<and> Attached x \<longrightarrow>
      (AttachMode x = uapi_DRV \<longrightarrow> XdpMode (map (link_status oper) links ! i) = ''GENERIC/SKB'') \<and>
      (AttachMode x = uapi_SKB \<longrightarrow> XdpMode (map (link_status oper) links ! i) = ''NATIVE/DRIVER'')"
    by (simp add: assms link_status_def Let_def xdp_mode_def)
qed (auto simp: InspectInterfaces_def link_status_protected(1) link_status_def Let_def split: option.split)

text \<open>An adapter with the program in its driver, and one without a program.\<close>

definition example_links :: "unit link_attrs list" where
  "example_links =
     [\<lparr>la_Index = 2, la_Name = ''eth0'', HardwareAddr = [82, 84, 0, 18, 52, 86], la_OperState = (),
       la_MTU = 1500, Xdp = Some \<lparr>Attached = True, AttachMode = 1, ProgId = 42, Flags = 4\<rparr>\<rparr>,
      \<lparr>la_Index = 3, la_Name = ''eth1'', HardwareAddr = [], la_OperState = (), la_MTU = 1500, Xdp = None\<rparr>]"

theorem inspect_reports_witness:
  "\<exists>sts. InspectInterfaces (\<lambda>_. ''up'') (Inr example_links) = Inr sts \<and>
     map IsProtected sts = [True, False] \<and> map ProgramID sts = [42, 0] \<and>
     XdpMode (sts ! 0) = ''GENERIC/SKB''"
proof -
  have "0 < length example_links \<and>
      Xdp (example_links ! 0) = Some \<lparr>Attached = True, AttachMode = 1, ProgId = 42, Flags = 4\<rparr>"
    by (simp add: example_links_def)
  then show ?thesis
    using inspect_reports [of 1 2 "\<lambda>_. ''up''" example_links]
    by (fastforce simp: example_links_def)
qed

end
