(* ===== verification/Cli.thy ===== *)
theory Cli
  imports DaemonSafety Inspector
begin

text \<open>
  \<^verbatim>\<open>src/user-space/cmd/main.go\<close>: the commands of \<open>ai-ida-control\<close>, each with its arguments as
  cobra passes them.  A command yields what it prints (one constructor per message), its exit
  code, and the kernel state; \<open>os.Exit\<close> skips the deferred \<open>mgr.Close\<close>, a return runs it.
\<close>

section \<open>Reading a port number\<close>

text \<open>
  \<open>fmt.Sscanf(s, "%d", &port)\<close> with a \<open>uint16\<close>: blanks are skipped, the digits that follow are
  the number, an error if there are none or the number is too large; the rest is not looked at.
\<close>

definition scan_space :: "char \<Rightarrow> bool" where
  "scan_space c \<longleftrightarrow> c \<in> {CHR 0x09, CHR 0x0B, CHR 0x0C, CHR 0x0D, CHR 0x20}"

definition dec_value :: "string \<Rightarrow> nat" where
  "dec_value = foldl (\<lambda>n c. n * 10 + dec_val c) 0"

definition Sscanf_u16 :: "string \<Rightarrow> u16 option" where
  "Sscanf_u16 s =
     (let tok = takeWhile is_dec (dropWhile scan_space s)
      in if tok = [] then None
         else if dec_value tok < 2 ^ 16 then Some (of_nat (dec_value tok)) else None)"

section \<open>Commands\<close>

datatype cli_out =
    CliBadLevel types_error
  | CliLoadFailed engine_error
  | CliMonitorFailed monitor_error
  | CliLine string
  | CliInspectFailed inspect_error
  | CliRow "string list"
  | CliBlockFailed string engine_error
  | CliBlocked string
  | CliBadPort string
  | CliPortBlockFailed u16 engine_error
  | CliPortBlocked u16
  | CliPortUnblockFailed u16 engine_error
  | CliPortUnblocked u16
  | CliDaemonFailed daemon_error

type_synonym cli_result = "cli_out list \<times> nat"

definition monitorCmd ::
    "('h, 'k) ebpf_api \<Rightarrow> ('h \<Rightarrow> string option) \<Rightarrow> string \<Rightarrow> ring_read list \<Rightarrow> ('k \<Rightarrow> 'k) \<Rightarrow> 'k \<Rightarrow>
     cli_result \<times> 'k" where
  "monitorCmd api new_reader logLevelFlag reads between s =
     (case ParseLogLevel logLevelFlag of
        Inl e \<Rightarrow> (([CliBadLevel e], 1), s)
      | Inr level \<Rightarrow>
          (case LoadPinnedMaps api s of
             (Inl e, s1) \<Rightarrow> (([CliLoadFailed e], 1), s1)
           | (Inr mgr, s1) \<Rightarrow>
               (case MonitorEvents api new_reader mgr level reads between s1 of
                  (Inl e, s2) \<Rightarrow> (([CliMonitorFailed e], 1), s2)
                | (Inr ls, s2) \<Rightarrow> ((map CliLine ls, 0), Close api mgr s2))))"

definition int_string :: "int \<Rightarrow> string" where
  "int_string i = (if i < 0 then ''-'' @ dec_string (nat (- i)) else dec_string (nat i))"

text \<open>The cells of the status table; the coloured dot before the word is left out.\<close>

definition status_row :: "InterfaceStatus \<Rightarrow> string list" where
  "status_row iface =
     [Name iface, int_string (Index iface), OperState iface,
      if IsProtected iface then ''SHIELDED'' else ''INACTIVE'', XdpMode iface,
      dec_string (unat (ProgramID iface))]"

definition statusCmd :: "('o \<Rightarrow> string) \<Rightarrow> string + 'o link_attrs list \<Rightarrow> cli_result" where
  "statusCmd oper links =
     (case InspectInterfaces oper links of
        Inl e \<Rightarrow> ([CliInspectFailed e], 0)
      | Inr interfaces \<Rightarrow>
          (CliRow [''INTERFACE'', ''INDEX'', ''STATE'', ''PROTECTION'', ''XDP MODE'', ''PROG ID''] #
           CliRow [''---------'', ''-----'', ''-----'', ''----------'', ''--------'', ''-------''] #
           map (CliRow \<circ> status_row) interfaces, 0))"

definition blockCmd :: "('h, 'k) ebpf_api \<Rightarrow> string \<Rightarrow> 'k \<Rightarrow> cli_result \<times> 'k" where
  "blockCmd api target s =
     (case LoadPinnedMaps api s of
        (Inl e, s1) \<Rightarrow> (([CliLoadFailed e], 0), s1)
      | (Inr mgr, s1) \<Rightarrow>
          (case BlockIP api mgr target s1 of
             (Some e, s2) \<Rightarrow> (([CliBlockFailed target e], 0), Close api mgr s2)
           | (None, s2) \<Rightarrow> (([CliBlocked target], 0), Close api mgr s2)))"

definition portCmd :: "('h, 'k) ebpf_api \<Rightarrow> string \<Rightarrow> string \<Rightarrow> 'k \<Rightarrow> cli_result \<times> 'k" where
  "portCmd api act arg s =
     (case Sscanf_u16 arg of
        None \<Rightarrow> (([CliBadPort arg], 0), s)
      | Some port \<Rightarrow>
          (case LoadPinnedMaps api s of
             (Inl e, s1) \<Rightarrow> (([CliLoadFailed e], 0), s1)
           | (Inr mgr, s1) \<Rightarrow>
               if act = ''block'' then
                 (case BlockPort api mgr port s1 of
                    (Some e, s2) \<Rightarrow> (([CliPortBlockFailed port e], 0), Close api mgr s2)
                  | (None, s2) \<Rightarrow> (([CliPortBlocked port], 0), Close api mgr s2))
               else if act = ''unblock'' then
                 (case UnblockPort api mgr port s1 of
                    (Some e, s2) \<Rightarrow> (([CliPortUnblockFailed port e], 0), Close api mgr s2)
                  | (None, s2) \<Rightarrow> (([CliPortUnblocked port], 0), Close api mgr s2))
               else (([], 0), Close api mgr s1)))"

text \<open>The daemon runs until all goroutines have returned, so the command is a relation.\<close>

inductive daemonCmd ::
    "('h, 'k) ebpf_api \<Rightarrow> ('h \<Rightarrow> string option) \<Rightarrow> nat host_env \<Rightarrow> 'k \<Rightarrow> cli_result \<Rightarrow> 'k \<Rightarrow> bool"
  for api new_reader env s where
  dc_load: "LoadPinnedMaps api s = (Inl e, s1) \<Longrightarrow>
    daemonCmd api new_reader env s ([CliLoadFailed e], 1) s1"
| dc_setup: "LoadPinnedMaps api s = (Inr mgr, s1) \<Longrightarrow>
    RunDaemon_setup api new_reader mgr env now s1 = (Inl e, s2) \<Longrightarrow>
    daemonCmd api new_reader env s ([CliDaemonFailed e], 1) s2"
| dc_run: "LoadPinnedMaps api s = (Inr mgr, s1) \<Longrightarrow>
    RunDaemon_setup api new_reader mgr env now s1 = (Inr d0, s2) \<Longrightarrow>
    daemon_run api mgr d0 tr d \<Longrightarrow> daemon_finished d \<Longrightarrow>
    RunDaemon_teardown api mgr (prev_level api mgr s1) d = (err, s3) \<Longrightarrow>
    daemonCmd api new_reader env s ([], 0) (Close api mgr s3)"

section \<open>Descriptors\<close>

context ebpf_maps
begin

lemma put_wrap_opened: "opened (snd (put_wrap api h key v wrap s)) = opened s"
  using put_opened by (auto simp: put_wrap_def split: option.split prod.split) (metis snd_conv)

lemma SetLogLevel_opened: "opened (snd (SetLogLevel api m level s)) = opened s"
  by (simp add: SetLogLevel_def put_wrap_opened)

lemma BlockIP_opened: "opened (snd (BlockIP api m target s)) = opened s"
  by (simp add: BlockIP_def put_wrap_opened split: sum.split)

lemma UnblockIP_opened: "opened (snd (UnblockIP api m target s)) = opened s"
  using delete_opened
  by (auto simp: UnblockIP_def split: sum.split option.split prod.split) (metis snd_conv)+

lemma handle_opened: "opened (fst (snd (handle api mgr now alert fc s))) = opened s"
  using BlockIP_opened [of mgr "alert_SrcIP alert @ ''/32''" s]
  by (auto simp: handle_def Let_def split: option.split prod.split)

lemma janitor_entry_opened: "opened (fst (snd (janitor_entry api mgr ip st))) = opened (fst (snd st))"
  using UnblockIP_opened [of mgr "ip @ ''/32''" "fst (snd st)"]
  by (cases st) (auto simp: janitor_entry_def split: option.split prod.split)

lemma runJanitor_opened: "opened (fst (snd (runJanitor api mgr ordB now fc s))) = opened s"
proof -
  have "opened (fst (snd (fold (janitor_entry api mgr) L st))) = opened (fst (snd st))" for L st
    by (induction L arbitrary: st) (simp_all add: janitor_entry_opened)
  then show ?thesis by (simp add: runJanitor_def)
qed

lemma daemon_run_opened: "daemon_run api mgr d0 tr d \<Longrightarrow> opened (d_kernel d) = opened (d_kernel d0)"
proof (induction rule: daemon_run.induct)
  case run_start
  show ?case ..
next
  case (run_step tr d l d')
  from run_step.hyps(2) have "opened (d_kernel d') = opened (d_kernel d)"
  proof (cases rule: daemon_step_feedback)
    case none
    then show ?thesis by simp
  next
    case (event ev ordB)
    from event(3) show ?thesis
    proof (cases rule: Feedback_Run_event_cases)
      case stop
      then show ?thesis by simp
    next
      case (sweep now ns)
      then show ?thesis using runJanitor_opened [of mgr ordB now "d_fc d" "d_kernel d"] by simp
    next
      case (alert now alert nt)
      then show ?thesis using handle_opened [of mgr now alert "d_fc d" "d_kernel d"] by simp
    qed
  qed
  then show ?case using run_step.IH by simp
qed

lemma Close_loaded:
  assumes "LoadPinnedMaps api s = (Inr mgr, s1)" and "opened s2 = opened s1"
  shows "opened (Close api mgr s2) = opened s"
  by (cases s rule: LoadPinnedMaps_cases)
     (use assms in \<open>auto simp: Close_def close_if_def close_opened\<close>)

lemma LoadPinnedMaps_err_opened: "LoadPinnedMaps api s = (Inl e, s1) \<Longrightarrow> opened s1 = opened s"
  by (cases s rule: LoadPinnedMaps_cases) auto

lemma BlockPort_opened:
  "opened (snd (BlockPort api m port s)) = opened s" "opened (snd (UnblockPort api m port s)) = opened s"
  by (simp_all add: BlockPort_def UnblockPort_def put_wrap_opened)

lemma blockCmd_opened: "opened (snd (blockCmd api target s)) = opened s"
proof (cases "LoadPinnedMaps api s")
  case (Pair r s1)
  show ?thesis
  proof (cases r)
    case (Inl e)
    then show ?thesis using Pair LoadPinnedMaps_err_opened by (simp add: blockCmd_def)
  next
    case (Inr mgr)
    then show ?thesis
      using Pair Close_loaded [of s mgr s1] BlockIP_opened [of mgr target s1]
      by (auto simp: blockCmd_def split: prod.split option.split)
  qed
qed

lemma portCmd_opened: "opened (snd (portCmd api act arg s)) = opened s"
proof (cases "LoadPinnedMaps api s")
  case (Pair r s1)
  show ?thesis
  proof (cases r)
    case (Inl e)
    then show ?thesis
      using Pair LoadPinnedMaps_err_opened by (simp add: portCmd_def split: option.split)
  next
    case (Inr mgr)
    then show ?thesis
      using Pair Close_loaded [of s mgr s1] BlockPort_opened [of mgr _ s1]
      by (auto simp: portCmd_def split: prod.split option.split) (metis snd_conv)+
  qed
qed

lemma daemonCmd_opened:
  assumes "daemonCmd api new_reader env s (msgs, 0) s'"
  shows "opened s' = opened s"
  using assms
proof cases
  case (dc_run mgr s1 now d0 s2 tr d err s3)
  note start = RunDaemon_setup_ok [OF dc_run(4)]
  have "opened s2 = opened s1" using SetLogLevel_opened [of mgr LogLevelDebug s1] start(1) by simp
  moreover have "opened (d_kernel d) = opened s2"
    using daemon_run_opened [OF dc_run(5)] by (simp add: start(2) daemon_init_def)
  moreover have "opened s3 = opened (d_kernel d)"
    using SetLogLevel_opened [of mgr "prev_level api mgr s1" "d_kernel d"] dc_run(7)
    by (simp add: RunDaemon_teardown_def)
  ultimately show ?thesis using Close_loaded [OF dc_run(3)] dc_run(2) by simp
qed simp_all

end

section \<open>The port argument\<close>

lemma dec_value_snoc: "dec_value (cs @ [c]) = dec_value cs * 10 + dec_val c"
  by (simp add: dec_value_def)

lemma dec_value_string [simp]: "dec_value (dec_string n) = n"
proof (induction n rule: dec_string.induct)
  case (1 n)
  show ?case
  proof (cases "n < 10")
    case True
    then show ?thesis by (simp add: dec_string.simps [of n] dec_value_def)
  next
    case False
    then show ?thesis using 1 by (simp add: dec_string.simps [of n] dec_value_snoc)
  qed
qed

lemma scan_space_not_dec: "is_dec c \<Longrightarrow> \<not> scan_space c"
  by (auto simp: scan_space_def is_dec_def)

lemma scan_token:
  assumes "\<forall>c \<in> set blanks. scan_space c" and "rest = [] \<or> \<not> is_dec (hd rest)"
  shows "takeWhile is_dec (dropWhile scan_space (blanks @ dec_string n @ rest)) = dec_string n"
proof -
  have dec: "\<forall>c \<in> set (dec_string n). is_dec c" using dec_string_is_dec by blast
  obtain c cs where c: "dec_string n = c # cs" by (cases "dec_string n") auto
  then have "\<not> scan_space c" using dec scan_space_not_dec by simp
  then have "dropWhile scan_space (blanks @ dec_string n @ rest) = dec_string n @ rest"
    using assms(1) c by (simp add: dropWhile_append2)
  moreover have "takeWhile is_dec rest = []" using assms(2) by (cases rest) auto
  ultimately show ?thesis using dec by (simp add: takeWhile_append2)
qed

section \<open>Properties\<close>

text \<open>
  The port argument: after leading blanks, a decimal number below 65536 is read as that
  port and a larger one is an error, whatever follows the digits, which is ignored.  So
  \<open>80/tcp\<close> means port 80, and \<open>0x50\<close> means port 0.
\<close>

theorem port_argument:
  assumes "\<forall>c \<in> set blanks. scan_space c" and "rest = [] \<or> \<not> is_dec (hd rest)"
  shows "Sscanf_u16 (blanks @ dec_string n @ rest) = (if n < 65536 then Some (of_nat n) else None)"
  using scan_token [OF assms] by (simp add: Sscanf_u16_def Let_def)

theorem port_argument_witness:
  "Sscanf_u16 (''  '' @ dec_string 80 @ ''/tcp'') = Some 80 \<and>
   Sscanf_u16 (dec_string 0 @ ''x50'') = Some 0 \<and> Sscanf_u16 (dec_string 70000 @ []) = None"
proof -
  have "\<not> is_dec CHR ''x''" by (simp add: is_dec_def)
  then show ?thesis
    using port_argument [of "''  ''" "''/tcp''" 80] port_argument [of "[]" "''x50''" 0]
      port_argument [of "[]" "[]" 70000]
    by (simp add: scan_space_def)
qed

text \<open>
  (C38) The \<open>port\<close> command in full, when the maps can be opened: a readable port and the action
  block or unblock set exactly that port's entry to 2 or 0 if the kernel accepts it; in every
  other case no map changes.  An action that is neither is accepted without any message or
  error code.
\<close>

theorem port_command:
  assumes "ebpf_maps api contents key_size value_size opened"
    and "LoadPinnedMaps api s = (Inr mgr, s1)" and "portGateMap mgr = Some h"
  shows "contents h' (snd (portCmd api act arg s)) =
           (case Sscanf_u16 arg of
              None \<Rightarrow> contents h' s
            | Some p \<Rightarrow>
                if h' = h \<and> act = ''block'' \<and> fst (BlockPort api mgr p s1) = None
                then (contents h s)(VU32 (ucast p) \<mapsto> VU8 2)
                else if h' = h \<and> act = ''unblock'' \<and> fst (UnblockPort api mgr p s1) = None
                then (contents h s)(VU32 (ucast p) \<mapsto> VU8 0)
                else contents h' s) \<and>
         (Sscanf_u16 arg \<noteq> None \<and> act \<noteq> ''block'' \<and> act \<noteq> ''unblock'' \<longrightarrow>
            fst (portCmd api act arg s) = ([], 0))"
proof -
  have close: "contents g (Close api mgr k) = contents g k" for g k
    using ebpf_maps.close_contents [OF assms(1)] by (simp add: Close_def close_if_def split: option.split)
  have load: "contents g s1 = contents g s" for g
    using assms(2) by (cases s rule: ebpf_maps.LoadPinnedMaps_cases [OF assms(1)]) auto
  have put: "contents g (snd (BlockPort api mgr p s1)) =
        (if fst (BlockPort api mgr p s1) = None \<and> g = h
         then (contents h s)(VU32 (ucast p) \<mapsto> VU8 2) else contents g s)"
    "contents g (snd (UnblockPort api mgr p s1)) =
        (if fst (UnblockPort api mgr p s1) = None \<and> g = h
         then (contents h s)(VU32 (ucast p) \<mapsto> VU8 0) else contents g s)" for g p
    using ebpf_maps.put_wrap_effect [OF assms(1), of g h "VU32 (ucast p)"] assms(3) load
    by (simp_all add: BlockPort_def UnblockPort_def)
  show ?thesis
  proof (cases "Sscanf_u16 arg")
    case None
    then show ?thesis by (simp add: portCmd_def)
  next
    case (Some p)
    obtain e2 s2 e3 s3 where "BlockPort api mgr p s1 = (e2, s2)" "UnblockPort api mgr p s1 = (e3, s3)"
      by (meson surj_pair)
    then show ?thesis
      using Some assms(2) put [of h' p] load [of h']
      by (auto simp: portCmd_def close split: option.split)
  qed
qed

text \<open>The kernel after the maps have been opened, and its manager.\<close>

lemma kernel_load:
  "\<exists>s1. LoadPinnedMaps kernel_api kernel_boot = (Inr kernel_mgr, s1)"
  by (simp add: LoadPinnedMaps_def kernel_api_def k_load_def pinned_def Join_path_def BpfFsPath_def
        kernel_mgr_def REPUTATION_MAP_def PORT_GATE_MAP_def RATE_LIMIT_MAP_def CONFIG_MAP_def EVENTS_def)

theorem port_command_witness:
  "k_contents PORT_GATE_MAP (snd (portCmd kernel_api ''block'' ''22'' kernel_boot)) (VU32 22) =
     Some (VU8 2) \<and>
   fst (portCmd kernel_api ''blok'' ''22'' kernel_boot) = ([], 0)"
proof -
  obtain s1 where load: "LoadPinnedMaps kernel_api kernel_boot = (Inr kernel_mgr, s1)"
    using kernel_load by blast
  have gate: "portGateMap kernel_mgr = Some PORT_GATE_MAP" by (simp add: kernel_mgr_def)
  have p: "Sscanf_u16 ''22'' = Some 22"
    by (simp add: Sscanf_u16_def scan_space_def is_dec_def dec_value_def dec_val_def)
  have "fst (BlockPort kernel_api kernel_mgr 22 s1) = None"
    using kern.LoadPinnedMaps_cases
    by (simp add: BlockPort_def put_wrap_def gate kernel_api_def k_put_def k_contents_def
          PORT_GATE_MAP_def split: prod.split option.split)
  then show ?thesis
    using port_command [OF kernel_contract load gate, of PORT_GATE_MAP "''block''" "''22''"]
      port_command [OF kernel_contract load gate, of PORT_GATE_MAP "''blok''" "''22''"] p
    by simp
qed

text \<open>
  The commands give back the maps they open: \<open>block\<close> and \<open>port\<close> leave the open descriptors
  as they found them on every path, errors included, and so does \<open>daemon\<close> whenever it exits
  normally, after any run.
\<close>

theorem commands_release_maps:
  assumes "ebpf_maps api contents key_size value_size opened"
  shows "opened (snd (blockCmd api target s)) = opened s \<and>
         opened (snd (portCmd api act arg s)) = opened s \<and>
         (daemonCmd api new_reader env s (msgs, 0) s' \<longrightarrow> opened s' = opened s)"
  using ebpf_maps.blockCmd_opened [OF assms] ebpf_maps.portCmd_opened [OF assms]
    ebpf_maps.daemonCmd_opened [OF assms] by blast

theorem commands_release_maps_witness:
  "mset (descriptors (snd (blockCmd kernel_api ''10.0.0.1'' kernel_boot))) = {#} \<and>
   mset (descriptors (snd (portCmd kernel_api ''block'' ''22'' kernel_boot))) = {#} \<and>
   (\<exists>s'. daemonCmd kernel_api (\<lambda>_. None) bare_host kernel_boot ([], 0) s' \<and> mset (descriptors s') = {#})"
proof -
  note ok = commands_release_maps [OF kernel_contract]
  have boot: "mset (descriptors kernel_boot) = {#}" by (simp add: kernel_boot_def)
  obtain s1 where load: "LoadPinnedMaps kernel_api kernel_boot = (Inr kernel_mgr, s1)"
    using kernel_load by blast
  let ?d0 = "daemon_init bare_host 0 (debug_kernel s1)"
  obtain tr d where d: "daemon_run kernel_api kernel_mgr ?d0 tr d" "daemon_finished d"
    using daemon_completes [of kernel_api kernel_mgr bare_host 0 "debug_kernel s1"] by blast
  obtain err s3 where "RunDaemon_teardown kernel_api kernel_mgr (prev_level kernel_api kernel_mgr s1) d = (err, s3)"
    by (meson surj_pair)
  from dc_run [OF load kernel_setup d this]
  have run: "daemonCmd kernel_api (\<lambda>_. None) bare_host kernel_boot ([], 0) (Close kernel_api kernel_mgr s3)" .
  have "mset (descriptors (Close kernel_api kernel_mgr s3)) = {#}"
    using conjunct2 [OF conjunct2 [OF ok], THEN mp, OF run] unfolding boot .
  with run show ?thesis
    using conjunct1 [OF ok, of "''10.0.0.1''" kernel_boot]
      conjunct1 [OF conjunct2 [OF ok], of "''block''" "''22''" kernel_boot]
    unfolding boot by (intro conjI exI)
qed

end
