(* ===== verification/CliMain.thy ===== *)
theory CliMain
  imports Cli
begin

text \<open>
  \<open>main\<close> of \<^verbatim>\<open>src/user-space/cmd/main.go\<close>: the tree of commands and what the process does with
  its arguments.  Cobra, which finds the command and checks its arguments, is a parameter: it
  gets the root command, the commands with what they declare, and the arguments.
\<close>

section \<open>The commands as they are declared\<close>

datatype command = MonitorCmd | StatusCmd | BlockCmd | PortCmd | DaemonCmd

record command_decl =
  Use :: string
  Aliases :: "string list"
  ExactArgs :: "nat option"
  StringFlag :: "(string \<times> string \<times> string) option"

definition rootCmd :: command_decl where
  "rootCmd = \<lparr>Use = ''ai-ida-control'', Aliases = [''ai-ida'', ''ai-idactl''], ExactArgs = None,
              StringFlag = None\<rparr>"

text \<open>\<open>init\<close>: the flag of \<open>monitor\<close>, its short form and its default.\<close>

definition log_level_flag :: "string \<times> string \<times> string" where
  "log_level_flag = (''log-level'', ''l'', ''info'')"

fun command_decl_of :: "command \<Rightarrow> command_decl" where
  "command_decl_of MonitorCmd =
     \<lparr>Use = ''monitor'', Aliases = [], ExactArgs = None, StringFlag = Some log_level_flag\<rparr>"
| "command_decl_of StatusCmd = \<lparr>Use = ''status'', Aliases = [], ExactArgs = None, StringFlag = None\<rparr>"
| "command_decl_of BlockCmd =
     \<lparr>Use = ''block [IP or CIDR]'', Aliases = [], ExactArgs = Some 1, StringFlag = None\<rparr>"
| "command_decl_of PortCmd =
     \<lparr>Use = ''port [block|unblock] [port_number]'', Aliases = [], ExactArgs = Some 2,
      StringFlag = None\<rparr>"
| "command_decl_of DaemonCmd =
     \<lparr>Use = ''daemon'', Aliases = [''run-agent''], ExactArgs = None, StringFlag = None\<rparr>"

definition added_commands :: "(command \<times> command_decl) list" where
  "added_commands =
     map (\<lambda>c. (c, command_decl_of c)) [MonitorCmd, StatusCmd, BlockCmd, PortCmd, DaemonCmd]"

text \<open>
  What \<open>rootCmd.Execute()\<close> does: it fails, runs nothing (help), or runs a command with its
  arguments and the value of the flag.  It is documented to run a command only if the validator
  of the command accepts the arguments.
\<close>

datatype dispatch = RunNothing | RunCommand command "string list" string

type_synonym cobra = "command_decl \<Rightarrow> (command \<times> command_decl) list \<Rightarrow> string list \<Rightarrow> string + dispatch"

definition validates_args :: "cobra \<Rightarrow> bool" where
  "validates_args cobra \<longleftrightarrow>
     (\<forall>rt cmds argv c args flag. cobra rt cmds argv = Inr (RunCommand c args flag) \<longrightarrow>
        (\<exists>decl. (c, decl) \<in> set cmds \<and> (\<forall>n. ExactArgs decl = Some n \<longrightarrow> length args = n)))"

section \<open>main\<close>

text \<open>
  Result and kernel of the process.  An index out of range is a panic, which ends a Go process
  with status 2.
\<close>

inductive main_prog ::
    "cobra \<Rightarrow> ('h, 'k) ebpf_api \<Rightarrow> ('h \<Rightarrow> string option) \<Rightarrow> nat host_env \<Rightarrow> ('o \<Rightarrow> string) \<Rightarrow>
     string + 'o link_attrs list \<Rightarrow> ring_read list \<Rightarrow> ('k \<Rightarrow> 'k) \<Rightarrow> string list \<Rightarrow> 'k \<Rightarrow> cli_result \<Rightarrow> 'k \<Rightarrow> bool"
  for cobra api new_reader env oper links reads between argv s where
  m_error: "cobra rootCmd added_commands argv = Inl e \<Longrightarrow>
    main_prog cobra api new_reader env oper links reads between argv s ([], 1) s"
| m_nothing: "cobra rootCmd added_commands argv = Inr RunNothing \<Longrightarrow>
    main_prog cobra api new_reader env oper links reads between argv s ([], 0) s"
| m_monitor: "cobra rootCmd added_commands argv = Inr (RunCommand MonitorCmd args flag) \<Longrightarrow>
    monitorCmd api new_reader flag reads between s = (res, s') \<Longrightarrow>
    main_prog cobra api new_reader env oper links reads between argv s res s'"
| m_status: "cobra rootCmd added_commands argv = Inr (RunCommand StatusCmd args flag) \<Longrightarrow>
    main_prog cobra api new_reader env oper links reads between argv s (statusCmd oper links) s"
| m_block: "cobra rootCmd added_commands argv = Inr (RunCommand BlockCmd (target # rest) flag) \<Longrightarrow>
    blockCmd api target s = (res, s') \<Longrightarrow>
    main_prog cobra api new_reader env oper links reads between argv s res s'"
| m_port: "cobra rootCmd added_commands argv = Inr (RunCommand PortCmd (act # arg # rest) flag) \<Longrightarrow>
    portCmd api act arg s = (res, s') \<Longrightarrow>
    main_prog cobra api new_reader env oper links reads between argv s res s'"
| m_daemon: "cobra rootCmd added_commands argv = Inr (RunCommand DaemonCmd args flag) \<Longrightarrow>
    daemonCmd api new_reader env s res s' \<Longrightarrow>
    main_prog cobra api new_reader env oper links reads between argv s res s'"
| m_panic: "cobra rootCmd added_commands argv = Inr (RunCommand c args flag) \<Longrightarrow>
    c = BlockCmd \<and> args = [] \<or> c = PortCmd \<and> length args < 2 \<Longrightarrow>
    main_prog cobra api new_reader env oper links reads between argv s ([], 2) s"

section \<open>Exit codes\<close>

text \<open>Messages that report a failure.\<close>

fun is_failure :: "cli_out \<Rightarrow> bool" where
  "is_failure (CliLine l) \<longleftrightarrow> False"
| "is_failure (CliRow row) \<longleftrightarrow> False"
| "is_failure (CliBlocked t) \<longleftrightarrow> False"
| "is_failure (CliPortBlocked p) \<longleftrightarrow> False"
| "is_failure (CliPortUnblocked p) \<longleftrightarrow> False"
| "is_failure _ \<longleftrightarrow> True"

lemma monitorCmd_code:
  "monitorCmd api new_reader flag reads between s = ((msgs, code), s') \<Longrightarrow>
     code = (if list_ex is_failure msgs then 1 else 0)"
  by (auto simp: monitorCmd_def list_ex_iff split: sum.splits prod.splits)

lemma daemonCmd_code:
  "daemonCmd api new_reader env s (msgs, code) s' \<Longrightarrow> code = (if list_ex is_failure msgs then 1 else 0)"
  by (auto elim: daemonCmd.cases)

lemma other_codes:
  "snd (statusCmd oper links) = 0" "snd (fst (blockCmd api target s)) = 0"
  "snd (fst (portCmd api act arg s)) = 0"
  by (auto simp: statusCmd_def blockCmd_def portCmd_def split: sum.split prod.split option.split)

lemma no_panic:
  assumes "validates_args cobra" and "cobra rootCmd added_commands argv = Inr (RunCommand c args flag)"
  shows "\<not> (c = BlockCmd \<and> args = [] \<or> c = PortCmd \<and> length args < 2)"
  using assms unfolding validates_args_def by (fastforce simp: added_commands_def)

context ebpf_maps
begin

lemma MonitorEvents_opened:
  assumes "\<And>k. opened (between k) = opened k"
  shows "opened (snd (MonitorEvents api new_reader mgr level reads between s)) = opened s"
  using SetLogLevel_opened assms
  by (auto simp: MonitorEvents_def Let_def split: prod.split option.split) (metis snd_conv)+

lemma monitorCmd_opened:
  assumes "\<And>k. opened (between k) = opened k"
    and "monitorCmd api new_reader flag reads between s = ((msgs, 0), s')"
  shows "opened s' = opened s"
proof -
  from assms(2) obtain mgr s1 s2 ls where load: "LoadPinnedMaps api s = (Inr mgr, s1)"
    and "\<exists>level. MonitorEvents api new_reader mgr level reads between s1 = (Inr ls, s2)"
    and "s' = Close api mgr s2"
    by (auto simp: monitorCmd_def split: sum.splits prod.splits)
  moreover from this have "opened s2 = opened s1"
    using MonitorEvents_opened [of between, OF assms(1)] by (metis snd_conv)
  ultimately show ?thesis using Close_loaded [OF load] by simp
qed

end

text \<open>
  (C39) What the process does, for every command line: it ends with status 0 or 1 and never
  panics on a missing argument; with status 0 all map descriptors are given back; the status
  is 1 exactly when cobra refuses the arguments or when \<open>monitor\<close> or \<open>daemon\<close> report a failure.
  A failure of \<open>status\<close>, \<open>block\<close> or \<open>port\<close> is only printed.
\<close>

theorem main_outcome:
  assumes "ebpf_maps api contents key_size value_size opened" and "validates_args cobra"
    and "\<And>k. opened (between k) = opened k"
    and "main_prog cobra api new_reader env oper links reads between argv s (msgs, code) s'"
  shows "(code = 0 \<or> code = 1) \<and> (code = 0 \<longrightarrow> opened s' = opened s) \<and>
         (code = 1 \<longleftrightarrow> (\<exists>e. cobra rootCmd added_commands argv = Inl e) \<or>
            (\<exists>c args flag. cobra rootCmd added_commands argv = Inr (RunCommand c args flag) \<and>
               (c = MonitorCmd \<or> c = DaemonCmd) \<and> list_ex is_failure msgs))"
  using assms(4)
proof cases
  case (m_monitor args flag)
  then show ?thesis
    using monitorCmd_code [OF m_monitor(2)]
      ebpf_maps.monitorCmd_opened [where between = between, OF assms(1,3)] by auto
next
  case m_status
  then have "code = 0" using other_codes(1) [of oper links] by (metis snd_conv)
  then show ?thesis using m_status by auto
next
  case (m_block target rest flag)
  then show ?thesis
    using other_codes(2) [of api target s] ebpf_maps.blockCmd_opened [OF assms(1), of target s] by auto
next
  case (m_port act arg rest flag)
  then show ?thesis
    using other_codes(3) [of api act arg s] ebpf_maps.portCmd_opened [OF assms(1), of act arg s] by auto
next
  case (m_daemon args flag)
  then show ?thesis
    using daemonCmd_code [OF m_daemon(2)] ebpf_maps.daemonCmd_opened [OF assms(1)] by auto
next
  case (m_panic c args flag)
  then show ?thesis using no_panic [OF assms(2)] by blast
qed auto

text \<open>A dispatcher for the witness: the first word selects the command.\<close>

definition first_word_cobra :: cobra where
  "first_word_cobra rt cmds argv =
     (case argv of
        [] \<Rightarrow> Inr RunNothing
      | w # args \<Rightarrow>
          (case find (\<lambda>(c, decl). takeWhile (\<lambda>ch. ch \<noteq> CHR '' '') (Use decl) = w) cmds of
             None \<Rightarrow> Inl ''unknown command''
           | Some (c, decl) \<Rightarrow>
               if ExactArgs decl = None \<or> ExactArgs decl = Some (length args)
               then Inr (RunCommand c args (case StringFlag decl of None \<Rightarrow> '''' | Some (_, _, d) \<Rightarrow> d))
               else Inl ''wrong number of arguments''))"

lemma first_word_validates: "validates_args first_word_cobra"
  by (auto simp: validates_args_def first_word_cobra_def find_Some_iff split: list.splits option.splits
           if_splits dest!: nth_mem)

theorem main_outcome_witness:
  "\<exists>msgs code s'. main_prog first_word_cobra kernel_api (\<lambda>_. None) bare_host (\<lambda>_. '''') (Inl '''') [] (\<lambda>k. k)
     [''block'', ''10.0.0.1''] kernel_boot (msgs, code) s' \<and> code = 0 \<and>
     mset (descriptors s') = mset (descriptors kernel_boot)"
proof -
  have "first_word_cobra rootCmd added_commands [''block'', ''10.0.0.1''] =
      Inr (RunCommand BlockCmd [''10.0.0.1''] '''')"
    by (simp add: first_word_cobra_def added_commands_def)
  moreover obtain msgs code s' where res: "blockCmd kernel_api ''10.0.0.1'' kernel_boot = ((msgs, code), s')"
    by (metis surj_pair)
  ultimately have main: "main_prog first_word_cobra kernel_api (\<lambda>_. None) bare_host (\<lambda>_. '''') (Inl '''') []
      (\<lambda>k. k) [''block'', ''10.0.0.1''] kernel_boot (msgs, code) s'"
    by (rule main_prog.m_block)
  have "code = 0" using other_codes(2) [of kernel_api "''10.0.0.1''" kernel_boot] res by simp
  with main_outcome [where between = "\<lambda>k. k", OF kernel_contract first_word_validates refl main] main
  show ?thesis by blast
qed

end
