(* ===== verification/XdpCursor.thy ===== *)
theory XdpCursor
  imports KernelWire
begin

text \<open>
  \<^verbatim>\<open>src/kernel-space/src/cursor.rs\<close>: the bounds-checked cursor the packet parsers share.  The
  packet is a list of bytes at an address; the cursor computes with 64-bit addresses as the
  code does, and reading through a pointer it returned is a separate step that faults outside
  of the packet.  A cursor inside the packet stands for the bytes that remain: the lemmas
  reduce every parser to a function on lists of bytes, which shows at the same time that no
  access leaves the packet.
\<close>

section \<open>Results and packet memory\<close>

text \<open>\<open>Result<T, ()>\<close>, and \<open>Fault\<close> for an access outside of the packet, which the code never checks for.\<close>

datatype 'a rs = Ok 'a | Err | Fault

text \<open>The operator \<open>?\<close>.\<close>

fun rs_bind :: "'a rs \<Rightarrow> ('a \<Rightarrow> 'b rs) \<Rightarrow> 'b rs" where
  "rs_bind (Ok x) f = f x"
| "rs_bind Err f = Err"
| "rs_bind Fault f = Fault"

text \<open>The XDP context: where the packet starts in memory, and its bytes.\<close>

record XdpContext =
  ctx_data :: u64
  frame :: "u8 list"

definition data_end :: "XdpContext \<Rightarrow> u64" where
  "data_end ctx = ctx_data ctx + of_nat (length (frame ctx))"

text \<open>A pointer to a struct of \<open>n\<close> bytes is dereferenced.\<close>

definition deref :: "XdpContext \<Rightarrow> nat \<Rightarrow> u64 \<Rightarrow> u8 list rs" where
  "deref ctx n ptr =
     (let i = unat (ptr - ctx_data ctx)
      in if i + n \<le> length (frame ctx) then Ok (take n (drop i (frame ctx))) else Fault)"

section \<open>The cursor\<close>

record Cursor =
  cur_start :: u64
  cur_end :: u64
  cur_offset :: u64

definition Cursor_new :: "XdpContext \<Rightarrow> Cursor" where
  "Cursor_new ctx = \<lparr>cur_start = ctx_data ctx, cur_end = data_end ctx, cur_offset = 0\<rparr>"

definition Cursor_read :: "u64 \<Rightarrow> Cursor \<Rightarrow> (u64 \<times> Cursor) rs" where
  "Cursor_read sz c =
     (let target = cur_start c + cur_offset c
      in if target + sz > cur_end c then Err
         else Ok (target, c\<lparr>cur_offset := cur_offset c + sz\<rparr>))"

definition Cursor_advance :: "u64 \<Rightarrow> Cursor \<Rightarrow> (unit \<times> Cursor) rs" where
  "Cursor_advance n c =
     (if cur_start c + cur_offset c + n > cur_end c then Err
      else Ok ((), c\<lparr>cur_offset := cur_offset c + n\<rparr>))"

definition current_offset :: "Cursor \<Rightarrow> u64" where
  "current_offset c = cur_offset c"

text \<open>\<open>cursor.read::<T>()?\<close> and the access through the pointer, for a struct \<open>T\<close> of \<open>n\<close> bytes.\<close>

definition read_hdr :: "XdpContext \<Rightarrow> nat \<Rightarrow> (u8 list \<Rightarrow> 'a) \<Rightarrow> Cursor \<Rightarrow> ('a \<times> Cursor) rs" where
  "read_hdr ctx n decode c =
     rs_bind (Cursor_read (of_nat n) c)
       (\<lambda>(ptr, c'). rs_bind (deref ctx n ptr) (\<lambda>b. Ok (decode b, c')))"

text \<open>\<open>u16::from_be\<close> and \<open>u32::to_be\<close> on a little-endian target.\<close>

definition u16_from_be :: "u16 \<Rightarrow> u16" where
  "u16_from_be x = push_bit 8 x OR drop_bit 8 x"

definition u32_to_be :: "u32 \<Rightarrow> u32" where
  "u32_to_be x = be_u32 (le_bytes32 x)"

section \<open>Cursors and byte lists\<close>

text \<open>
  The packet lies in the address space with a page to spare, so that the end check of the
  cursor cannot wrap around; a cursor of a packet has its bounds and an offset inside it.
\<close>

definition ctx_ok :: "XdpContext \<Rightarrow> bool" where
  "ctx_ok ctx \<longleftrightarrow> unat (ctx_data ctx) + length (frame ctx) + 4096 < 2 ^ 64"

definition cur_ok :: "XdpContext \<Rightarrow> Cursor \<Rightarrow> bool" where
  "cur_ok ctx c \<longleftrightarrow> cur_start c = ctx_data ctx \<and> cur_end c = data_end ctx \<and>
     unat (cur_offset c) \<le> length (frame ctx)"

definition view :: "XdpContext \<Rightarrow> Cursor \<Rightarrow> u8 list" where
  "view ctx c = drop (unat (cur_offset c)) (frame ctx)"

text \<open>What a cursor program does, said by a function on the remaining bytes.\<close>

definition follows :: "XdpContext \<Rightarrow> ('a \<times> Cursor) rs \<Rightarrow> ('a \<times> u8 list) option \<Rightarrow> bool" where
  "follows ctx r spec \<longleftrightarrow>
     (case spec of None \<Rightarrow> r = Err
      | Some (x, rest) \<Rightarrow> \<exists>c. r = Ok (x, c) \<and> cur_ok ctx c \<and> view ctx c = rest)"

text \<open>The first \<open>n\<close> bytes of a list, if it has them, and what is left.\<close>

definition split_at :: "nat \<Rightarrow> (u8 list \<Rightarrow> 'a) \<Rightarrow> u8 list \<Rightarrow> ('a \<times> u8 list) option" where
  "split_at n decode bs = (if n \<le> length bs then Some (decode (take n bs), drop n bs) else None)"

lemma Cursor_new_ok [simp]: "cur_ok ctx (Cursor_new ctx)" "view ctx (Cursor_new ctx) = frame ctx"
  by (simp_all add: cur_ok_def view_def Cursor_new_def)

lemma unat_add_no_wrap:
  fixes x y :: "'a::len word"
  shows "unat x + unat y < 2 ^ LENGTH('a) \<Longrightarrow> unat (x + y) = unat x + unat y"
  by (simp add: unat_word_ariths(1))

text \<open>The bounds check of the cursor, in natural numbers.\<close>

lemma unat_small: "n \<le> 4096 \<Longrightarrow> unat (of_nat n :: u64) = n"
  by (simp add: unat_of_nat)

lemma cursor_end_check:
  assumes "ctx_ok ctx" and "cur_ok ctx c" and "n \<le> 4096"
  shows "cur_start c + cur_offset c + of_nat n > cur_end c \<longleftrightarrow> \<not> n \<le> length (view ctx c)"
proof -
  have "unat (ctx_data ctx + cur_offset c) = unat (ctx_data ctx) + unat (cur_offset c)"
    using assms by (intro unat_add_no_wrap) (simp add: ctx_ok_def cur_ok_def)
  then have "unat (ctx_data ctx + cur_offset c + of_nat n) = unat (ctx_data ctx) + unat (cur_offset c) + n"
    using assms by (subst unat_add_no_wrap) (simp_all add: unat_small ctx_ok_def cur_ok_def)
  moreover have "unat (data_end ctx) = unat (ctx_data ctx) + length (frame ctx)"
    using assms unfolding data_end_def by (subst unat_add_no_wrap) (simp_all add: ctx_ok_def unat_of_nat)
  ultimately show ?thesis using assms by (auto simp: word_less_nat_alt cur_ok_def view_def)
qed

lemma cursor_move:
  assumes "ctx_ok ctx" and "cur_ok ctx c" and "n \<le> 4096" and "n \<le> length (view ctx c)"
  shows "cur_ok ctx (c\<lparr>cur_offset := cur_offset c + of_nat n\<rparr>)"
    and "view ctx (c\<lparr>cur_offset := cur_offset c + of_nat n\<rparr>) = drop n (view ctx c)"
proof -
  have "unat (cur_offset c + of_nat n) = unat (cur_offset c) + n"
    using assms by (subst unat_add_no_wrap) (simp_all add: unat_small ctx_ok_def cur_ok_def)
  then show "cur_ok ctx (c\<lparr>cur_offset := cur_offset c + of_nat n\<rparr>)"
    and "view ctx (c\<lparr>cur_offset := cur_offset c + of_nat n\<rparr>) = drop n (view ctx c)"
    using assms by (auto simp: cur_ok_def view_def add.commute)
qed

lemma deref_view:
  assumes "cur_ok ctx c" and "n \<le> length (view ctx c)"
  shows "deref ctx n (cur_start c + cur_offset c) = Ok (take n (view ctx c))"
  using assms by (auto simp: deref_def cur_ok_def view_def Let_def)

lemma follows_read:
  assumes "ctx_ok ctx" and "cur_ok ctx c" and "n \<le> 4096"
  shows "follows ctx (read_hdr ctx n decode c) (split_at n decode (view ctx c))"
  using cursor_end_check [OF assms] cursor_move [OF assms] deref_view [OF assms(2), of n]
  by (simp add: follows_def read_hdr_def split_at_def Cursor_read_def)

lemma follows_advance:
  assumes "ctx_ok ctx" and "cur_ok ctx c" and "n \<le> 4096"
  shows "follows ctx (Cursor_advance (of_nat n) c) (split_at n (\<lambda>_. ()) (view ctx c))"
  using cursor_end_check [OF assms] cursor_move [OF assms]
  by (simp add: follows_def split_at_def Cursor_advance_def)

lemma follows_sub:
  assumes "follows ctx r sub" and "sub = None \<Longrightarrow> spec = None"
    and "\<And>x c. sub = Some (x, view ctx c) \<Longrightarrow> cur_ok ctx c \<Longrightarrow> follows ctx (f (x, c)) spec"
  shows "follows ctx (rs_bind r f) spec"
proof (cases sub)
  case None
  then show ?thesis using assms(1,2) by (simp add: follows_def)
next
  case (Some a)
  then obtain x c where "sub = Some (x, view ctx c)" "r = Ok (x, c)" "cur_ok ctx c"
    using assms(1) by (cases a) (auto simp: follows_def)
  then show ?thesis using assms(3) by simp
qed

lemma split_at_cases:
  "(split_at n decode bs = None \<longleftrightarrow> length bs < n) \<and>
   (split_at n decode bs = Some (x, rest) \<longleftrightarrow> n \<le> length bs \<and> x = decode (take n bs) \<and> rest = drop n bs)"
  by (auto simp: split_at_def)

text \<open>Reading or skipping, then going on.\<close>

lemma follows_read_bind:
  assumes "ctx_ok ctx" and "cur_ok ctx c" and "n \<le> 4096"
    and "length (view ctx c) < n \<Longrightarrow> spec = None"
    and "\<And>c'. n \<le> length (view ctx c) \<Longrightarrow> cur_ok ctx c' \<Longrightarrow> view ctx c' = drop n (view ctx c) \<Longrightarrow>
           follows ctx (f (decode (take n (view ctx c)), c')) spec"
  shows "follows ctx (rs_bind (read_hdr ctx n decode c) f) spec"
  by (rule follows_sub [OF follows_read [OF assms(1-3)]]) (use assms(4,5) in \<open>simp_all add: split_at_cases\<close>)

lemma follows_advance_bind:
  assumes "ctx_ok ctx" and "cur_ok ctx c" and "n \<le> 4096" and "w = of_nat n"
    and "length (view ctx c) < n \<Longrightarrow> spec = None"
    and "\<And>c'. n \<le> length (view ctx c) \<Longrightarrow> cur_ok ctx c' \<Longrightarrow> view ctx c' = drop n (view ctx c) \<Longrightarrow>
           follows ctx (f ((), c')) spec"
  shows "follows ctx (rs_bind (Cursor_advance w c) f) spec"
  unfolding assms(4)
  by (rule follows_sub [OF follows_advance [OF assms(1-3)]]) (use assms(5,6) in \<open>simp_all add: split_at_cases\<close>)

text \<open>Options of \<open>n\<close> bytes are only skipped when there are some.\<close>

lemma follows_options_bind:
  assumes "ctx_ok ctx" and "cur_ok ctx c" and "n \<le> 4096" and "w = of_nat n"
    and "skip \<longleftrightarrow> n \<noteq> 0"
    and "length (view ctx c) < n \<Longrightarrow> spec = None"
    and "\<And>c'. n \<le> length (view ctx c) \<Longrightarrow> cur_ok ctx c' \<Longrightarrow> view ctx c' = drop n (view ctx c) \<Longrightarrow>
           follows ctx (f ((), c')) spec"
  shows "follows ctx (rs_bind (if skip then Cursor_advance w c else Ok ((), c)) f) spec"
proof (cases "n = 0")
  case True
  then show ?thesis using assms(2,5) assms(7) [of c] by simp
next
  case False
  then have "skip" using assms(5) by simp
  then show ?thesis using follows_advance_bind [OF assms(1-4,6), of f] assms(7) by simp
qed

lemma follows_Ok: "cur_ok ctx c \<Longrightarrow> spec = Some (x, view ctx c) \<Longrightarrow> follows ctx (Ok (x, c)) spec"
  by (simp add: follows_def)

lemma follows_Err: "spec = None \<Longrightarrow> follows ctx Err spec"
  by (simp add: follows_def)

lemma follows_guard:
  "(b \<Longrightarrow> spec = None) \<Longrightarrow> (\<not> b \<Longrightarrow> follows ctx r spec) \<Longrightarrow> follows ctx (if b then Err else r) spec"
  by (simp add: follows_Err)

lemma followsD:
  assumes "follows ctx r spec"
  shows "spec = None \<Longrightarrow> r = Err"
    and "spec = Some (x, rest) \<Longrightarrow> \<exists>c. r = Ok (x, c) \<and> cur_ok ctx c \<and> view ctx c = rest"
  using assms by (simp_all add: follows_def)

section \<open>Byte order\<close>

text \<open>Two bytes in network order, as a number.\<close>

definition be_nat :: "u8 \<Rightarrow> u8 \<Rightarrow> nat" where
  "be_nat hi lo = 256 * unat hi + unat lo"

lemma unat_lt_byte: "unat (x :: u8) < 256"
  using unsigned_less [of x, where 'a = nat] by simp

lemma be_nat_less: "be_nat hi lo < 65536"
proof -
  have "unat hi < 256" "unat lo < 256" by (rule unat_lt_byte)+
  then show ?thesis unfolding be_nat_def by linarith
qed

lemma u16_from_be_bits: "u16_from_be (le_u16 [a, b]) = push_bit 8 (ucast a) OR ucast b"
  unfolding u16_from_be_def le_u16_def by (rule bit_word_eqI) (auto simp: bit_simps)

lemma unat_from_be: "unat (u16_from_be (le_u16 [a, b])) = be_nat a b"
proof -
  have "push_bit 8 (ucast a) OR (ucast b :: u16) = push_bit 8 (ucast a) + ucast b"
    by (rule disjunctive_add [symmetric]) (auto simp: bit_simps)
  also have "\<dots> = of_nat (be_nat a b)"
    by (simp add: be_nat_def push_bit_eq_mult )
  finally show ?thesis
    using be_nat_less [of a b] by (simp add: u16_from_be_bits unat_of_nat)
qed

lemma u16_from_be_eq: "u16_from_be (le_u16 [a, b]) = of_nat (be_nat a b)"
  by (metis unat_from_be of_nat_unat ucast_id)

lemma u32_to_be_raw: "u32_to_be (raw_u32 a b c d) = be_u32 [a, b, c, d]"
  by (simp add: u32_to_be_def)

text \<open>A field of two bytes at position \<open>i\<close>.\<close>

definition be16 :: "u8 list \<Rightarrow> nat \<Rightarrow> u16" where
  "be16 b i = of_nat (be_nat (b ! i) (b ! Suc i))"

lemma slice_pair: "j = Suc (Suc i) \<Longrightarrow> j \<le> length b \<Longrightarrow> slice b i j = [b ! i, b ! Suc i]"
  by (simp add: slice_def Cons_nth_drop_Suc [symmetric])

lemma slice_quad:
  "j = i + 4 \<Longrightarrow> j \<le> length b \<Longrightarrow> slice b i j = [b ! i, b ! (i + 1), b ! (i + 2), b ! (i + 3)]"
  by (simp add: slice_def Cons_nth_drop_Suc [symmetric] numeral_eq_Suc)

lemma u16_from_be_field:
  assumes "j = Suc (Suc i)" and "j \<le> n" and "n \<le> length b"
  shows "u16_from_be (le_u16 (slice (take n b) i j)) = be16 b i"
  using assms by (simp add: slice_pair u16_from_be_eq be16_def)

lemma slice_take: "j \<le> n \<Longrightarrow> slice (take n b) i j = slice b i j"
  by (cases "i \<le> j") (simp_all add: slice_def drop_take)

end
