(* ===== verification/XdpParsers.thy ===== *)
theory XdpParsers
  imports XdpCursor
begin

text \<open>
  \<^verbatim>\<open>src/kernel-space/src/parsers\<close>: the header structs as they lie in the packet, the parsers over
  the cursor, and for each parser a reference decoder on byte lists, written in terms of the
  formats (header lengths in words of four bytes, numbers in network order).  The lemmas
  \<open>parse_*_follows\<close> say that a parser does what its decoder says and never faults.
\<close>

section \<open>Ethernet\<close>

record EthHdr =
  eth_dst_mac :: "u8 list"
  eth_src_mac :: "u8 list"
  eth_proto :: u16

definition EthHdr_of :: "u8 list \<Rightarrow> EthHdr" where
  "EthHdr_of b = \<lparr>eth_dst_mac = slice b 0 6, eth_src_mac = slice b 6 12, eth_proto = le_u16 (slice b 12 14)\<rparr>"

record VlanHdr =
  vlan_tci :: u16
  vlan_next_proto :: u16

definition VlanHdr_of :: "u8 list \<Rightarrow> VlanHdr" where
  "VlanHdr_of b = \<lparr>vlan_tci = le_u16 (slice b 0 2), vlan_next_proto = le_u16 (slice b 2 4)\<rparr>"

record L2Info =
  l2_src_mac :: "u8 list"
  l2_dst_mac :: "u8 list"
  eth_type :: u16

text \<open>The loop \<open>for _ in 0..n\<close> over the tags.\<close>

primrec parse_vlans :: "XdpContext \<Rightarrow> nat \<Rightarrow> u16 \<Rightarrow> Cursor \<Rightarrow> (u16 \<times> Cursor) rs" where
  "parse_vlans ctx 0 ety c = Ok (ety, c)"
| "parse_vlans ctx (Suc n) ety c =
     (if ety = VLAN_8021Q \<or> ety = QINQ_8021AD
      then rs_bind (read_hdr ctx 4 VlanHdr_of c)
             (\<lambda>(vlan, c'). parse_vlans ctx n (u16_from_be (vlan_next_proto vlan)) c')
      else Ok (ety, c))"

definition parse_ethernet :: "XdpContext \<Rightarrow> Cursor \<Rightarrow> (L2Info \<times> Cursor) rs" where
  "parse_ethernet ctx c =
     rs_bind (read_hdr ctx 14 EthHdr_of c) (\<lambda>(eth, c1).
     rs_bind (parse_vlans ctx 2 (u16_from_be (eth_proto eth)) c1) (\<lambda>(ety, c2).
       Ok (\<lparr>l2_src_mac = eth_src_mac eth, l2_dst_mac = eth_dst_mac eth, eth_type = ety\<rparr>, c2)))"

section \<open>IPv4\<close>

record Ipv4Hdr =
  version_ihl :: u8
  ip_tos :: u8
  ip_tot_len :: u16
  ip_id :: u16
  ip_frag_off :: u16
  ip_ttl :: u8
  ip_proto :: u8
  ip_check :: u16
  src_addr :: u32
  dst_addr :: u32

text \<open>A \<open>u32\<close> field of the packet, read natively on a little-endian target.\<close>

definition native_u32 :: "u8 list \<Rightarrow> u32" where
  "native_u32 b = raw_u32 (b ! 0) (b ! 1) (b ! 2) (b ! 3)"

definition Ipv4Hdr_of :: "u8 list \<Rightarrow> Ipv4Hdr" where
  "Ipv4Hdr_of b =
     \<lparr>version_ihl = b ! 0, ip_tos = b ! 1, ip_tot_len = le_u16 (slice b 2 4),
      ip_id = le_u16 (slice b 4 6), ip_frag_off = le_u16 (slice b 6 8), ip_ttl = b ! 8,
      ip_proto = b ! 9, ip_check = le_u16 (slice b 10 12),
      src_addr = native_u32 (slice b 12 16), dst_addr = native_u32 (slice b 16 20)\<rparr>"

record L3Ipv4Info =
  l3_src_ip :: u32
  l3_dst_ip :: u32
  l3_proto :: u8
  total_len :: u16
  is_fragment :: bool

definition parse_ipv4 :: "XdpContext \<Rightarrow> Cursor \<Rightarrow> (L3Ipv4Info \<times> Cursor) rs" where
  "parse_ipv4 ctx c =
     rs_bind (read_hdr ctx 20 Ipv4Hdr_of c) (\<lambda>(ip, c1).
       let version = drop_bit 4 (version_ihl ip);
           ihl = ucast (version_ihl ip AND 0x0F) :: u64
       in if version \<noteq> 4 \<or> ihl < 5 then Err
          else let frag_off_raw = u16_from_be (ip_frag_off ip);
                   frag = (frag_off_raw AND 0x3FFF \<noteq> 0)
               in rs_bind (if ihl > 5 then Cursor_advance ((ihl - 5) * 4) c1 else Ok ((), c1)) (\<lambda>(_, c2).
                  Ok (\<lparr>l3_src_ip = src_addr ip, l3_dst_ip = dst_addr ip, l3_proto = ip_proto ip,
                       total_len = u16_from_be (ip_tot_len ip), is_fragment = frag\<rparr>, c2)))"

section \<open>TCP and UDP\<close>

record TcpHdr =
  tcp_src_port :: u16
  tcp_dst_port :: u16
  tcp_seq :: u32
  ack_seq :: u32
  offset_reserved_flags :: u16
  tcp_window :: u16
  tcp_checksum :: u16
  urgent_ptr :: u16

definition TcpHdr_of :: "u8 list \<Rightarrow> TcpHdr" where
  "TcpHdr_of b =
     \<lparr>tcp_src_port = le_u16 (slice b 0 2), tcp_dst_port = le_u16 (slice b 2 4),
      tcp_seq = native_u32 (slice b 4 8), ack_seq = native_u32 (slice b 8 12),
      offset_reserved_flags = le_u16 (slice b 12 14), tcp_window = le_u16 (slice b 14 16),
      tcp_checksum = le_u16 (slice b 16 18), urgent_ptr = le_u16 (slice b 18 20)\<rparr>"

record L4TcpInfo =
  l4_src_port :: u16
  l4_dst_port :: u16
  l4_flags :: u8
  data_offset :: u64

definition parse_tcp :: "XdpContext \<Rightarrow> Cursor \<Rightarrow> (L4TcpInfo \<times> Cursor) rs" where
  "parse_tcp ctx c =
     rs_bind (read_hdr ctx 20 TcpHdr_of c) (\<lambda>(tcp, c1).
       let flags_raw = u16_from_be (offset_reserved_flags tcp);
           doff = ucast (drop_bit 12 flags_raw AND 0x0F) :: u64
       in if doff < 5 then Err
          else let flags = ucast (flags_raw AND 0x00FF) :: u8
               in rs_bind (if doff > 5 then Cursor_advance ((doff - 5) * 4) c1 else Ok ((), c1)) (\<lambda>(_, c2).
                  Ok (\<lparr>l4_src_port = u16_from_be (tcp_src_port tcp), l4_dst_port = u16_from_be (tcp_dst_port tcp),
                       l4_flags = flags, data_offset = doff * 4\<rparr>, c2)))"

record UdpHdr =
  udp_src_port :: u16
  udp_dst_port :: u16
  udp_len :: u16
  udp_check :: u16

definition UdpHdr_of :: "u8 list \<Rightarrow> UdpHdr" where
  "UdpHdr_of b =
     \<lparr>udp_src_port = le_u16 (slice b 0 2), udp_dst_port = le_u16 (slice b 2 4),
      udp_len = le_u16 (slice b 4 6), udp_check = le_u16 (slice b 6 8)\<rparr>"

record L4UdpInfo =
  u4_src_port :: u16
  u4_dst_port :: u16
  u4_length :: u16

definition parse_udp :: "XdpContext \<Rightarrow> Cursor \<Rightarrow> (L4UdpInfo \<times> Cursor) rs" where
  "parse_udp ctx c =
     rs_bind (read_hdr ctx 8 UdpHdr_of c) (\<lambda>(udp, c1).
       let len = u16_from_be (udp_len udp)
       in if len < 8 then Err
          else Ok (\<lparr>u4_src_port = u16_from_be (udp_src_port udp),
                    u4_dst_port = u16_from_be (udp_dst_port udp), u4_length = len\<rparr>, c1))"

section \<open>ARP\<close>

record ArpHdr =
  htype :: u16
  ptype :: u16
  hlen :: u8
  plen :: u8
  oper :: u16

definition ArpHdr_of :: "u8 list \<Rightarrow> ArpHdr" where
  "ArpHdr_of b =
     \<lparr>htype = le_u16 (slice b 0 2), ptype = le_u16 (slice b 2 4), hlen = b ! 4, plen = b ! 5,
      oper = le_u16 (slice b 6 8)\<rparr>"

definition parse_arp :: "XdpContext \<Rightarrow> Cursor \<Rightarrow> (unit \<times> Cursor) rs" where
  "parse_arp ctx c =
     rs_bind (read_hdr ctx 8 ArpHdr_of c) (\<lambda>(arp, c1).
       let ht = u16_from_be (htype arp); pt = u16_from_be (ptype arp)
       in if ht \<noteq> 1 \<or> pt \<noteq> 0x0800 \<or> hlen arp \<noteq> 6 \<or> plen arp \<noteq> 4 then Err
          else rs_bind (Cursor_advance 20 c1) (\<lambda>(_, c2). Ok ((), c2)))"

section \<open>IPv6\<close>

text \<open>The IPv6 parser is part of the module although the program does not call it.\<close>

record Ipv6Hdr =
  v_tc_fl :: u32
  ip6_payload_len :: u16
  ip6_next_header :: u8
  hop_limit :: u8
  ip6_src_addr :: "u8 list"
  ip6_dst_addr :: "u8 list"

definition Ipv6Hdr_of :: "u8 list \<Rightarrow> Ipv6Hdr" where
  "Ipv6Hdr_of b =
     \<lparr>v_tc_fl = native_u32 (slice b 0 4), ip6_payload_len = le_u16 (slice b 4 6),
      ip6_next_header = b ! 6, hop_limit = b ! 7,
      ip6_src_addr = slice b 8 24, ip6_dst_addr = slice b 24 40\<rparr>"

record Ipv6ExtHdr =
  ext_next_header :: u8
  hdr_ext_len :: u8

definition Ipv6ExtHdr_of :: "u8 list \<Rightarrow> Ipv6ExtHdr" where
  "Ipv6ExtHdr_of b = \<lparr>ext_next_header = b ! 0, hdr_ext_len = b ! 1\<rparr>"

record L3Ipv6Info =
  l6_src_ip :: "u8 list"
  l6_dst_ip :: "u8 list"
  next_proto :: u8
  payload_len :: u16

primrec parse_ext_hdrs :: "XdpContext \<Rightarrow> nat \<Rightarrow> u8 \<Rightarrow> Cursor \<Rightarrow> (u8 \<times> Cursor) rs" where
  "parse_ext_hdrs ctx 0 np c = Ok (np, c)"
| "parse_ext_hdrs ctx (Suc n) np c =
     (if np = 0 \<or> np = 43 \<or> np = 60
      then rs_bind (read_hdr ctx 2 Ipv6ExtHdr_of c) (\<lambda>(ext, c1).
             let ext_len = (ucast (hdr_ext_len ext) + 1) * 8 :: u64
             in rs_bind (if ext_len > 2 then Cursor_advance (ext_len - 2) c1 else Ok ((), c1)) (\<lambda>(_, c2).
                parse_ext_hdrs ctx n (ext_next_header ext) c2))
      else if np = 44
      then rs_bind (read_hdr ctx 2 Ipv6ExtHdr_of c) (\<lambda>(ext, c1).
             rs_bind (Cursor_advance 6 c1) (\<lambda>(_, c2).
             parse_ext_hdrs ctx n (ext_next_header ext) c2))
      else Ok (np, c))"

definition parse_ipv6 :: "XdpContext \<Rightarrow> Cursor \<Rightarrow> (L3Ipv6Info \<times> Cursor) rs" where
  "parse_ipv6 ctx c =
     rs_bind (read_hdr ctx 40 Ipv6Hdr_of c) (\<lambda>(ip6, c1).
     rs_bind (parse_ext_hdrs ctx 4 (ip6_next_header ip6) c1) (\<lambda>(np, c2).
       Ok (\<lparr>l6_src_ip = ip6_src_addr ip6, l6_dst_ip = ip6_dst_addr ip6, next_proto = np,
            payload_len = u16_from_be (ip6_payload_len ip6)\<rparr>, c2)))"

section \<open>Reference decoders\<close>

primrec dec_vlans :: "nat \<Rightarrow> u16 \<Rightarrow> u8 list \<Rightarrow> (u16 \<times> u8 list) option" where
  "dec_vlans 0 ety bs = Some (ety, bs)"
| "dec_vlans (Suc n) ety bs =
     (if ety = 0x8100 \<or> ety = 0x88A8
      then if length bs < 4 then None else dec_vlans n (be16 bs 2) (drop 4 bs)
      else Some (ety, bs))"

definition dec_ethernet :: "u8 list \<Rightarrow> (L2Info \<times> u8 list) option" where
  "dec_ethernet bs =
     (if length bs < 14 then None
      else map_option (\<lambda>(ety, rest). (\<lparr>l2_src_mac = slice bs 6 12, l2_dst_mac = slice bs 0 6, eth_type = ety\<rparr>, rest))
             (dec_vlans 2 (be16 bs 12) (drop 14 bs)))"

text \<open>
  An IPv4 header has version 4 and a length of at least five words; a packet with the flag
  \<open>more fragments\<close> or a non-zero fragment offset is a fragment.
\<close>

definition dec_ipv4 :: "u8 list \<Rightarrow> (L3Ipv4Info \<times> u8 list) option" where
  "dec_ipv4 bs =
     (let ihl = unat (bs ! 0) mod 16; n = be_nat (bs ! 6) (bs ! 7)
      in if length bs < 20 \<or> unat (bs ! 0) div 16 \<noteq> 4 \<or> ihl < 5 \<or> length bs < 4 * ihl then None
         else Some (\<lparr>l3_src_ip = raw_u32 (bs ! 12) (bs ! 13) (bs ! 14) (bs ! 15),
                     l3_dst_ip = raw_u32 (bs ! 16) (bs ! 17) (bs ! 18) (bs ! 19),
                     l3_proto = bs ! 9, total_len = be16 bs 2,
                     is_fragment = (odd (n div 8192) \<or> n mod 8192 \<noteq> 0)\<rparr>,
                    drop (4 * ihl) bs))"

definition dec_tcp :: "u8 list \<Rightarrow> (L4TcpInfo \<times> u8 list) option" where
  "dec_tcp bs =
     (let doff = unat (bs ! 12) div 16
      in if length bs < 20 \<or> doff < 5 \<or> length bs < 4 * doff then None
         else Some (\<lparr>l4_src_port = be16 bs 0, l4_dst_port = be16 bs 2, l4_flags = bs ! 13,
                     data_offset = of_nat doff * 4\<rparr>, drop (4 * doff) bs))"

definition dec_udp :: "u8 list \<Rightarrow> (L4UdpInfo \<times> u8 list) option" where
  "dec_udp bs =
     (if length bs < 8 \<or> be_nat (bs ! 4) (bs ! 5) < 8 then None
      else Some (\<lparr>u4_src_port = be16 bs 0, u4_dst_port = be16 bs 2, u4_length = be16 bs 4\<rparr>, drop 8 bs))"

definition dec_arp :: "u8 list \<Rightarrow> (unit \<times> u8 list) option" where
  "dec_arp bs = (if take 6 bs = [0, 1, 8, 0, 6, 4] \<and> 28 \<le> length bs then Some ((), drop 28 bs) else None)"

text \<open>An extension header has a length in units of eight bytes, a fragment header always eight.\<close>

primrec dec_ext_hdrs :: "nat \<Rightarrow> u8 \<Rightarrow> u8 list \<Rightarrow> (u8 \<times> u8 list) option" where
  "dec_ext_hdrs 0 np bs = Some (np, bs)"
| "dec_ext_hdrs (Suc n) np bs =
     (if np \<in> {0, 43, 44, 60}
      then let len = (if np = 44 then 8 else 8 * (unat (bs ! 1) + 1))
           in if length bs < 2 \<or> length bs < len then None else dec_ext_hdrs n (bs ! 0) (drop len bs)
      else Some (np, bs))"

definition dec_ipv6 :: "u8 list \<Rightarrow> (L3Ipv6Info \<times> u8 list) option" where
  "dec_ipv6 bs =
     (if length bs < 40 then None
      else map_option (\<lambda>(np, rest). (\<lparr>l6_src_ip = slice bs 8 24, l6_dst_ip = slice bs 24 40, next_proto = np,
                                       payload_len = be16 bs 4\<rparr>, rest))
             (dec_ext_hdrs 4 (bs ! 6) (drop 40 bs)))"

section \<open>The parsers follow the decoders\<close>

lemma parse_vlans_follows:
  assumes "ctx_ok ctx"
  shows "cur_ok ctx c \<Longrightarrow> follows ctx (parse_vlans ctx n ety c) (dec_vlans n ety (view ctx c))"
proof (induction n arbitrary: ety c)
  case 0
  then show ?case by (simp add: follows_Ok)
next
  case (Suc n)
  show ?case
  proof (cases "ety = 0x8100 \<or> ety = 0x88A8")
    case True
    then have "follows ctx (rs_bind (read_hdr ctx 4 VlanHdr_of c)
        (\<lambda>(vlan, c'). parse_vlans ctx n (u16_from_be (vlan_next_proto vlan)) c')) (dec_vlans (Suc n) ety (view ctx c))"
      using Suc.prems Suc.IH
      by (intro follows_read_bind [OF assms]) (auto simp: VlanHdr_of_def u16_from_be_field, metis+)
    with True show ?thesis by (simp add: guards)
  next
    case False
    with Suc.prems show ?thesis by (simp add: follows_Ok guards)
  qed
qed

lemma parse_ethernet_follows:
  assumes "ctx_ok ctx" and "cur_ok ctx c"
  shows "follows ctx (parse_ethernet ctx c) (dec_ethernet (view ctx c))"
  unfolding parse_ethernet_def
proof (rule follows_read_bind [OF assms], simp_all)
  fix c'
  assume len: "14 \<le> length (view ctx c)" and c': "cur_ok ctx c'" "view ctx c' = drop 14 (view ctx c)"
  have ety: "u16_from_be (eth_proto (EthHdr_of (take 14 (view ctx c)))) = be16 (view ctx c) 12"
    using len by (simp add: EthHdr_of_def u16_from_be_field)
  show "follows ctx (rs_bind (parse_vlans ctx 2 (u16_from_be (eth_proto (EthHdr_of (take 14 (view ctx c))))) c')
      (\<lambda>(ety, c2). Ok (\<lparr>l2_src_mac = eth_src_mac (EthHdr_of (take 14 (view ctx c))),
         l2_dst_mac = eth_dst_mac (EthHdr_of (take 14 (view ctx c))), eth_type = ety\<rparr>, c2)))
      (dec_ethernet (view ctx c))"
    using len c' unfolding ety
    by (intro follows_sub [OF parse_vlans_follows [OF assms(1) c'(1)]])
       (auto simp: dec_ethernet_def EthHdr_of_def slice_take intro!: follows_Ok)
qed (simp add: dec_ethernet_def)

text \<open>Nibbles and header lengths.\<close>

lemma u64_of_nat_less [simp]: "k \<le> 4096 \<Longrightarrow> (of_nat k :: u64) < 5 \<longleftrightarrow> k < 5"
  by (simp add: word_less_nat_alt unat_small)

lemma u64_of_nat_greater [simp]: "k \<le> 4096 \<Longrightarrow> 5 < (of_nat k :: u64) \<longleftrightarrow> 5 < k"
  by (simp add: word_less_nat_alt unat_small)

lemma u64_options_len: "5 \<le> k \<Longrightarrow> ((of_nat k :: u64) - 5) * 4 = of_nat ((k - 5) * 4)"
  by (simp add: of_nat_diff)

lemma high_nibble: "drop_bit 4 (b :: u8) = 4 \<longleftrightarrow> unat b div 16 = 4"
proof -
  have "unat (drop_bit 4 b) = unat b div 16" by (simp add: drop_bit_eq_div unat_div_distrib)
  moreover have "drop_bit 4 b = 4 \<longleftrightarrow> unat (drop_bit 4 b) = unat (4 :: u8)" by (rule word_eq_iff_unsigned)
  ultimately show ?thesis by simp
qed

lemma low_nibble: "(ucast ((b :: u8) AND 0x0F) :: u64) = of_nat (unat b mod 16)"
proof -
  have "b AND 0x0F = take_bit 4 b" by (simp add: take_bit_eq_mask mask_eq_exp_minus_1)
  then have "unat (b AND 0x0F) = unat b mod 16" by (simp add: take_bit_eq_mod unat_mod_distrib)
  then show ?thesis by (metis of_nat_unat)
qed

lemma frag_bits:
  fixes w :: u16
  shows "w AND 0x3FFF \<noteq> 0 \<longleftrightarrow> odd (unat w div 8192) \<or> unat w mod 8192 \<noteq> 0"
proof -
  have "w AND 0x3FFF = take_bit 14 w" by (simp add: take_bit_eq_mask mask_eq_exp_minus_1)
  then have "unat (w AND 0x3FFF) = unat w mod 16384" by (simp add: take_bit_eq_mod unat_mod_distrib)
  then have "w AND 0x3FFF \<noteq> 0 \<longleftrightarrow> unat w mod 16384 \<noteq> 0" by (metis unat_eq_zero)
  moreover have "x mod 16384 = (x div 8192 mod 2) * 8192 + x mod 8192" for x :: nat
    using mod_mult2_eq [of x 8192 2] by simp
  ultimately show ?thesis by (simp add: odd_iff_mod_2_eq_one)
qed

lemma tcp_doff: "(ucast (drop_bit 12 (u16_from_be (le_u16 [a, b])) AND 0x0F) :: u64) = of_nat (unat a div 16)"
proof -
  let ?w = "u16_from_be (le_u16 [a, b])"
  have n: "unat (drop_bit 12 ?w) = unat a div 16"
  proof -
    have "(256 * x + y) div 4096 = x div 16" if "y < 256" for x y :: nat
      using that div_mult2_eq [of "256 * x + y" 256 16] by simp
    then show ?thesis
      using unat_lt_byte [of b] by (simp only: drop_bit_eq_div unat_div_distrib unat_from_be be_nat_def) simp
  qed
  have "drop_bit 12 ?w AND 0x0F = take_bit 4 (drop_bit 12 ?w)"
    by (simp add: take_bit_eq_mask mask_eq_exp_minus_1)
  then have "unat (drop_bit 12 ?w AND 0x0F) = unat a div 16 mod 16"
    by (simp only: unsigned_take_bit_eq n) (simp add: take_bit_eq_mod)
  also have "\<dots> = unat a div 16" by (rule mod_less) (use unat_lt_byte [of a] in linarith)
  finally show ?thesis by (metis of_nat_unat)
qed

lemma tcp_flags_byte: "(ucast (u16_from_be (le_u16 [a, b]) AND 0x00FF) :: u8) = b"
proof -
  have "u16_from_be (le_u16 [a, b]) AND 0x00FF = take_bit 8 (u16_from_be (le_u16 [a, b]))"
    by (simp only: take_bit_eq_mask) (simp add: mask_eq_exp_minus_1)
  then show ?thesis unfolding u16_from_be_bits by (intro bit_word_eqI) (auto simp: bit_simps)
qed

text \<open>Skipping the options of a header of \<open>k\<close> words, of which 20 bytes have been read.\<close>

lemma follows_words_bind:
  assumes "ctx_ok ctx" and "cur_ok ctx c1" and "view ctx c1 = drop 20 bs" and "20 \<le> length bs"
    and "5 \<le> k" and "k < 16"
    and "length bs < 4 * k \<Longrightarrow> spec = None"
    and "\<And>c2. cur_ok ctx c2 \<Longrightarrow> 4 * k \<le> length bs \<Longrightarrow> view ctx c2 = drop (4 * k) bs \<Longrightarrow> follows ctx (f ((), c2)) spec"
  shows "follows ctx (rs_bind (if (of_nat k :: u64) > 5 then Cursor_advance ((of_nat k - 5) * 4) c1 else Ok ((), c1)) f) spec"
proof (rule follows_options_bind [OF assms(1,2), of "(k - 5) * 4"])
  have tot: "20 + (k - 5) * 4 = 4 * k" using assms(5) by simp
  show "spec = None" if "length (view ctx c1) < (k - 5) * 4"
    using that assms(3,4,7) tot by simp
  show "follows ctx (f ((), c2)) spec"
    if "(k - 5) * 4 \<le> length (view ctx c1)" "cur_ok ctx c2" "view ctx c2 = drop ((k - 5) * 4) (view ctx c1)" for c2
  proof (rule assms(8))
    show "view ctx c2 = drop (4 * k) bs" using that(3) tot by (simp add: assms(3) add.commute)
    show "4 * k \<le> length bs" using that(1) assms(3,4) tot by simp
  qed (rule that(2))
qed (use assms(5,6) in \<open>auto simp: u64_options_len\<close>)

lemma parse_ipv4_follows:
  assumes "ctx_ok ctx" and "cur_ok ctx c"
  shows "follows ctx (parse_ipv4 ctx c) (dec_ipv4 (view ctx c))"
  unfolding parse_ipv4_def
proof (rule follows_read_bind [OF assms])
  fix c1
  let ?bs = "view ctx c"
  let ?ip = "Ipv4Hdr_of (take 20 ?bs)" and ?k = "unat (?bs ! 0) mod 16"
  assume len: "20 \<le> length ?bs" and c1: "cur_ok ctx c1" "view ctx c1 = drop 20 ?bs"
  have ip: "version_ihl ?ip = ?bs ! 0" "ip_proto ?ip = ?bs ! 9" "u16_from_be (ip_tot_len ?ip) = be16 ?bs 2"
    "src_addr ?ip = raw_u32 (?bs ! 12) (?bs ! 13) (?bs ! 14) (?bs ! 15)"
    "dst_addr ?ip = raw_u32 (?bs ! 16) (?bs ! 17) (?bs ! 18) (?bs ! 19)"
    "ip_frag_off ?ip = le_u16 [?bs ! 6, ?bs ! 7]"
    using len by (simp_all add: Ipv4Hdr_of_def slice_take slice_pair slice_quad native_u32_def u16_from_be_eq be16_def)
  have k: "?k < 16" by (rule mod_less_divisor) simp
  show "follows ctx (case (?ip, c1) of (ip, c1) \<Rightarrow>
       let version = drop_bit 4 (version_ihl ip); ihl = ucast (version_ihl ip AND 0x0F) :: u64
       in if version \<noteq> 4 \<or> ihl < 5 then Err
          else let frag_off_raw = u16_from_be (ip_frag_off ip); frag = (frag_off_raw AND 0x3FFF \<noteq> 0)
               in rs_bind (if ihl > 5 then Cursor_advance ((ihl - 5) * 4) c1 else Ok ((), c1)) (\<lambda>(_, c2).
                  Ok (\<lparr>l3_src_ip = src_addr ip, l3_dst_ip = dst_addr ip, l3_proto = ip_proto ip,
                       total_len = u16_from_be (ip_tot_len ip), is_fragment = frag\<rparr>, c2)))
     (dec_ipv4 ?bs)"
    unfolding ip low_nibble Let_def prod.case
  proof (rule follows_guard, goal_cases)
    case 1
    with k show ?case by (auto simp: high_nibble dec_ipv4_def)
  next
    case 2
    with k have "unat (?bs ! 0) div 16 = 4" and "5 \<le> ?k" by (auto simp: high_nibble)
    then show ?case
      using k by (intro follows_words_bind [OF assms(1) c1 len])
        (auto simp: dec_ipv4_def Let_def frag_bits unat_from_be intro!: follows_Ok)
  qed
qed (simp_all add: dec_ipv4_def)

lemma parse_tcp_follows:
  assumes "ctx_ok ctx" and "cur_ok ctx c"
  shows "follows ctx (parse_tcp ctx c) (dec_tcp (view ctx c))"
  unfolding parse_tcp_def
proof (rule follows_read_bind [OF assms])
  fix c1
  let ?bs = "view ctx c"
  let ?tcp = "TcpHdr_of (take 20 ?bs)" and ?k = "unat (?bs ! 12) div 16"
  assume len: "20 \<le> length ?bs" and c1: "cur_ok ctx c1" "view ctx c1 = drop 20 ?bs"
  have tcp: "offset_reserved_flags ?tcp = le_u16 [?bs ! 12, ?bs ! 13]"
    "u16_from_be (tcp_src_port ?tcp) = be16 ?bs 0" "u16_from_be (tcp_dst_port ?tcp) = be16 ?bs 2"
    using len by (simp_all add: TcpHdr_of_def slice_take slice_pair u16_from_be_eq be16_def)
  have k: "?k < 16" using unat_lt_byte [of "?bs ! 12"] by linarith
  show "follows ctx (case (?tcp, c1) of (tcp, c1) \<Rightarrow>
       let flags_raw = u16_from_be (offset_reserved_flags tcp); doff = ucast (drop_bit 12 flags_raw AND 0x0F) :: u64
       in if doff < 5 then Err
          else let flags = ucast (flags_raw AND 0x00FF) :: u8
               in rs_bind (if doff > 5 then Cursor_advance ((doff - 5) * 4) c1 else Ok ((), c1)) (\<lambda>(_, c2).
                  Ok (\<lparr>l4_src_port = u16_from_be (tcp_src_port tcp), l4_dst_port = u16_from_be (tcp_dst_port tcp),
                       l4_flags = flags, data_offset = doff * 4\<rparr>, c2)))
     (dec_tcp ?bs)"
    unfolding tcp tcp_doff tcp_flags_byte Let_def prod.case
  proof (rule follows_guard, goal_cases)
    case 1
    with k show ?case by (simp add: dec_tcp_def)
  next
    case 2
    with k have "5 \<le> ?k" by simp
    with k show ?case
      by (intro follows_words_bind [OF assms(1) c1 len])
        (simp_all add: dec_tcp_def Let_def follows_Ok)
  qed
qed (simp_all add: dec_tcp_def)

lemma parse_udp_follows:
  assumes "ctx_ok ctx" and "cur_ok ctx c"
  shows "follows ctx (parse_udp ctx c) (dec_udp (view ctx c))"
  unfolding parse_udp_def
proof (rule follows_read_bind [OF assms])
  fix c1
  let ?bs = "view ctx c"
  assume len: "8 \<le> length ?bs" and c1: "cur_ok ctx c1" "view ctx c1 = drop 8 ?bs"
  have "u16_from_be (le_u16 [?bs ! 4, ?bs ! 5]) < 8 \<longleftrightarrow> be_nat (?bs ! 4) (?bs ! 5) < 8"
    by (simp add: word_less_nat_alt unat_from_be)
  then show "follows ctx (case (UdpHdr_of (take 8 ?bs), c1) of (udp, c1) \<Rightarrow>
       let len = u16_from_be (udp_len udp)
       in if len < 8 then Err
          else Ok (\<lparr>u4_src_port = u16_from_be (udp_src_port udp),
                    u4_dst_port = u16_from_be (udp_dst_port udp), u4_length = len\<rparr>, c1)) (dec_udp ?bs)"
    using len c1
    by (auto simp: UdpHdr_of_def slice_take slice_pair dec_udp_def be16_def u16_from_be_eq intro!: follows_Ok follows_Err)
qed (simp_all add: dec_udp_def)

lemma take_6: "6 \<le> length b \<Longrightarrow> take 6 b = [b ! 0, b ! 1, b ! 2, b ! 3, b ! 4, b ! 5]"
  by (rule nth_equalityI) (auto simp: numeral_eq_Suc less_Suc_eq)

lemma be_nat_eq_iff:
  assumes "h < 256" and "l < 256"
  shows "be_nat a b = 256 * h + l \<longleftrightarrow> a = of_nat h \<and> b = of_nat l"
proof -
  have "256 * x + y = 256 * h + l \<longleftrightarrow> x = h \<and> y = l" if "y < 256" for x y :: nat
  proof
    assume eq: "256 * x + y = 256 * h + l"
    have "(256 * x + y) div 256 = x" "(256 * h + l) div 256 = h" using that assms by simp_all
    with eq show "x = h \<and> y = l" by simp
  qed simp
  then have "be_nat a b = 256 * h + l \<longleftrightarrow> unat a = h \<and> unat b = l"
    unfolding be_nat_def using unat_lt_byte by blast
  also have "\<dots> \<longleftrightarrow> a = of_nat h \<and> b = of_nat l"
    using assms by (auto simp: unat_of_nat)
  finally show ?thesis .
qed

lemma u16_from_be_is:
  assumes "h < 256" and "l < 256"
  shows "u16_from_be (le_u16 [a, b]) = of_nat (256 * h + l) \<longleftrightarrow> a = of_nat h \<and> b = of_nat l"
proof -
  have "u16_from_be (le_u16 [a, b]) = of_nat (256 * h + l) \<longleftrightarrow> be_nat a b = unat (of_nat (256 * h + l) :: u16)"
    by (simp only: word_eq_iff_unsigned [where 'a = nat] unat_from_be)
  also have "unat (of_nat (256 * h + l) :: u16) = 256 * h + l"
    using assms by (simp only: unat_of_nat) simp
  finally show ?thesis using be_nat_eq_iff [OF assms] by simp
qed

lemma parse_arp_follows:
  assumes "ctx_ok ctx" and "cur_ok ctx c"
  shows "follows ctx (parse_arp ctx c) (dec_arp (view ctx c))"
  unfolding parse_arp_def
proof (rule follows_read_bind [OF assms])
  fix c1
  let ?bs = "view ctx c"
  let ?arp = "ArpHdr_of (take 8 ?bs)"
  assume len: "8 \<le> length ?bs" and c1: "cur_ok ctx c1" "view ctx c1 = drop 8 ?bs"
  have ht: "u16_from_be (htype ?arp) = 1 \<longleftrightarrow> ?bs ! 0 = 0 \<and> ?bs ! 1 = 1"
    using len u16_from_be_is [of 0 1] by (simp add: ArpHdr_of_def slice_take slice_pair)
  have pt: "u16_from_be (ptype ?arp) = 0x0800 \<longleftrightarrow> ?bs ! 2 = 8 \<and> ?bs ! 3 = 0"
    using len u16_from_be_is [of 8 0] by (simp add: ArpHdr_of_def slice_take slice_pair)
  have hp: "hlen ?arp = ?bs ! 4" "plen ?arp = ?bs ! 5" using len by (simp_all add: ArpHdr_of_def)
  have head: "take 6 ?bs = [0, 1, 8, 0, 6, 4] \<longleftrightarrow>
      \<not> (u16_from_be (htype ?arp) \<noteq> 1 \<or> u16_from_be (ptype ?arp) \<noteq> 0x0800 \<or> hlen ?arp \<noteq> 6 \<or> plen ?arp \<noteq> 4)"
    using len by (simp add: ht pt hp take_6) blast
  show "follows ctx (case (?arp, c1) of (arp, c1) \<Rightarrow>
       let ht = u16_from_be (htype arp); pt = u16_from_be (ptype arp)
       in if ht \<noteq> 1 \<or> pt \<noteq> 0x0800 \<or> hlen arp \<noteq> 6 \<or> plen arp \<noteq> 4 then Err
          else rs_bind (Cursor_advance 20 c1) (\<lambda>(_, c2). Ok ((), c2))) (dec_arp ?bs)"
    unfolding Let_def prod.case
  proof (rule follows_guard, goal_cases)
    case 1
    then show ?case unfolding dec_arp_def head by simp
  next
    case 2
    then show ?case
      using c1 by (intro follows_advance_bind [OF assms(1) c1(1), of 20])
        (auto simp: dec_arp_def head intro!: follows_Ok)
  qed
qed (simp_all add: dec_arp_def)

lemma ext_len_words:
  "(ucast (b :: u8) + 1) * 8 = (of_nat (8 * (unat b + 1)) :: u64)"
  "(ucast (b :: u8) + 1) * 8 - 2 = (of_nat (8 * (unat b + 1) - 2) :: u64)"
  "(2 :: u64) < of_nat (8 * (unat b + 1))"
proof -
  show *: "(ucast b + 1) * 8 = (of_nat (8 * (unat b + 1)) :: u64)" by simp
  show "(ucast b + 1) * 8 - 2 = (of_nat (8 * (unat b + 1) - 2) :: u64)"
    unfolding * by (subst of_nat_diff) simp_all
  have "8 * (x + 1) \<le> 4096" if "x < 256" for x :: nat using that by simp
  then have "unat (of_nat (8 * (unat b + 1)) :: u64) = 8 * (unat b + 1)"
    using unat_lt_byte by (blast intro: unat_small)
  then show "(2 :: u64) < of_nat (8 * (unat b + 1))" by (simp only: word_less_nat_alt) simp
qed

text \<open>The rest of an extension header of \<open>len\<close> bytes, of which two have been read.\<close>

lemma follows_ext_rest:
  assumes "ctx_ok ctx" and "cur_ok ctx c1" and "view ctx c1 = drop 2 bs" and "2 \<le> length bs"
    and "2 < len" and "len \<le> 4096" and "\<And>c. cur_ok ctx c \<Longrightarrow> follows ctx (f c) (g (view ctx c))"
  shows "follows ctx (rs_bind (Cursor_advance (of_nat (len - 2)) c1) (\<lambda>(_, c2). f c2))
           (if length bs < len then None else g (drop len bs))"
proof (rule follows_advance_bind [OF assms(1,2), of "len - 2"])
  fix c'
  assume c': "len - 2 \<le> length (view ctx c1)" "cur_ok ctx c'" "view ctx c' = drop (len - 2) (view ctx c1)"
  moreover have "len - 2 + 2 = len" using assms(5) by simp
  ultimately have "view ctx c' = drop len bs" "len \<le> length bs" using assms(3-5) by auto
  then show "follows ctx (case ((), c') of (_, c2) \<Rightarrow> f c2) (if length bs < len then None else g (drop len bs))"
    using assms(7) [OF c'(2)] by simp
qed (use assms(3-6) in auto)

lemma ext_hdr_fields:
  "2 \<le> length bs \<Longrightarrow> ext_next_header (Ipv6ExtHdr_of (take 2 bs)) = bs ! 0"
  "2 \<le> length bs \<Longrightarrow> hdr_ext_len (Ipv6ExtHdr_of (take 2 bs)) = bs ! 1"
  by (simp_all add: Ipv6ExtHdr_of_def)

text \<open>A header that gives its own length, and the fragment header.\<close>

lemma follows_sized_ext:
  assumes "ctx_ok ctx" and c: "cur_ok ctx c" and len: "len = 8 * (unat (view ctx c ! 1) + 1)"
    and rest: "\<And>np c. cur_ok ctx c \<Longrightarrow> follows ctx (f np c) (g np (view ctx c))"
  shows "follows ctx (rs_bind (read_hdr ctx 2 Ipv6ExtHdr_of c) (\<lambda>(ext, c1).
             let ext_len = (ucast (hdr_ext_len ext) + 1) * 8 :: u64
             in rs_bind (if ext_len > 2 then Cursor_advance (ext_len - 2) c1 else Ok ((), c1)) (\<lambda>(_, c2).
                f (ext_next_header ext) c2)))
         (if length (view ctx c) < 2 \<or> length (view ctx c) < len then None
          else g (view ctx c ! 0) (drop len (view ctx c)))"
proof (rule follows_read_bind [OF assms(1) c])
  have words: "of_nat (len - 2) = (ucast (view ctx c ! 1) + 1) * 8 - (2 :: u64)"
    "(2 :: u64) < (ucast (view ctx c ! 1) + 1) * 8"
    using ext_len_words [of "view ctx c ! 1"] by (simp_all only: len)
  have "2 < len" "len \<le> 4096"
    using order.trans [OF less_imp_le [OF unat_lt_byte [of "view ctx c ! 1"]], of 511] by (auto simp: len)
  then have go: "follows ctx (rs_bind (Cursor_advance (of_nat (len - 2)) c1) (\<lambda>(_, c2). f (view ctx c ! 0) c2))
      (if length (view ctx c) < len then None else g (view ctx c ! 0) (drop len (view ctx c)))"
    if "cur_ok ctx c1" "view ctx c1 = drop 2 (view ctx c)" "2 \<le> length (view ctx c)" for c1
    by (intro follows_ext_rest [OF assms(1) that] rest)
  fix c1
  assume "2 \<le> length (view ctx c)" "cur_ok ctx c1" "view ctx c1 = drop 2 (view ctx c)"
  then show "follows ctx (case (Ipv6ExtHdr_of (take 2 (view ctx c)), c1) of (ext, c1) \<Rightarrow>
             let ext_len = (ucast (hdr_ext_len ext) + 1) * 8 :: u64
             in rs_bind (if ext_len > 2 then Cursor_advance (ext_len - 2) c1 else Ok ((), c1)) (\<lambda>(_, c2).
                f (ext_next_header ext) c2))
         (if length (view ctx c) < 2 \<or> length (view ctx c) < len then None
          else g (view ctx c ! 0) (drop len (view ctx c)))"
    using words go by (simp add: ext_hdr_fields Let_def)
qed simp_all

lemma follows_fragment_ext:
  assumes "ctx_ok ctx" and c: "cur_ok ctx c"
    and rest: "\<And>np c. cur_ok ctx c \<Longrightarrow> follows ctx (f np c) (g np (view ctx c))"
  shows "follows ctx (rs_bind (read_hdr ctx 2 Ipv6ExtHdr_of c) (\<lambda>(ext, c1).
             rs_bind (Cursor_advance 6 c1) (\<lambda>(_, c2). f (ext_next_header ext) c2)))
         (if length (view ctx c) < 2 \<or> length (view ctx c) < 8 then None
          else g (view ctx c ! 0) (drop 8 (view ctx c)))"
proof (rule follows_read_bind [OF assms(1) c])
  fix c1
  assume c1: "2 \<le> length (view ctx c)" "cur_ok ctx c1" "view ctx c1 = drop 2 (view ctx c)"
  have "follows ctx (rs_bind (Cursor_advance (of_nat (8 - 2)) c1) (\<lambda>(_, c2). f (view ctx c ! 0) c2))
      (if length (view ctx c) < 8 then None else g (view ctx c ! 0) (drop 8 (view ctx c)))"
    by (rule follows_ext_rest [OF assms(1) c1(2,3,1)]) (simp_all add: rest)
  then show "follows ctx (case (Ipv6ExtHdr_of (take 2 (view ctx c)), c1) of (ext, c1) \<Rightarrow>
             rs_bind (Cursor_advance 6 c1) (\<lambda>(_, c2). f (ext_next_header ext) c2))
         (if length (view ctx c) < 2 \<or> length (view ctx c) < 8 then None
          else g (view ctx c ! 0) (drop 8 (view ctx c)))"
    using c1(1) by (simp add: ext_hdr_fields)
qed simp_all

lemma parse_ext_hdrs_follows:
  assumes "ctx_ok ctx"
  shows "cur_ok ctx c \<Longrightarrow> follows ctx (parse_ext_hdrs ctx n np c) (dec_ext_hdrs n np (view ctx c))"
proof (induction n arbitrary: np c)
  case 0
  then show ?case by (simp add: follows_Ok)
next
  case (Suc n)
  let ?bs = "view ctx c"
  consider "np = 0 \<or> np = 43 \<or> np = 60" "np \<noteq> 44" | "np = 44" | "np \<notin> {0, 43, 44, 60}" by auto
  then show ?case
  proof cases
    case 1
    then have "dec_ext_hdrs (Suc n) np ?bs =
        (if length ?bs < 2 \<or> length ?bs < 8 * (unat (?bs ! 1) + 1) then None
         else dec_ext_hdrs n (?bs ! 0) (drop (8 * (unat (?bs ! 1) + 1)) ?bs))"
      by (auto simp: Let_def)
    moreover have "parse_ext_hdrs ctx (Suc n) np c = rs_bind (read_hdr ctx 2 Ipv6ExtHdr_of c) (\<lambda>(ext, c1).
             let ext_len = (ucast (hdr_ext_len ext) + 1) * 8 :: u64
             in rs_bind (if ext_len > 2 then Cursor_advance (ext_len - 2) c1 else Ok ((), c1)) (\<lambda>(_, c2).
                parse_ext_hdrs ctx n (ext_next_header ext) c2))"
      using 1 by (simp only: parse_ext_hdrs.simps if_True)
    ultimately show ?thesis
      using follows_sized_ext [where f = "parse_ext_hdrs ctx n" and g = "dec_ext_hdrs n", OF assms Suc.prems refl Suc.IH]
      by (simp only:)
  next
    case 2
    then show ?thesis using follows_fragment_ext [where f = "parse_ext_hdrs ctx n" and g = "dec_ext_hdrs n", OF assms Suc.prems Suc.IH]
      by (simp add: Let_def)
  next
    case 3
    with Suc.prems show ?thesis by (simp add: follows_Ok)
  qed
qed

lemma parse_ipv6_follows:
  assumes "ctx_ok ctx" and "cur_ok ctx c"
  shows "follows ctx (parse_ipv6 ctx c) (dec_ipv6 (view ctx c))"
  unfolding parse_ipv6_def
proof (rule follows_read_bind [OF assms])
  fix c1
  let ?bs = "view ctx c"
  let ?ip = "Ipv6Hdr_of (take 40 ?bs)"
  assume len: "40 \<le> length ?bs" and c1: "cur_ok ctx c1" "view ctx c1 = drop 40 ?bs"
  have ip: "ip6_next_header ?ip = ?bs ! 6" "ip6_src_addr ?ip = slice ?bs 8 24" "ip6_dst_addr ?ip = slice ?bs 24 40"
    "u16_from_be (ip6_payload_len ?ip) = be16 ?bs 4"
    using len by (simp_all add: Ipv6Hdr_of_def slice_take slice_pair u16_from_be_eq be16_def)
  show "follows ctx (case (?ip, c1) of (ip6, c1) \<Rightarrow>
       rs_bind (parse_ext_hdrs ctx 4 (ip6_next_header ip6) c1) (\<lambda>(np, c2).
         Ok (\<lparr>l6_src_ip = ip6_src_addr ip6, l6_dst_ip = ip6_dst_addr ip6, next_proto = np,
              payload_len = u16_from_be (ip6_payload_len ip6)\<rparr>, c2))) (dec_ipv6 ?bs)"
    unfolding prod.case ip
    by (rule follows_sub [OF parse_ext_hdrs_follows [OF assms(1) c1(1)]])
       (use len c1 in \<open>auto simp: dec_ipv6_def intro!: follows_Ok\<close>)
qed (simp_all add: dec_ipv6_def)

end
