(* ===== verification/XdpFilters.thy ===== *)
theory XdpFilters
  imports XdpCursor
begin

text \<open>
  \<^verbatim>\<open>src/kernel-space/src/filters\<close>: the structural checks on addresses and TCP flags, the port
  gate, and the token buckets of the packet and the log rate limiter.  The locale
  \<open>token_bucket\<close> has what holds of every bucket whose refill cannot overflow; it is interpreted
  on the two pairs of constants of the code.
\<close>

section \<open>rfc\_invariants.rs\<close>

definition CONTROL_FLAG_MASK :: u8 where [guards, code_unfold]: "CONTROL_FLAG_MASK = 0x3F"

definition is_loopback :: "u32 \<Rightarrow> bool" where
  "is_loopback ip_raw \<longleftrightarrow> u32_to_be ip_raw AND 0xFF000000 = 0x7F000000"

text \<open>\<open>Result<(), DropReason>\<close>: \<open>Inl\<close> is the reason to drop the packet.\<close>

definition validate_rfc_invariants :: "u32 \<Rightarrow> u32 \<Rightarrow> u8 \<Rightarrow> u8 \<Rightarrow> rs_DropReason + unit" where
  "validate_rfc_invariants sip dip proto tcp_flags_val =
     (if \<not> (is_loopback sip \<or> is_loopback dip) \<and> sip \<noteq> 0 \<and> sip = dip then Inl rs_RfcLandAttack
      else if proto = 6
      then let control_flags = tcp_flags_val AND CONTROL_FLAG_MASK
           in if control_flags = 0 then Inl rs_RfcNullScan
              else if control_flags AND tcp_SYN \<noteq> 0 \<and> control_flags AND tcp_FIN \<noteq> 0 then Inl rs_RfcSynFin
              else let xmas_mask = tcp_FIN OR tcp_PSH OR tcp_URG
                   in if control_flags AND xmas_mask = xmas_mask then Inl rs_RfcXmasScan else Inr ()
      else Inr ())"

section \<open>port\_gate.rs\<close>

text \<open>\<open>gate\<close> is the lookup in \<open>PORT_GATE_MAP\<close>.\<close>

definition is_port_blocked :: "(u32 \<Rightarrow> u8 option) \<Rightarrow> u8 \<Rightarrow> u16 \<Rightarrow> u8 \<Rightarrow> bool" where
  "is_port_blocked gate proto dport flags \<longleftrightarrow>
     (if dport = 0 then False
      else if proto = ip_proto_TCP \<and> \<not> (flags AND tcp_SYN \<noteq> 0 \<and> flags AND tcp_ACK = 0) then False
      else if proto = ip_proto_UDP \<and> dport \<ge> 32768 then False
      else if proto \<noteq> ip_proto_TCP \<and> proto \<noteq> ip_proto_UDP then False
      else case gate (ucast dport) of None \<Rightarrow> False | Some status \<Rightarrow> status = 2)"

section \<open>rate\_limiter.rs\<close>

definition NANOS_PER_TOKEN :: u64 where [guards, code_unfold]: "NANOS_PER_TOKEN = 100000"
definition BURST_CAPACITY :: u64 where [guards, code_unfold]: "BURST_CAPACITY = 20000"

definition saturating_sub :: "u64 \<Rightarrow> u64 \<Rightarrow> u64" where
  "saturating_sub a b = (if a < b then 0 else a - b)"

text \<open>
  Refilling a bucket and taking one token, the body that both limiters share: the result and
  the state left behind.
\<close>

definition take_token :: "u64 \<Rightarrow> u64 \<Rightarrow> u64 \<Rightarrow> rs_RateLimitState \<Rightarrow> bool \<times> rs_RateLimitState" where
  "take_token nanos burst now_ns st =
     (let elapsed = saturating_sub now_ns (last_update_ns st);
          new_tokens = elapsed div nanos;
          st = (if new_tokens > 0
                then st\<lparr>tokens := min (tokens st + new_tokens) burst, last_update_ns := now_ns\<rparr>
                else st)
      in if tokens st \<ge> 1 then (True, st\<lparr>tokens := tokens st - 1\<rparr>) else (False, st))"

text \<open>
  One CPU's part of \<open>RATE_LIMIT_MAP\<close> is a map from addresses to buckets; \<open>ins\<close> is the insertion,
  which may evict other entries or fail, and whose result the code ignores.
\<close>

type_synonym rate_map = "(u32, rs_RateLimitState) go_map"

definition check_rate_limit ::
    "(u32 \<Rightarrow> rs_RateLimitState \<Rightarrow> rate_map \<Rightarrow> rate_map) \<Rightarrow> u32 \<Rightarrow> u64 \<Rightarrow> rate_map \<Rightarrow> bool \<times> rate_map" where
  "check_rate_limit ins sip now_ns m =
     (case go_get m sip of
        Some st \<Rightarrow> (case take_token NANOS_PER_TOKEN BURST_CAPACITY now_ns st of
                      (ok, st') \<Rightarrow> (ok, go_set m sip st'))
      | None \<Rightarrow> (True, ins sip \<lparr>last_update_ns = now_ns, tokens = saturating_sub BURST_CAPACITY 1\<rparr> m))"

section \<open>The log limiter of main.rs\<close>

definition LOG_NANOS_PER_TOKEN :: u64 where [guards, code_unfold]: "LOG_NANOS_PER_TOKEN = 100000"
definition LOG_BURST_CAPACITY :: u64 where [guards, code_unfold]: "LOG_BURST_CAPACITY = 1000"

text \<open>The entry of \<open>LOG_RATE_LIMIT_MAP\<close>, if the lookup finds it.\<close>

definition check_log_rate_limit :: "u64 \<Rightarrow> rs_RateLimitState option \<Rightarrow> bool \<times> rs_RateLimitState option" where
  "check_log_rate_limit now_ns slot =
     (case slot of
        Some st \<Rightarrow> (case take_token LOG_NANOS_PER_TOKEN LOG_BURST_CAPACITY now_ns st of (ok, st') \<Rightarrow> (ok, Some st'))
      | None \<Rightarrow> (True, None))"

section \<open>Token buckets\<close>

text \<open>Tokens in natural numbers, scaled by the time that buys one.\<close>

definition credit :: "u64 \<Rightarrow> rs_RateLimitState \<Rightarrow> nat" where
  "credit nanos st = unat nanos * unat (tokens st)"

lemma unat_saturating_sub: "unat (saturating_sub a b) = unat a - unat b"
  by (auto simp: saturating_sub_def word_less_nat_alt unat_sub word_le_nat_alt)

locale token_bucket =
  fixes nanos burst :: u64
  assumes nanos_pos: "0 < nanos"
    and no_overflow: "unat burst + (2 ^ 64 - 1) div unat nanos < 2 ^ 64"
begin

lemma refill_unat:
  shows "unat (saturating_sub t l div nanos) = (unat t - unat l) div unat nanos"
    and "tk \<le> burst \<Longrightarrow> unat (min (tk + saturating_sub t l div nanos) burst) =
           min (unat tk + (unat t - unat l) div unat nanos) (unat burst)"
proof -
  show new: "unat (saturating_sub t l div nanos) = (unat t - unat l) div unat nanos"
    by (simp add: unat_div_distrib unat_saturating_sub)
  assume tk: "tk \<le> burst"
  have "unat t - unat l \<le> 2 ^ 64 - 1" using unsigned_less [of t, where 'a = nat] by simp
  then have "(unat t - unat l) div unat nanos \<le> (2 ^ 64 - 1) div unat nanos" by (rule div_le_mono)
  then have "unat tk + unat (saturating_sub t l div nanos) < 2 ^ LENGTH(64)"
    using tk no_overflow unfolding new by (simp add: word_le_nat_alt)
  then have "unat (tk + saturating_sub t l div nanos) = unat tk + (unat t - unat l) div unat nanos"
    unfolding new [symmetric] by (rule unat_add_no_wrap)
  then show "unat (min (tk + saturating_sub t l div nanos) burst) =
           min (unat tk + (unat t - unat l) div unat nanos) (unat burst)"
    by (simp add: min_def word_le_nat_alt)
qed

text \<open>One request, in natural numbers.\<close>

lemma take_token_nat:
  assumes "tokens st \<le> burst"
    and "n = (unat t - unat (last_update_ns st)) div unat nanos"
    and "tk = (if 0 < n then min (unat (tokens st) + n) (unat burst) else unat (tokens st))"
  shows "fst (take_token nanos burst t st) \<longleftrightarrow> 1 \<le> tk"
    and "unat (tokens (snd (take_token nanos burst t st))) = tk - 1"
    and "last_update_ns (snd (take_token nanos burst t st)) = (if 0 < n then t else last_update_ns st)"
proof -
  let ?new = "saturating_sub t (last_update_ns st) div nanos"
  define tkw where "tkw = (if ?new > 0 then min (tokens st + ?new) burst else tokens st)"
  have n: "?new > 0 \<longleftrightarrow> 0 < n" unfolding assms(2) word_less_nat_alt refill_unat(1) by simp
  have tk: "unat tkw = tk" unfolding tkw_def n assms(3) using refill_unat(2) [OF assms(1)] assms(2) by simp
  have "take_token nanos burst t st =
      (if 1 \<le> tkw then (True, st\<lparr>tokens := tkw - 1, last_update_ns := if 0 < n then t else last_update_ns st\<rparr>)
       else (False, st\<lparr>tokens := tkw, last_update_ns := if 0 < n then t else last_update_ns st\<rparr>))"
    unfolding take_token_def Let_def tkw_def n by simp
  moreover have "1 \<le> tkw \<longleftrightarrow> 1 \<le> tk" using tk by (simp add: word_le_nat_alt)
  moreover have "1 \<le> tkw \<Longrightarrow> unat (tkw - 1) = tk - 1" using tk by (simp add: unat_sub)
  ultimately show "fst (take_token nanos burst t st) \<longleftrightarrow> 1 \<le> tk"
    and "unat (tokens (snd (take_token nanos burst t st))) = tk - 1"
    and "last_update_ns (snd (take_token nanos burst t st)) = (if 0 < n then t else last_update_ns st)"
    using tk by auto
qed

text \<open>
  A request moves the refill time forward at most to its own time; tokens granted and kept
  are paid for by tokens held and time passed.
\<close>

lemma take_token_step:
  assumes "tokens st \<le> burst" and "take_token nanos burst t st = (ok, st')"
  shows "tokens st' \<le> burst"
    and "last_update_ns st \<le> last_update_ns st'" and "last_update_ns st' \<le> max (last_update_ns st) t"
    and "unat nanos * of_bool ok + credit nanos st' + unat (last_update_ns st) \<le>
           credit nanos st + unat (last_update_ns st')"
proof -
  define n tk where "n = (unat t - unat (last_update_ns st)) div unat nanos"
    and "tk = (if 0 < n then min (unat (tokens st) + n) (unat burst) else unat (tokens st))"
  note r = take_token_nat [OF assms(1) n_def tk_def, unfolded assms(2) fst_conv snd_conv]
  have burst: "unat (tokens st) \<le> unat burst" using assms(1) by (simp add: word_le_nat_alt)
  have time: "unat nanos * n + unat (last_update_ns st) \<le> unat (last_update_ns st')"
  proof (cases "0 < n")
    case True
    then have "unat (last_update_ns st) \<le> unat t" by (cases "unat (last_update_ns st) \<le> unat t") (simp_all add: n_def)
    moreover have "unat nanos * n \<le> unat t - unat (last_update_ns st)"
      unfolding n_def by (rule times_div_less_eq_dividend)
    ultimately show ?thesis using True r(3) by (simp add: le_diff_conv)
  qed (simp add: r(3))
  then show "last_update_ns st \<le> last_update_ns st'" by (simp add: word_le_nat_alt)
  show "last_update_ns st' \<le> max (last_update_ns st) t" by (simp add: r(3))
  show "tokens st' \<le> burst"
    unfolding word_le_nat_alt r(2) using burst by (auto simp: tk_def)
  have "of_bool ok + (tk - 1) \<le> unat (tokens st) + n" using r(1) by (auto simp: tk_def)
  then have "unat nanos * (of_bool ok + (tk - 1)) \<le> unat nanos * (unat (tokens st) + n)" by (rule mult_le_mono2)
  with time show "unat nanos * of_bool ok + credit nanos st' + unat (last_update_ns st) \<le>
           credit nanos st + unat (last_update_ns st')"
    unfolding credit_def r(2) by (simp add: algebra_simps)
qed

text \<open>A request that comes a refill time after the last refill is granted.\<close>

lemma take_token_granted:
  assumes "0 < burst" and "tokens st \<le> burst" and "unat (last_update_ns st) + unat nanos \<le> unat t"
  shows "fst (take_token nanos burst t st)"
proof -
  have "0 < (unat t - unat (last_update_ns st)) div unat nanos"
    using assms(3) nanos_pos by (simp add: div_greater_zero_iff word_less_nat_alt)
  then show ?thesis
    using take_token_nat(1) [OF assms(2) refl refl, of t] assms(1) by (simp add: word_less_nat_alt)
qed

end

interpretation packet_bucket: token_bucket NANOS_PER_TOKEN BURST_CAPACITY
  by unfold_locales (simp_all add: guards)

interpretation log_bucket: token_bucket LOG_NANOS_PER_TOKEN LOG_BURST_CAPACITY
  by unfold_locales (simp_all add: guards)

section \<open>The checks in terms of bytes and flag bits\<close>

lemma is_loopback_raw: "is_loopback (raw_u32 a b c d) \<longleftrightarrow> a = 127"
proof -
  let ?w = "be_u32 [a, b, c, d]"
  have "?w AND 0xFF000000 = push_bit 24 (ucast a)"
  proof -
    have m: "(0xFF000000 :: u32) = push_bit 24 (mask 8)" by (simp add: mask_eq_exp_minus_1 push_bit_eq_mult)
    show ?thesis unfolding m be_u32_def by (rule bit_word_eqI) (auto simp: bit_simps)
  qed
  moreover have "(0x7F000000 :: u32) = push_bit 24 (ucast (127 :: u8))" by (simp add: push_bit_eq_mult)
  moreover have "push_bit 24 (ucast x :: u32) = push_bit 24 (ucast y) \<longleftrightarrow> x = y" for x y :: u8
  proof -
    have "ucast (drop_bit 24 (push_bit 24 (ucast x :: u32))) = x" for x :: u8
      by (rule bit_word_eqI) (auto simp: bit_simps)
    then show ?thesis by metis
  qed
  ultimately show ?thesis by (simp only: is_loopback_def u32_to_be_raw)
qed

lemma flag_bit:
  fixes f :: u8
  shows "f AND 0x01 \<noteq> 0 \<longleftrightarrow> bit f 0" "f AND 0x02 \<noteq> 0 \<longleftrightarrow> bit f 1" "f AND 0x10 \<noteq> 0 \<longleftrightarrow> bit f 4"
proof -
  have "f AND push_bit n 1 \<noteq> 0 \<longleftrightarrow> bit f n" for n
    by (simp add: bit_iff_and_push_bit_not_eq_0)
  from this [of 0] this [of 1] this [of 4]
  show "f AND 0x01 \<noteq> 0 \<longleftrightarrow> bit f 0" "f AND 0x02 \<noteq> 0 \<longleftrightarrow> bit f 1" "f AND 0x10 \<noteq> 0 \<longleftrightarrow> bit f 4"
    by simp_all
qed

text \<open>A gated port is closed to new connections and to datagrams below the ephemeral range, to nothing else.\<close>

lemma is_port_blocked_iff:
  "is_port_blocked gate proto dport flags \<longleftrightarrow>
     dport \<noteq> 0 \<and> gate (ucast dport) = Some 2 \<and>
     (proto = 6 \<and> bit flags 1 \<and> \<not> bit flags 4 \<or> proto = 17 \<and> dport < 32768)"
  by (auto simp: is_port_blocked_def guards flag_bit not_less split: option.splits)

lemma control_flags_bits:
  fixes f :: u8
  shows "f AND 0x3F = 0 \<longleftrightarrow> (\<forall>i<6. \<not> bit f i)"
    and "(f AND 0x3F) AND 0x02 \<noteq> 0 \<longleftrightarrow> bit f 1" and "(f AND 0x3F) AND 0x01 \<noteq> 0 \<longleftrightarrow> bit f 0"
    and "(f AND 0x3F) AND (0x01 OR 0x08 OR 0x20) = (0x01 OR 0x08 OR 0x20) \<longleftrightarrow> bit f 0 \<and> bit f 3 \<and> bit f 5"
proof -
  have m: "f AND 0x3F = take_bit 6 f" by (simp only: take_bit_eq_mask) (simp add: mask_eq_exp_minus_1)
  show "f AND 0x3F = 0 \<longleftrightarrow> (\<forall>i<6. \<not> bit f i)"
    unfolding m by (auto simp: bit_eq_iff bit_simps)
  show "(f AND 0x3F) AND 0x02 \<noteq> 0 \<longleftrightarrow> bit f 1" and "(f AND 0x3F) AND 0x01 \<noteq> 0 \<longleftrightarrow> bit f 0"
    unfolding m flag_bit by (simp_all add: bit_simps)
  have x: "bit (0x01 OR 0x08 OR 0x20 :: u8) n \<longleftrightarrow> n = 0 \<or> n = 3 \<or> n = 5" for n
  proof -
    have "(0x01 OR 0x08 OR 0x20 :: u8) = push_bit 0 1 OR push_bit 3 1 OR push_bit 5 1"
      by (simp add: push_bit_eq_mult)
    moreover have "bit (push_bit 0 1 OR push_bit 3 1 OR push_bit 5 1 :: u8) n \<longleftrightarrow> n = 0 \<or> n = 3 \<or> n = 5"
      unfolding bit_or_iff bit_push_bit_iff bit_1_iff by auto
    ultimately show ?thesis by metis
  qed
  show "(f AND 0x3F) AND (0x01 OR 0x08 OR 0x20) = (0x01 OR 0x08 OR 0x20) \<longleftrightarrow> bit f 0 \<and> bit f 3 \<and> bit f 5"
  proof
    assume "(f AND 0x3F) AND (0x01 OR 0x08 OR 0x20) = (0x01 OR 0x08 OR 0x20)"
    then have "bit (take_bit 6 f AND (0x01 OR 0x08 OR 0x20)) n" if "n = 0 \<or> n = 3 \<or> n = 5" for n
      using that x [of n] unfolding m by (simp only:)
    from this [of 0] this [of 3] this [of 5] show "bit f 0 \<and> bit f 3 \<and> bit f 5"
      unfolding bit_and_iff by (simp add: bit_simps)
  next
    assume f: "bit f 0 \<and> bit f 3 \<and> bit f 5"
    show "(f AND 0x3F) AND (0x01 OR 0x08 OR 0x20) = (0x01 OR 0x08 OR 0x20)"
      unfolding m by (rule bit_word_eqI, unfold bit_and_iff x bit_take_bit_iff) (use f in auto)
  qed
qed

text \<open>\<open>validate_rfc_invariants\<close> on the addresses and flags of a packet.\<close>

lemma validate_rfc_iff:
  "validate_rfc_invariants (raw_u32 s0 s1 s2 s3) (raw_u32 d0 d1 d2 d3) proto f =
     (if [s0, s1, s2, s3] = [d0, d1, d2, d3] \<and> s0 \<noteq> 127 \<and> [s0, s1, s2, s3] \<noteq> [0, 0, 0, 0] then Inl rs_RfcLandAttack
      else if proto = 6
      then if \<forall>i<6. \<not> bit f i then Inl rs_RfcNullScan
           else if bit f 1 \<and> bit f 0 then Inl rs_RfcSynFin
           else if bit f 0 \<and> bit f 3 \<and> bit f 5 then Inl rs_RfcXmasScan
           else Inr ()
      else Inr ())"
proof -
  have zero: "raw_u32 a b c d = 0 \<longleftrightarrow> [a, b, c, d] = [0, 0, 0, 0]" for a b c d
    using raw_u32_eq_iff [of a b c d 0 0 0 0] by (simp add: raw_u32_def)
  have land: "\<not> (is_loopback (raw_u32 s0 s1 s2 s3) \<or> is_loopback (raw_u32 d0 d1 d2 d3)) \<and>
      raw_u32 s0 s1 s2 s3 \<noteq> 0 \<and> raw_u32 s0 s1 s2 s3 = raw_u32 d0 d1 d2 d3 \<longleftrightarrow>
      [s0, s1, s2, s3] = [d0, d1, d2, d3] \<and> s0 \<noteq> 127 \<and> [s0, s1, s2, s3] \<noteq> [0, 0, 0, 0]"
    unfolding is_loopback_raw raw_u32_eq_iff zero by auto
  show ?thesis
    unfolding validate_rfc_invariants_def Let_def land guards control_flags_bits by (rule refl)
qed

end
