(* ===== verification/Firewall.thy ===== *)
theory Firewall
  imports XdpParsers XdpFilters EbpfApi
begin

text \<open>
  \<^verbatim>\<open>src/kernel-space/src/main.rs\<close>: the XDP program.  What it takes from \<open>aya_ebpf\<close> and the kernel is
  the record \<open>aya\<close>: lookups in the maps user space writes, and the two updates whose result
  the code ignores.  The state of the data path, which only the program writes, is passed
  along: one CPU's rate limiter, the log limiter and the ring buffer.
\<close>

section \<open>Maps and state\<close>

datatype xdp_action = XDP_ABORTED | XDP_DROP | XDP_PASS | XDP_TX | XDP_REDIRECT

record 'k aya =
  Reputation_get :: "u32 \<Rightarrow> u32 \<Rightarrow> 'k \<Rightarrow> u32 option"
  PortGate_get :: "u32 \<Rightarrow> 'k \<Rightarrow> u8 option"
  Config_get :: "u32 \<Rightarrow> 'k \<Rightarrow> u32 option"
  Rate_insert :: "u32 \<Rightarrow> rs_RateLimitState \<Rightarrow> rate_map \<Rightarrow> rate_map"
  Events_output :: "u8 list \<Rightarrow> u8 list list \<Rightarrow> u8 list list"

text \<open>\<open>Reputation_get\<close> takes the two arguments of \<open>Key::new\<close>, the prefix length and the raw address.\<close>

text \<open>The declaration of the log limiter's array, beside the maps that are pinned.\<close>

definition LOG_RATE_LIMIT_MAP :: kmap where
  "LOG_RATE_LIMIT_MAP = \<lparr>kind = ArrayMap, ksize = 4, vsize = 16, max_entries = 1, pin = ''log_rate_limit_map''\<rparr>"

record datapath =
  rates :: rate_map
  log_slot :: "rs_RateLimitState option"
  ring :: "u8 list list"

text \<open>Empty maps; the array of the log limiter has its one entry, zeroed.\<close>

definition datapath_boot :: datapath where
  "datapath_boot = \<lparr>rates = [], log_slot = Some \<lparr>last_update_ns = 0, tokens = 0\<rparr>, ring = []\<rparr>"

section \<open>Verdicts and telemetry\<close>

definition emit_and_return ::
    "'k aya \<Rightarrow> xdp_action \<Rightarrow> rs_DropReason \<Rightarrow> rs_FlowPacketMeta \<Rightarrow> u64 \<Rightarrow> 'k \<Rightarrow> datapath \<Rightarrow>
     (xdp_action \<times> datapath) rs" where
  "emit_and_return aya act reason meta now_ns k d =
     (let dry_run = (Config_get aya 1 k = Some 1);
          (effective_action, telemetry_action) =
            (if act = XDP_DROP then if dry_run then (XDP_PASS, rs_WouldDrop) else (XDP_DROP, rs_Drop)
             else (act, rs_Pass));
          threshold = (case Config_get aya 0 k of Some val \<Rightarrow> val | None \<Rightarrow> 0)
      in if threshold = 0 then Ok (effective_action, d)
         else let severity = ucast (rs_LogSeverity_u8 (rs_severity reason)) :: u32
              in if severity < threshold then Ok (effective_action, d)
                 else (case check_log_rate_limit now_ns (log_slot d) of
                         (False, slot) \<Rightarrow> Ok (effective_action, d\<lparr>log_slot := slot\<rparr>)
                       | (True, slot) \<Rightarrow>
                           (let meta = meta\<lparr>action := rs_Action_u8 telemetry_action,
                                            drop_reason := rs_DropReason_u8 reason,
                                            timestamp_ns := now_ns\<rparr>
                            in Ok (effective_action,
                                   d\<lparr>log_slot := slot, ring := Events_output aya (rs_wire meta) (ring d)\<rparr>))))"

section \<open>The packet pipeline\<close>

text \<open>\<open>check_rate_limit\<close> on the state, before one of two continuations.\<close>

definition rate_limited ::
    "'k aya \<Rightarrow> u32 \<Rightarrow> u64 \<Rightarrow> datapath \<Rightarrow> bool \<times> datapath" where
  "rate_limited aya sip now_ns d =
     (case check_rate_limit (Rate_insert aya) sip now_ns (rates d) of (ok, m) \<Rightarrow> (\<not> ok, d\<lparr>rates := m\<rparr>))"

text \<open>The filters of a packet whose headers are parsed, steps 4 to 8.\<close>

definition filter_packet ::
    "'k aya \<Rightarrow> rs_FlowPacketMeta \<Rightarrow> u64 \<Rightarrow> 'k \<Rightarrow> datapath \<Rightarrow> (xdp_action \<times> datapath) rs" where
  "filter_packet aya meta now_ns k d =
     (case validate_rfc_invariants (src_ip meta) (dst_ip meta) (protocol meta) (tcp_flags meta) of
        Inl rfc_reason \<Rightarrow> emit_and_return aya XDP_DROP rfc_reason meta now_ns k d
      | Inr _ \<Rightarrow>
          (if Reputation_get aya 32 (src_ip meta) k = Some 1
              then emit_and_return aya XDP_DROP rs_BlacklistHit meta now_ns k d
              else if is_port_blocked (\<lambda>i. PortGate_get aya i k) (protocol meta) (dst_port meta) (tcp_flags meta)
              then emit_and_return aya XDP_DROP rs_PortBlocked meta now_ns k d
              else (case rate_limited aya (src_ip meta) now_ns d of
                      (True, d) \<Rightarrow> emit_and_return aya XDP_DROP rs_RateLimited meta now_ns k d
                    | (False, d) \<Rightarrow> emit_and_return aya XDP_PASS rs_None meta now_ns k d)))"

text \<open>The layer 4 header of a packet that is not a fragment, step 3, and the filters.\<close>

definition parse_l4 ::
    "'k aya \<Rightarrow> XdpContext \<Rightarrow> Cursor \<Rightarrow> u8 \<Rightarrow> rs_FlowPacketMeta \<Rightarrow> u64 \<Rightarrow> 'k \<Rightarrow> datapath \<Rightarrow>
     (xdp_action \<times> datapath) rs" where
  "parse_l4 aya ctx cursor proto meta now_ns k d =
     (if proto = ip_proto_TCP
      then (case parse_tcp ctx cursor of
              Ok (tcp, _) \<Rightarrow>
                filter_packet aya (meta\<lparr>src_port := l4_src_port tcp, dst_port := l4_dst_port tcp,
                                        tcp_flags := l4_flags tcp\<rparr>) now_ns k d
            | Err \<Rightarrow> emit_and_return aya XDP_DROP rs_TcpParseFailed meta now_ns k d
            | Fault \<Rightarrow> Fault)
      else if proto = ip_proto_UDP
      then (case parse_udp ctx cursor of
              Ok (udp, _) \<Rightarrow>
                filter_packet aya (meta\<lparr>src_port := u4_src_port udp, dst_port := u4_dst_port udp\<rparr>) now_ns k d
            | Err \<Rightarrow> emit_and_return aya XDP_DROP rs_UdpParseFailed meta now_ns k d
            | Fault \<Rightarrow> Fault)
      else filter_packet aya meta now_ns k d)"

definition empty_meta :: "u64 \<Rightarrow> rs_FlowPacketMeta" where
  "empty_meta now_ns =
     \<lparr>src_ip = 0, dst_ip = 0, src_port = 0, dst_port = 0, protocol = 0, tcp_flags = 0,
      action = rs_Action_u8 rs_Pass, drop_reason = rs_DropReason_u8 rs_None, timestamp_ns = now_ns\<rparr>"

definition try_ai_ida_firewall ::
    "'k aya \<Rightarrow> XdpContext \<Rightarrow> u64 \<Rightarrow> 'k \<Rightarrow> datapath \<Rightarrow> (xdp_action \<times> datapath) rs" where
  "try_ai_ida_firewall aya ctx now_ns k d =
     (let meta = empty_meta now_ns
      in case parse_ethernet ctx (Cursor_new ctx) of
        Fault \<Rightarrow> Fault
      | Err \<Rightarrow> emit_and_return aya XDP_DROP rs_EthParseFailed meta now_ns k d
      | Ok (l2, cursor) \<Rightarrow>
          if eth_type l2 = eth_types_IPV4
          then (case parse_ipv4 ctx cursor of
                  Fault \<Rightarrow> Fault
                | Err \<Rightarrow> emit_and_return aya XDP_DROP rs_Ipv4ParseFailed meta now_ns k d
                | Ok (l3, cursor) \<Rightarrow>
                    (let meta = meta\<lparr>src_ip := l3_src_ip l3, dst_ip := l3_dst_ip l3, protocol := l3_proto l3\<rparr>
                     in if is_fragment l3
                        then (case rate_limited aya (l3_src_ip l3) now_ns d of
                                (True, d) \<Rightarrow> emit_and_return aya XDP_DROP rs_RateLimited meta now_ns k d
                              | (False, d) \<Rightarrow> emit_and_return aya XDP_PASS rs_None meta now_ns k d)
                        else parse_l4 aya ctx cursor (l3_proto l3) meta now_ns k d))
          else if eth_type l2 = eth_types_ARP
          then (case parse_arp ctx cursor of
                  Fault \<Rightarrow> Fault
                | Ok _ \<Rightarrow> emit_and_return aya XDP_PASS rs_None meta now_ns k d
                | Err \<Rightarrow> emit_and_return aya XDP_DROP rs_ArpParseFailed meta now_ns k d)
          else emit_and_return aya XDP_PASS rs_None meta now_ns k d)"

text \<open>The entry point: an error of the pipeline drops the packet.\<close>

definition ai_ida_firewall ::
    "'k aya \<Rightarrow> XdpContext \<Rightarrow> u64 \<Rightarrow> 'k \<Rightarrow> datapath \<Rightarrow> (xdp_action \<times> datapath) rs" where
  "ai_ida_firewall aya ctx now_ns k d =
     (case try_ai_ida_firewall aya ctx now_ns k d of
        Ok (act, d') \<Rightarrow> Ok (act, d')
      | Err \<Rightarrow> Ok (XDP_DROP, d)
      | Fault \<Rightarrow> Fault)"

end
