(* ===== verification/FirewallSpec.thy ===== *)
theory FirewallSpec
  imports Firewall
begin

text \<open>
  What the XDP program decides, said without cursors: a frame is classified by a decoder on
  bytes, judged by the filters in order, and reported.  The program computes exactly this, so
  it never reads outside of the packet and its error branch is never taken.
\<close>

section \<open>Classification of a frame\<close>

datatype packet_class =
    Malformed rs_DropReason rs_FlowPacketMeta
  | Fragment rs_FlowPacketMeta
  | Complete rs_FlowPacketMeta
  | Other rs_FlowPacketMeta

definition classify_l4 :: "rs_FlowPacketMeta \<Rightarrow> u8 list \<Rightarrow> packet_class" where
  "classify_l4 m bs =
     (if protocol m = 6
      then (case dec_tcp bs of None \<Rightarrow> Malformed rs_TcpParseFailed m
            | Some (t, _) \<Rightarrow> Complete (m\<lparr>src_port := l4_src_port t, dst_port := l4_dst_port t, tcp_flags := l4_flags t\<rparr>))
      else if protocol m = 17
      then (case dec_udp bs of None \<Rightarrow> Malformed rs_UdpParseFailed m
            | Some (u, _) \<Rightarrow> Complete (m\<lparr>src_port := u4_src_port u, dst_port := u4_dst_port u\<rparr>))
      else Complete m)"

definition classify_ipv4 :: "rs_FlowPacketMeta \<Rightarrow> u8 list \<Rightarrow> packet_class" where
  "classify_ipv4 m bs =
     (case dec_ipv4 bs of None \<Rightarrow> Malformed rs_Ipv4ParseFailed m
      | Some (l3, rest) \<Rightarrow>
          (let m' = m\<lparr>src_ip := l3_src_ip l3, dst_ip := l3_dst_ip l3, protocol := l3_proto l3\<rparr>
           in if is_fragment l3 then Fragment m' else classify_l4 m' rest))"

definition classify_frame :: "u64 \<Rightarrow> u8 list \<Rightarrow> packet_class" where
  "classify_frame now_ns bs =
     (let m = empty_meta now_ns
      in case dec_ethernet bs of None \<Rightarrow> Malformed rs_EthParseFailed m
         | Some (l2, rest) \<Rightarrow>
             if eth_type l2 = 0x0800 then classify_ipv4 m rest
             else if eth_type l2 = 0x0806
             then if dec_arp rest = None then Malformed rs_ArpParseFailed m else Other m
             else Other m)"

section \<open>Judgement and report\<close>

definition judge_rate :: "'k aya \<Rightarrow> u64 \<Rightarrow> rs_FlowPacketMeta \<Rightarrow> datapath \<Rightarrow> rs_DropReason \<times> datapath" where
  "judge_rate aya now_ns m d =
     (case rate_limited aya (src_ip m) now_ns d of (over, d') \<Rightarrow> (if over then rs_RateLimited else rs_None, d'))"

text \<open>The filters that do not depend on the rate: \<open>rs_None\<close> when the packet passes them.\<close>

definition static_reason :: "'k aya \<Rightarrow> 'k \<Rightarrow> rs_FlowPacketMeta \<Rightarrow> rs_DropReason" where
  "static_reason aya k m =
     (case validate_rfc_invariants (src_ip m) (dst_ip m) (protocol m) (tcp_flags m) of
        Inl r \<Rightarrow> r
      | Inr _ \<Rightarrow> if Reputation_get aya 32 (src_ip m) k = Some 1 then rs_BlacklistHit
                else if is_port_blocked (\<lambda>i. PortGate_get aya i k) (protocol m) (dst_port m) (tcp_flags m)
                then rs_PortBlocked else rs_None)"

fun judge :: "'k aya \<Rightarrow> u64 \<Rightarrow> 'k \<Rightarrow> packet_class \<Rightarrow> datapath \<Rightarrow> rs_DropReason \<times> datapath" where
  "judge aya now_ns k (Malformed r m) d = (r, d)"
| "judge aya now_ns k (Other m) d = (rs_None, d)"
| "judge aya now_ns k (Fragment m) d = judge_rate aya now_ns m d"
| "judge aya now_ns k (Complete m) d =
     (if static_reason aya k m = rs_None then judge_rate aya now_ns m d else (static_reason aya k m, d))"

fun packet_meta :: "packet_class \<Rightarrow> rs_FlowPacketMeta" where
  "packet_meta (Malformed r m) = m"
| "packet_meta (Other m) = m"
| "packet_meta (Fragment m) = m"
| "packet_meta (Complete m) = m"

definition dry_run :: "'k aya \<Rightarrow> 'k \<Rightarrow> bool" where
  "dry_run aya k \<longleftrightarrow> Config_get aya 1 k = Some 1"

definition verdict :: "'k aya \<Rightarrow> 'k \<Rightarrow> rs_DropReason \<Rightarrow> xdp_action" where
  "verdict aya k r = (if r = rs_None \<or> dry_run aya k then XDP_PASS else XDP_DROP)"

text \<open>Whether a reason passes the configured threshold.\<close>

definition reported :: "'k aya \<Rightarrow> 'k \<Rightarrow> rs_DropReason \<Rightarrow> bool" where
  "reported aya k r \<longleftrightarrow>
     (\<exists>v. Config_get aya 0 k = Some v \<and> v \<noteq> 0 \<and> v \<le> ucast (rs_LogSeverity_u8 (rs_severity r)))"

definition event_of :: "'k aya \<Rightarrow> 'k \<Rightarrow> u64 \<Rightarrow> rs_DropReason \<Rightarrow> rs_FlowPacketMeta \<Rightarrow> rs_FlowPacketMeta" where
  "event_of aya k now_ns r m =
     m\<lparr>action := rs_Action_u8 (if r = rs_None then rs_Pass else if dry_run aya k then rs_WouldDrop else rs_Drop),
       drop_reason := rs_DropReason_u8 r, timestamp_ns := now_ns\<rparr>"

definition log_event :: "'k aya \<Rightarrow> 'k \<Rightarrow> u64 \<Rightarrow> rs_DropReason \<Rightarrow> rs_FlowPacketMeta \<Rightarrow> datapath \<Rightarrow> datapath" where
  "log_event aya k now_ns r m d =
     (if reported aya k r
      then (case check_log_rate_limit now_ns (log_slot d) of
              (ok, slot) \<Rightarrow> d\<lparr>log_slot := slot,
                              ring := (if ok then Events_output aya (rs_wire (event_of aya k now_ns r m)) (ring d)
                                       else ring d)\<rparr>)
      else d)"

definition process :: "'k aya \<Rightarrow> 'k \<Rightarrow> u64 \<Rightarrow> u8 list \<Rightarrow> datapath \<Rightarrow> xdp_action \<times> datapath" where
  "process aya k now_ns bs d =
     (let c = classify_frame now_ns bs; (r, d') = judge aya now_ns k c d
      in (verdict aya k r, log_event aya k now_ns r (packet_meta c) d'))"

section \<open>The program computes it\<close>

lemma emit_and_return_eq:
  assumes "act = (if r = rs_None then XDP_PASS else XDP_DROP)"
  shows "emit_and_return aya act r m now_ns k d = Ok (verdict aya k r, log_event aya k now_ns r m d)"
proof -
  have rep: "reported aya k r \<longleftrightarrow>
      (case Config_get aya 0 k of Some val \<Rightarrow> val | None \<Rightarrow> 0) \<noteq> 0 \<and>
      \<not> (ucast (rs_LogSeverity_u8 (rs_severity r)) < (case Config_get aya 0 k of Some val \<Rightarrow> val | None \<Rightarrow> 0))"
    by (auto simp: reported_def not_less split: option.splits)
  show ?thesis
    unfolding emit_and_return_def assms log_event_def rep
    by (cases "check_log_rate_limit now_ns (log_slot d)")
       (simp add: Let_def verdict_def dry_run_def event_of_def split: bool.splits)
qed

lemma validate_rfc_not_None: "validate_rfc_invariants s d p f \<noteq> Inl rs_None"
  by (simp add: validate_rfc_invariants_def Let_def)

lemma filter_packet_eq:
  "filter_packet aya m now_ns k d =
     (case judge aya now_ns k (Complete m) d of (r, d') \<Rightarrow> Ok (verdict aya k r, log_event aya k now_ns r m d'))"
proof (cases "validate_rfc_invariants (src_ip m) (dst_ip m) (protocol m) (tcp_flags m)")
  case (Inl r)
  then show ?thesis
    using validate_rfc_not_None [of "src_ip m" "dst_ip m" "protocol m" "tcp_flags m"]
    by (auto simp: filter_packet_def static_reason_def emit_and_return_eq)
next
  case (Inr u)
  then show ?thesis
    by (auto simp: filter_packet_def static_reason_def emit_and_return_eq judge_rate_def
             split: prod.splits bool.splits)
qed

definition decide :: "'k aya \<Rightarrow> 'k \<Rightarrow> u64 \<Rightarrow> packet_class \<Rightarrow> datapath \<Rightarrow> xdp_action \<times> datapath" where
  "decide aya k now_ns c d =
     (case judge aya now_ns k c d of (r, d') \<Rightarrow> (verdict aya k r, log_event aya k now_ns r (packet_meta c) d'))"

lemma process_decide: "process aya k now_ns bs d = decide aya k now_ns (classify_frame now_ns bs) d"
  by (simp add: process_def decide_def Let_def)

lemma emit_drop:
  "r \<noteq> rs_None \<Longrightarrow> emit_and_return aya XDP_DROP r m now_ns k d = Ok (decide aya k now_ns (Malformed r m) d)"
  by (simp add: emit_and_return_eq decide_def)

lemma emit_pass: "emit_and_return aya XDP_PASS rs_None m now_ns k d = Ok (decide aya k now_ns (Other m) d)"
  by (simp add: emit_and_return_eq decide_def)

lemma filter_packet_decide: "filter_packet aya m now_ns k d = Ok (decide aya k now_ns (Complete m) d)"
  unfolding filter_packet_eq decide_def by (simp split: prod.splits)

lemma parse_l4_eq:
  assumes "ctx_ok ctx" and "cur_ok ctx c"
  shows "parse_l4 aya ctx c (protocol m) m now_ns k d = Ok (decide aya k now_ns (classify_l4 m (view ctx c)) d)"
  using followsD [OF parse_tcp_follows [OF assms]] followsD [OF parse_udp_follows [OF assms]]
  by (cases "dec_tcp (view ctx c)"; cases "dec_udp (view ctx c)")
     (auto simp: parse_l4_def classify_l4_def guards filter_packet_decide emit_drop)

lemma classify_ipv4_eq:
  assumes "ctx_ok ctx" and "cur_ok ctx c"
  shows "(case parse_ipv4 ctx c of
            Fault \<Rightarrow> Fault
          | Err \<Rightarrow> emit_and_return aya XDP_DROP rs_Ipv4ParseFailed m now_ns k d
          | Ok (l3, cursor) \<Rightarrow>
              (let meta = m\<lparr>src_ip := l3_src_ip l3, dst_ip := l3_dst_ip l3, protocol := l3_proto l3\<rparr>
               in if is_fragment l3
                  then (case rate_limited aya (l3_src_ip l3) now_ns d of
                          (True, d) \<Rightarrow> emit_and_return aya XDP_DROP rs_RateLimited meta now_ns k d
                        | (False, d) \<Rightarrow> emit_and_return aya XDP_PASS rs_None meta now_ns k d)
                  else parse_l4 aya ctx cursor (l3_proto l3) meta now_ns k d)) =
         Ok (decide aya k now_ns (classify_ipv4 m (view ctx c)) d)"
proof (cases "dec_ipv4 (view ctx c)")
  case None
  then show ?thesis
    using followsD(1) [OF parse_ipv4_follows [OF assms]] by (simp add: classify_ipv4_def emit_drop)
next
  case (Some a)
  then obtain l3 c' where p: "parse_ipv4 ctx c = Ok (l3, c')" "cur_ok ctx c'" "dec_ipv4 (view ctx c) = Some (l3, view ctx c')"
    using followsD(2) [OF parse_ipv4_follows [OF assms]] by (cases a) blast
  let ?m = "m\<lparr>src_ip := l3_src_ip l3, dst_ip := l3_dst_ip l3, protocol := l3_proto l3\<rparr>"
  have "parse_l4 aya ctx c' (l3_proto l3) ?m now_ns k d = Ok (decide aya k now_ns (classify_l4 ?m (view ctx c')) d)"
    using parse_l4_eq [OF assms(1) p(2), of aya ?m] by simp
  moreover have "(case rate_limited aya (l3_src_ip l3) now_ns d of
                    (True, d) \<Rightarrow> emit_and_return aya XDP_DROP rs_RateLimited ?m now_ns k d
                  | (False, d) \<Rightarrow> emit_and_return aya XDP_PASS rs_None ?m now_ns k d) =
                Ok (decide aya k now_ns (Fragment ?m) d)"
    by (auto simp: decide_def judge_rate_def emit_and_return_eq split: prod.splits bool.splits)
  ultimately show ?thesis by (simp add: p classify_ipv4_def Let_def)
qed

theorem try_firewall_eq:
  assumes "ctx_ok ctx"
  shows "try_ai_ida_firewall aya ctx now_ns k d = Ok (process aya k now_ns (frame ctx) d)"
proof (cases "dec_ethernet (frame ctx)")
  case None
  then show ?thesis
    using followsD(1) [OF parse_ethernet_follows [OF assms Cursor_new_ok(1)]]
    by (simp add: try_ai_ida_firewall_def process_decide classify_frame_def emit_drop)
next
  case (Some a)
  then obtain l2 c where p: "parse_ethernet ctx (Cursor_new ctx) = Ok (l2, c)" "cur_ok ctx c"
      "dec_ethernet (frame ctx) = Some (l2, view ctx c)"
    using followsD(2) [OF parse_ethernet_follows [OF assms Cursor_new_ok(1)]] by (cases a) auto
  note arp = followsD [OF parse_arp_follows [OF assms p(2)]]
  show ?thesis
    unfolding try_ai_ida_firewall_def process_decide Let_def p(1) rs.case prod.case
      classify_ipv4_eq [OF assms p(2), unfolded Let_def]
    using arp by (cases "dec_arp (view ctx c)") (auto simp: classify_frame_def p(3) guards emit_drop emit_pass)
qed

lemma ai_ida_firewall_eq:
  "ctx_ok ctx \<Longrightarrow> ai_ida_firewall aya ctx now_ns k d = Ok (process aya k now_ns (frame ctx) d)"
  by (simp add: ai_ida_firewall_def try_firewall_eq split: prod.splits)

end
