(* ===== verification/FirewallMaps.thy ===== *)
theory FirewallMaps
  imports FirewallSpec MapProps
begin

text \<open>
  The maps as the kernel program sees them.  The locale \<open>xdp_maps\<close> extends the contract of user
  space with the documented behaviour of the lookups and updates the program makes: the trie
  answers with the longest prefix that covers an address, arrays return their entries, an
  insertion into the LRU map may fail or evict other entries, and the ring buffer takes a record
  or refuses it.  It is interpreted on the maps of \<^verbatim>\<open>maps.rs\<close>.
\<close>

section \<open>The contract\<close>

text \<open>The normalised trie key of the first \<open>q\<close> bits of a raw address.\<close>

definition lpm_key :: "u32 \<Rightarrow> u32 \<Rightarrow> bpf_val" where
  "lpm_key q ip = norm_key (VLpm \<lparr>PrefixLen = q, KeyAddr = le_bytes32 ip\<rparr>)"

locale xdp_maps = ebpf_maps api contents key_size value_size opened
  for api :: "('h, 'k) ebpf_api"
    and contents :: "'h \<Rightarrow> 'k \<Rightarrow> bpf_val \<Rightarrow> bpf_val option"
    and key_size :: "'h \<Rightarrow> nat"
    and value_size :: "'h \<Rightarrow> nat"
    and opened :: "'k \<Rightarrow> 'h multiset" +
  fixes aya :: "'k aya"
    and rep :: 'h
    and gate :: 'h
    and cfg :: 'h
  assumes reputation_match:
      "q \<le> 32 \<Longrightarrow> contents rep s (lpm_key q ip) = Some (VU32 v) \<Longrightarrow>
       (\<And>p. q < p \<Longrightarrow> p \<le> 32 \<Longrightarrow> contents rep s (lpm_key p ip) = None) \<Longrightarrow>
       Reputation_get aya 32 ip s = Some v"
    and reputation_miss:
      "(\<And>q. q \<le> 32 \<Longrightarrow> contents rep s (lpm_key q ip) = None) \<Longrightarrow> Reputation_get aya 32 ip s = None"
    and gate_get: "PortGate_get aya i s = Some v8 \<longleftrightarrow> contents gate s (VU32 i) = Some (VU8 v8)"
    and config_get: "Config_get aya i s = Some v \<longleftrightarrow> contents cfg s (VU32 i) = Some (VU32 v)"
    and rate_insert: "go_get (Rate_insert aya ip st m) ip' = Some st' \<Longrightarrow>
       ip' = ip \<and> st' = st \<or> go_get m ip' = Some st'"
    and events_output: "Events_output aya w r = r \<or> Events_output aya w r = r @ [w]"
begin

text \<open>The longest of the prefixes of an address that have an entry.\<close>

lemma reputation_covered:
  assumes "q \<le> 32" and "contents rep s (lpm_key q ip) \<noteq> None"
    and "\<And>key v. contents rep s key = Some v \<Longrightarrow> v = VU32 1"
  shows "Reputation_get aya 32 ip s = Some 1"
proof -
  define P where "P = {p. p \<le> 32 \<and> contents rep s (lpm_key p ip) \<noteq> None}"
  have P: "finite P" "P \<noteq> {}" using assms(1,2) by (auto simp: P_def)
  then have "Max P \<in> P" by (rule Max_in)
  then have "Max P \<le> 32" and "contents rep s (lpm_key (Max P) ip) = Some (VU32 1)"
    using assms(3) by (auto simp: P_def)
  moreover have "contents rep s (lpm_key p ip) = None" if "Max P < p" "p \<le> 32" for p
  proof (rule ccontr)
    assume "contents rep s (lpm_key p ip) \<noteq> None"
    then have "p \<in> P" using that by (simp add: P_def)
    then have "p \<le> Max P" by (rule Max_ge [OF P(1)])
    with that(1) show False by (simp add: not_le [symmetric])
  qed
  ultimately show ?thesis by (rule reputation_match)
qed

text \<open>A successful \<open>BlockIP\<close> covers the addresses of its prefix.\<close>

lemma BlockIP_covers:
  assumes "reputationMap mgr = Some rep" and "NewLpmKey cidr = Inr key" and "BlockIP api mgr cidr s = (None, s')"
    and "\<And>e v. contents rep s e = Some v \<Longrightarrow> v = VU32 1"
    and "lpm_key (PrefixLen key) ip = norm_key (VLpm key)"
  shows "Reputation_get aya 32 ip s' = Some 1"
proof -
  have "Map_Put api rep (VLpm key) (VU32 1) s = (None, s')"
    using assms(1-3) by (cases "Map_Put api rep (VLpm key) (VU32 1) s") (auto simp: BlockIP_def put_wrap_def)
  then have len: "PrefixLen key \<le> 32" and s': "contents rep s' = (contents rep s)(norm_key (VLpm key) \<mapsto> VU32 1)"
    using put_ok [of rep "VLpm key" "VU32 1" s s' rep] by simp_all
  show ?thesis
  proof (rule reputation_covered [OF len])
    show "contents rep s' (lpm_key (PrefixLen key) ip) \<noteq> None" unfolding assms(5) s' by simp
    show "v = VU32 1" if "contents rep s' e = Some v" for e v
      using that assms(4) unfolding s' by (auto split: if_splits)
  qed
qed

text \<open>The flags of the configuration.\<close>

lemma dry_run_contents: "dry_run aya s \<longleftrightarrow> contents cfg s (VU32 1) = Some (VU32 1)"
  by (simp add: dry_run_def config_get)

lemma SetDryRun_dry_run:
  assumes "configMap mgr = Some cfg" and "SetDryRun api mgr flag s = (None, s')"
  shows "dry_run aya s' \<longleftrightarrow> flag"
  using assms put_wrap_ok [of cfg "VU32 1" _ _ s s' cfg]
  by (auto simp: SetDryRun_def dry_run_contents)

text \<open>Nothing else that the filters or the log threshold look at depends on the flag.\<close>

lemma SetDryRun_frame:
  assumes "configMap mgr = Some cfg" and "SetDryRun api mgr flag s = (None, s')"
  shows "h \<noteq> cfg \<Longrightarrow> contents h s' = contents h s" and "Config_get aya 0 s' = Config_get aya 0 s"
proof -
  have eff: "contents h s' = (if h = cfg then (contents cfg s)(VU32 1 \<mapsto> VU32 (if flag then 1 else 0)) else contents h s)" for h
    using assms put_wrap_ok [of cfg "VU32 1" _ _ s s' h] by (auto simp: SetDryRun_def)
  then show "h \<noteq> cfg \<Longrightarrow> contents h s' = contents h s" by simp
  have "Config_get aya 0 s' = Some v \<longleftrightarrow> Config_get aya 0 s = Some v" for v by (simp add: config_get eff)
  then show "Config_get aya 0 s' = Config_get aya 0 s" by (metis option.exhaust)
qed

lemma gate_contents: "contents gate s' = contents gate s \<Longrightarrow> PortGate_get aya i s' = PortGate_get aya i s"
  by (metis gate_get option.exhaust)

lemma reputation_contents:
  assumes "contents rep s' = contents rep s" and "\<And>key v. contents rep s key = Some v \<Longrightarrow> v = VU32 1"
  shows "Reputation_get aya 32 ip s' = Reputation_get aya 32 ip s"
proof (cases "\<exists>q \<le> 32. contents rep s (lpm_key q ip) \<noteq> None")
  case True
  then obtain q where q: "q \<le> 32" "contents rep s (lpm_key q ip) \<noteq> None" by blast
  then show ?thesis using reputation_covered [OF q] reputation_covered [OF q(1), of s'] assms by metis
next
  case False
  then show ?thesis using reputation_miss [of s ip] reputation_miss [of s' ip] assms(1) by auto
qed

lemma judge_contents:
  assumes "contents rep s' = contents rep s" and "\<And>key v. contents rep s key = Some v \<Longrightarrow> v = VU32 1"
    and "contents gate s' = contents gate s"
  shows "judge aya now_ns s' c d = judge aya now_ns s c d"
  by (cases c) (simp_all add: static_reason_def reputation_contents [OF assms(1,2)] gate_contents [OF assms(3)])

lemma BlockPort_gate:
  assumes "portGateMap mgr = Some gate" and "BlockPort api mgr port s = (None, s')"
  shows "PortGate_get aya (ucast port) s' = Some 2"
  using assms put_wrap_ok [of gate "VU32 (ucast port)" _ _ s s' gate]
  by (simp add: BlockPort_def gate_get)

text \<open>A hit has an entry that covers the address.\<close>

lemma reputation_hit_covered:
  assumes "Reputation_get aya 32 ip s = Some v"
  shows "\<exists>q \<le> 32. contents rep s (lpm_key q ip) \<noteq> None"
  using assms reputation_miss [of s ip] by fastforce

end

section \<open>The maps of maps.rs\<close>

definition k_lpm :: "u32 \<Rightarrow> u32 \<Rightarrow> kernel \<Rightarrow> u32 option" where
  "k_lpm bits ip s =
     (case find (\<lambda>q. k_contents REPUTATION_MAP s (lpm_key (of_nat q) ip) \<noteq> None) (rev [0..<Suc (unat bits)]) of
        None \<Rightarrow> None
      | Some q \<Rightarrow> (case k_contents REPUTATION_MAP s (lpm_key (of_nat q) ip) of Some (VU32 v) \<Rightarrow> Some v | _ \<Rightarrow> None))"

definition k_gate :: "u32 \<Rightarrow> kernel \<Rightarrow> u8 option" where
  "k_gate i s = (case k_contents PORT_GATE_MAP s (VU32 i) of Some (VU8 v) \<Rightarrow> Some v | _ \<Rightarrow> None)"

definition k_config :: "u32 \<Rightarrow> kernel \<Rightarrow> u32 option" where
  "k_config i s = (case k_contents CONFIG_MAP s (VU32 i) of Some (VU32 v) \<Rightarrow> Some v | _ \<Rightarrow> None)"

text \<open>A full LRU map gives up its oldest entry.\<close>

definition k_rate_insert :: "u32 \<Rightarrow> rs_RateLimitState \<Rightarrow> rate_map \<Rightarrow> rate_map" where
  "k_rate_insert ip st m =
     (if length m < max_entries RATE_LIMIT_MAP then go_set m ip st
      else go_set (go_del m (fst (hd m))) ip st)"

text \<open>A record takes 24 bytes and a header of 8.\<close>

definition k_output :: "u8 list \<Rightarrow> u8 list list \<Rightarrow> u8 list list" where
  "k_output w r = (if 32 * (length r + 1) \<le> max_entries EVENTS then r @ [w] else r)"

definition kernel_aya :: "kernel aya" where
  "kernel_aya = \<lparr>Reputation_get = k_lpm, PortGate_get = k_gate, Config_get = k_config,
                 Rate_insert = k_rate_insert, Events_output = k_output\<rparr>"

lemma find_rev_upt_Some:
  assumes "Q q" and "q < n" and "\<And>p. q < p \<Longrightarrow> p < n \<Longrightarrow> \<not> Q p"
  shows "find Q (rev [0..<n]) = Some q"
  using assms
proof (induction n)
  case (Suc n)
  then show ?case by (cases "q = n") auto
qed simp

lemma find_rev_upt_None: "(\<And>p. p < n \<Longrightarrow> \<not> Q p) \<Longrightarrow> find Q (rev [0..<n]) = None"
  by (simp add: find_None_iff)

lemma k_lpm_match:
  assumes "q \<le> 32" and "k_contents REPUTATION_MAP s (lpm_key q ip) = Some (VU32 v)"
    and "\<And>p. q < p \<Longrightarrow> p \<le> 32 \<Longrightarrow> k_contents REPUTATION_MAP s (lpm_key p ip) = None"
  shows "k_lpm 32 ip s = Some v"
proof -
  have "find (\<lambda>q. k_contents REPUTATION_MAP s (lpm_key (of_nat q) ip) \<noteq> None) (rev [0..<Suc 32]) = Some (unat q)"
  proof (rule find_rev_upt_Some)
    show "k_contents REPUTATION_MAP s (lpm_key (of_nat (unat q)) ip) \<noteq> None" using assms(2) by simp
    show "unat q < Suc 32" using assms(1) by (simp add: word_le_nat_alt)
    fix p :: nat
    assume "unat q < p" "p < Suc 32"
    then have "q < of_nat p" "(of_nat p :: u32) \<le> 32"
      by (simp_all add: word_less_nat_alt word_le_nat_alt unat_of_nat)
    then show "\<not> k_contents REPUTATION_MAP s (lpm_key (of_nat p) ip) \<noteq> None" using assms(3) by simp
  qed
  then show ?thesis using assms(2) by (simp add: k_lpm_def)
qed

lemma k_lpm_miss:
  assumes "\<And>q. q \<le> 32 \<Longrightarrow> k_contents REPUTATION_MAP s (lpm_key q ip) = None"
  shows "k_lpm 32 ip s = None"
proof -
  have "find (\<lambda>q. k_contents REPUTATION_MAP s (lpm_key (of_nat q) ip) \<noteq> None) (rev [0..<Suc 32]) = None"
    by (rule find_rev_upt_None) (use assms in \<open>simp add: word_le_nat_alt unat_of_nat\<close>)
  then show ?thesis by (simp add: k_lpm_def)
qed

lemma kernel_aya_sel [simp]:
  "Reputation_get kernel_aya = k_lpm" "PortGate_get kernel_aya = k_gate" "Config_get kernel_aya = k_config"
  "Rate_insert kernel_aya = k_rate_insert" "Events_output kernel_aya = k_output"
  by (simp_all add: kernel_aya_def)

interpretation xk: xdp_maps kernel_api k_contents ksize vsize "\<lambda>s. mset (descriptors s)"
    kernel_aya REPUTATION_MAP PORT_GATE_MAP CONFIG_MAP
proof unfold_locales
  show "Reputation_get kernel_aya 32 ip s = Some v"
    if "q \<le> 32" "k_contents REPUTATION_MAP s (lpm_key q ip) = Some (VU32 v)"
      "\<And>p. q < p \<Longrightarrow> p \<le> 32 \<Longrightarrow> k_contents REPUTATION_MAP s (lpm_key p ip) = None" for q s ip v
    using k_lpm_match that by simp
  show "Reputation_get kernel_aya 32 ip s = None"
    if "\<And>q. q \<le> 32 \<Longrightarrow> k_contents REPUTATION_MAP s (lpm_key q ip) = None" for s ip
    using k_lpm_miss that by simp
  show "PortGate_get kernel_aya i s = Some v8 \<longleftrightarrow> k_contents PORT_GATE_MAP s (VU32 i) = Some (VU8 v8)" for i s v8
    by (simp add: k_gate_def split: option.splits bpf_val.splits)
  show "Config_get kernel_aya i s = Some v \<longleftrightarrow> k_contents CONFIG_MAP s (VU32 i) = Some (VU32 v)" for i s v
    by (simp add: k_config_def split: option.splits bpf_val.splits)
qed (auto simp: k_rate_insert_def k_output_def go_get_del split: if_splits)

lemmas xdp_contract = xk.xdp_maps_axioms

end
