(* ===== verification/FrameBuild.thy ===== *)
theory FrameBuild
  imports FirewallSpec
begin

text \<open>
  Frames put together from their fields: an Ethernet header with any number of VLAN tags, an
  IPv4 header with options, a TCP segment with options.  The classification of such a frame
  gives the fields back, as long as there are at most two tags.
\<close>

section \<open>Building frames\<close>

text \<open>A tag: its kind (802.1Q or 802.1ad) and the two bytes of its control information.\<close>

datatype vlan_kind = CTag | STag

fun tag_bytes :: "vlan_kind \<times> u8 \<times> u8 \<Rightarrow> u8 list" where
  "tag_bytes (CTag, t1, t2) = [0x81, 0x00, t1, t2]"
| "tag_bytes (STag, t1, t2) = [0x88, 0xA8, t1, t2]"

definition eth_frame :: "u8 list \<Rightarrow> (vlan_kind \<times> u8 \<times> u8) list \<Rightarrow> u8 \<Rightarrow> u8 \<Rightarrow> u8 list \<Rightarrow> u8 list" where
  "eth_frame macs tags hi lo payload = macs @ concat (map tag_bytes tags) @ [hi, lo] @ payload"

text \<open>The fields of an IPv4 header that the program looks at; \<open>rest\<close> has the others.\<close>

definition ipv4_packet ::
    "u8 list \<Rightarrow> u8 \<Rightarrow> u8 \<Rightarrow> u8 \<Rightarrow> u8 \<times> u8 \<times> u8 \<times> u8 \<Rightarrow> u8 \<times> u8 \<times> u8 \<times> u8 \<Rightarrow> u8 list \<Rightarrow> u8 list \<Rightarrow> u8 list" where
  "ipv4_packet rest f1 f2 proto src dst opts payload =
     (case (src, dst) of ((s0, s1, s2, s3), (d0, d1, d2, d3)) \<Rightarrow>
        of_nat (69 + length opts div 4) # take 5 rest @ [f1, f2, rest ! 5, proto, rest ! 6, rest ! 7,
          s0, s1, s2, s3, d0, d1, d2, d3] @ opts @ payload)"

definition tcp_segment :: "u8 list \<Rightarrow> u8 \<times> u8 \<Rightarrow> u8 \<times> u8 \<Rightarrow> u8 \<Rightarrow> u8 list \<Rightarrow> u8 list \<Rightarrow> u8 list" where
  "tcp_segment rest sp dp flags opts payload =
     [fst sp, snd sp, fst dp, snd dp] @ take 8 rest @
     [of_nat (16 * (5 + length opts div 4)), flags] @ drop 8 rest @ opts @ payload"

definition options_ok :: "u8 list \<Rightarrow> bool" where
  "options_ok opts \<longleftrightarrow> length opts mod 4 = 0 \<and> length opts \<le> 40"

section \<open>Decoding them\<close>

lemma tag_types: "be16 ([0x81, 0x00] @ bs) 0 = 0x8100" "be16 ([0x88, 0xA8] @ bs) 0 = 0x88A8"
  by (simp_all add: be16_def be_nat_def)

text \<open>Tags are removed one by one.\<close>

lemma dec_vlans_tag:
  "dec_vlans (Suc n) (be16 (tag_bytes t @ bs) 0) (drop 2 (tag_bytes t @ bs)) =
     (if length bs < 2 then None else dec_vlans n (be16 bs 0) (drop 2 bs))"
  by (cases t rule: tag_bytes.cases) (auto simp: be16_def be_nat_def)

text \<open>The type and payload that remain after up to two tags.\<close>

definition after_tags :: "(vlan_kind \<times> u8 \<times> u8) list \<Rightarrow> u8 \<Rightarrow> u8 \<Rightarrow> u8 list \<Rightarrow> u16 \<times> u8 list" where
  "after_tags tags hi lo payload =
     (let bs = concat (map tag_bytes (drop 2 tags)) @ [hi, lo] @ payload in (be16 bs 0, drop 2 bs))"

lemma dec_vlans_stop: "ety \<noteq> 0x8100 \<Longrightarrow> ety \<noteq> 0x88A8 \<Longrightarrow> dec_vlans n ety bs = Some (ety, bs)"
  by (cases n) simp_all

lemma dec_ethernet_frame:
  assumes "length macs = 12" and "be16 [hi, lo] 0 \<noteq> 0x8100" and "be16 [hi, lo] 0 \<noteq> 0x88A8"
  shows "dec_ethernet (eth_frame macs tags hi lo payload) =
     Some (\<lparr>l2_src_mac = drop 6 macs, l2_dst_mac = take 6 macs, eth_type = fst (after_tags tags hi lo payload)\<rparr>,
           snd (after_tags tags hi lo payload))"
proof -
  let ?bs = "concat (map tag_bytes tags) @ [hi, lo] @ payload"
  have len: "length (tag_bytes t) = 4" for t by (cases t rule: tag_bytes.cases) simp_all
  have two: "2 \<le> length (concat (map tag_bytes ts) @ [hi, lo] @ payload)" for ts by simp
  have hl: "be16 (hi # lo # payload) 0 = be16 [hi, lo] 0" by (simp add: be16_def)
  have "dec_vlans (Suc (Suc 0)) (be16 ?bs 0) (drop 2 ?bs) = Some (after_tags tags hi lo payload)"
  proof (cases tags rule: remdups_adj.cases)
    case 1
    then show ?thesis using assms(2,3) by (simp add: dec_vlans_stop hl after_tags_def del: dec_vlans.simps)
  next
    case (2 t)
    then show ?thesis
      using assms(2,3) dec_vlans_tag [of "Suc 0" t "[hi, lo] @ payload"]
      by (simp add: dec_vlans_stop hl after_tags_def del: dec_vlans.simps)
  next
    case (3 t u ts)
    let ?r = "concat (map tag_bytes ts) @ [hi, lo] @ payload"
    have "dec_vlans (Suc (Suc 0)) (be16 ?bs 0) (drop 2 ?bs) = dec_vlans 0 (be16 ?r 0) (drop 2 ?r)"
      using dec_vlans_tag [of "Suc 0" t "tag_bytes u @ ?r"] dec_vlans_tag [of 0 u ?r] two [of ts] len [of u]
      by (simp add: 3 not_less del: dec_vlans.simps)
    then show ?thesis by (simp add: 3 after_tags_def Let_def)
  qed
  moreover have "be16 (macs @ ?bs) 12 = be16 ?bs 0"
    using assms(1) by (simp add: be16_def nth_append)
  moreover have "drop 14 (macs @ ?bs) = drop 2 ?bs" using assms(1) by simp
  ultimately show ?thesis
    using assms(1) by (simp add: dec_ethernet_def eth_frame_def slice_def numeral_2_eq_2 split_def del: dec_vlans.simps)
qed

lemma options_words:
  assumes "options_ok opts"
  shows "20 + length opts = 4 * (5 + length opts div 4)" and "length opts div 4 \<le> 10"
  using assms by (auto simp: options_ok_def dvd_eq_mod_eq_0 [symmetric])

lemma dec_ipv4_packet:
  assumes "length rest = 8" and "options_ok opts" and "src = (s0, s1, s2, s3)" and "dst = (d0, d1, d2, d3)"
  shows "dec_ipv4 (ipv4_packet rest f1 f2 proto src dst opts payload) =
     Some (\<lparr>l3_src_ip = raw_u32 s0 s1 s2 s3, l3_dst_ip = raw_u32 d0 d1 d2 d3, l3_proto = proto,
            total_len = be16 rest 1, is_fragment = (odd (be_nat f1 f2 div 8192) \<or> be_nat f1 f2 mod 8192 \<noteq> 0)\<rparr>,
           payload)"
proof -
  obtain r0 r1 r2 r3 r4 r5 r6 r7 where rest: "rest = [r0, r1, r2, r3, r4, r5, r6, r7]"
    using assms(1) by (auto simp: length_Suc_conv numeral_eq_Suc)
  define k where "k = length opts div 4"
  have k: "20 + length opts = 4 * (5 + k)" "k \<le> 10" using options_words [OF assms(2)] by (simp_all add: k_def)
  have v: "unat (of_nat (69 + k) :: u8) = 69 + k" using k(2) by (simp only: unat_of_nat) simp
  have "(69 + k) div 16 = 4" "(69 + k) mod 16 = 5 + k" using k(2) by (auto simp: div_nat_eqI mod_nat_eqI)
  moreover have "be16 rest 1 = of_nat (be_nat r1 r2)" by (simp add: be16_def rest)
  moreover have "drop (20 + 4 * k) xs = drop (4 * k) (drop 20 xs)" for xs :: "u8 list"
    by (simp add: add.commute)
  ultimately show ?thesis
    using k v
    by (simp add: ipv4_packet_def rest assms(3,4) dec_ipv4_def be16_def Let_def k_def [symmetric]
             del: of_nat_add of_nat_mult drop_drop)
qed

lemma dec_tcp_segment:
  assumes "length rest = 14" and "options_ok opts"
  shows "dec_tcp (tcp_segment rest (p1, p2) (q1, q2) flags opts payload) =
     Some (\<lparr>l4_src_port = of_nat (be_nat p1 p2), l4_dst_port = of_nat (be_nat q1 q2), l4_flags = flags,
            data_offset = of_nat (5 + length opts div 4) * 4\<rparr>, payload)"
proof -
  obtain r0 r1 r2 r3 r4 r5 r6 r7 r8 r9 r10 r11 r12 r13
    where rest: "rest = [r0, r1, r2, r3, r4, r5, r6, r7, r8, r9, r10, r11, r12, r13]"
    using assms(1) by (auto simp: length_Suc_conv numeral_eq_Suc)
  define k where "k = length opts div 4"
  have k: "20 + length opts = 4 * (5 + k)" "k \<le> 10" using options_words [OF assms(2)] by (simp_all add: k_def)
  have v: "unat (of_nat (16 * (5 + k)) :: u8) = 16 * (5 + k)" using k(2) by (simp only: unat_of_nat) simp
  moreover have "16 * (5 + k) div 16 = 5 + k" by (rule nonzero_mult_div_cancel_left) simp
  moreover have "drop (20 + 4 * k) xs = drop (4 * k) (drop 20 xs)" for xs :: "u8 list"
    by (simp add: add.commute)
  ultimately show ?thesis
    using k
    by (simp add: tcp_segment_def rest dec_tcp_def be16_def Let_def k_def [symmetric]
             del: of_nat_add of_nat_mult drop_drop mult_Suc_right add_mult_distrib2)
qed

section \<open>IPv4 frames by their fields\<close>

record ipv4_fields =
  f_macs :: "u8 list"
  f_tags :: "(vlan_kind \<times> u8 \<times> u8) list"
  f_rest :: "u8 list"
  f_frag :: "u8 \<times> u8"
  f_proto :: u8
  f_src :: "u8 \<times> u8 \<times> u8 \<times> u8"
  f_dst :: "u8 \<times> u8 \<times> u8 \<times> u8"
  f_opts :: "u8 list"
  f_payload :: "u8 list"

definition build :: "ipv4_fields \<Rightarrow> u8 list" where
  "build p = eth_frame (f_macs p) (f_tags p) 0x08 0x00
     (ipv4_packet (f_rest p) (fst (f_frag p)) (snd (f_frag p)) (f_proto p) (f_src p) (f_dst p) (f_opts p) (f_payload p))"

definition fields_ok :: "ipv4_fields \<Rightarrow> bool" where
  "fields_ok p \<longleftrightarrow> length (f_macs p) = 12 \<and> length (f_tags p) \<le> 2 \<and> length (f_rest p) = 8 \<and> options_ok (f_opts p)"

text \<open>The flag \<open>more fragments\<close> is set or the offset is not zero.\<close>

definition fragmented :: "ipv4_fields \<Rightarrow> bool" where
  "fragmented p \<longleftrightarrow> (let n = be_nat (fst (f_frag p)) (snd (f_frag p)) in odd (n div 8192) \<or> n mod 8192 \<noteq> 0)"

fun raw_addr :: "u8 \<times> u8 \<times> u8 \<times> u8 \<Rightarrow> u32" where
  "raw_addr (a, b, c, d) = raw_u32 a b c d"

definition meta_of :: "u64 \<Rightarrow> ipv4_fields \<Rightarrow> rs_FlowPacketMeta" where
  "meta_of now_ns p = (empty_meta now_ns)\<lparr>src_ip := raw_addr (f_src p), dst_ip := raw_addr (f_dst p), protocol := f_proto p\<rparr>"

lemma be16_ipv4: "be16 [0x08, 0x00] 0 = 0x0800"
  by (simp add: be16_def be_nat_def)

lemma build_ethernet:
  assumes "length (f_macs p) = 12"
  shows "dec_ethernet (build p) =
     Some (\<lparr>l2_src_mac = drop 6 (f_macs p), l2_dst_mac = take 6 (f_macs p),
            eth_type = (if length (f_tags p) \<le> 2 then 0x0800 else be16 (tag_bytes (f_tags p ! 2)) 0)\<rparr>,
           snd (after_tags (f_tags p) 0x08 0x00 (ipv4_packet (f_rest p) (fst (f_frag p)) (snd (f_frag p)) (f_proto p)
                  (f_src p) (f_dst p) (f_opts p) (f_payload p))))"
proof -
  have "fst (after_tags tags 0x08 0x00 bs) = (if length tags \<le> 2 then 0x0800 else be16 (tag_bytes (tags ! 2)) 0)"
    for tags :: "(vlan_kind \<times> u8 \<times> u8) list" and bs
  proof (cases "length tags \<le> 2")
    case False
    then have "drop 2 tags = tags ! 2 # drop 3 tags" by (simp add: Cons_nth_drop_Suc [symmetric])
    then show ?thesis
      using False by (cases "tags ! 2" rule: tag_bytes.cases) (simp_all add: after_tags_def Let_def be16_def)
  qed (simp add: after_tags_def Let_def be16_def be_nat_def)
  then show ?thesis
    unfolding build_def using assms by (subst dec_ethernet_frame) (simp_all add: be16_ipv4)
qed

lemma build_ipv4:
  assumes "fields_ok p"
  shows "snd (after_tags (f_tags p) 0x08 0x00 bs) = bs"
    and "dec_ipv4 (ipv4_packet (f_rest p) (fst (f_frag p)) (snd (f_frag p)) (f_proto p) (f_src p) (f_dst p) (f_opts p) (f_payload p)) =
     Some (\<lparr>l3_src_ip = raw_addr (f_src p), l3_dst_ip = raw_addr (f_dst p), l3_proto = f_proto p,
            total_len = be16 (f_rest p) 1, is_fragment = fragmented p\<rparr>, f_payload p)"
proof -
  show "snd (after_tags (f_tags p) 0x08 0x00 bs) = bs"
    using assms by (simp add: after_tags_def fields_ok_def)
  show "dec_ipv4 (ipv4_packet (f_rest p) (fst (f_frag p)) (snd (f_frag p)) (f_proto p) (f_src p) (f_dst p) (f_opts p) (f_payload p)) =
     Some (\<lparr>l3_src_ip = raw_addr (f_src p), l3_dst_ip = raw_addr (f_dst p), l3_proto = f_proto p,
            total_len = be16 (f_rest p) 1, is_fragment = fragmented p\<rparr>, f_payload p)"
    using assms by (cases "f_src p"; cases "f_dst p") (simp add: fields_ok_def dec_ipv4_packet fragmented_def Let_def)
qed

lemma classify_build:
  assumes "fields_ok p"
  shows "classify_frame now_ns (build p) =
     (if fragmented p then Fragment (meta_of now_ns p) else classify_l4 (meta_of now_ns p) (f_payload p))"
  using assms build_ethernet [of p] build_ipv4 [OF assms]
  by (simp add: classify_frame_def classify_ipv4_def meta_of_def Let_def fields_ok_def)

lemma classify_tagged:
  assumes "length (f_macs p) = 12" and "2 < length (f_tags p)"
  shows "classify_frame now_ns (build p) = Other (empty_meta now_ns)"
  using assms build_ethernet [of p]
  by (cases "f_tags p ! 2" rule: tag_bytes.cases)
     (simp_all add: classify_frame_def be16_def be_nat_def Let_def)

end
