(* ===== verification/FirewallProps.thy ===== *)
theory FirewallProps
  imports FrameBuild FirewallMaps
begin

text \<open>
  Properties of the kernel program and of both halves together: memory safety and equality with
  the reference, decoding of frames, enforcement of the policy user space writes, what escapes
  it, dry-run, the bounds of both rate limiters, and the way of a packet into the Go decoder.
\<close>

section \<open>Outcomes\<close>

text \<open>A packet that the static filters reject.\<close>

lemma complete_rejected:
  assumes "ctx_ok ctx" and "classify_frame now_ns (frame ctx) = Complete m"
    and "static_reason aya k m \<noteq> rs_None" and "\<not> dry_run aya k"
  shows "\<exists>d'. ai_ida_firewall aya ctx now_ns k d = Ok (XDP_DROP, d')"
  using assms by (simp add: ai_ida_firewall_eq process_def verdict_def)

lemma malformed_rejected:
  assumes "ctx_ok ctx" and "classify_frame now_ns (frame ctx) = Malformed r m"
    and "r \<noteq> rs_None" and "\<not> dry_run aya k"
  shows "\<exists>d'. ai_ida_firewall aya ctx now_ns k d = Ok (XDP_DROP, d')"
  using assms by (simp add: ai_ida_firewall_eq process_def verdict_def)

lemma static_reason_blacklisted:
  "Reputation_get aya 32 (src_ip m) k = Some 1 \<Longrightarrow> static_reason aya k m \<noteq> rs_None"
  using validate_rfc_not_None [of "src_ip m" "dst_ip m" "protocol m" "tcp_flags m"]
  by (auto simp: static_reason_def split: sum.splits)

lemma classify_l4_cases:
  "(\<exists>m'. classify_l4 m bs = Complete m' \<and> src_ip m' = src_ip m \<and> dst_ip m' = dst_ip m \<and> protocol m' = protocol m) \<or>
   (\<exists>r. classify_l4 m bs = Malformed r m \<and> r \<noteq> rs_None)"
  by (auto simp: classify_l4_def split: option.splits)

text \<open>No unfragmented packet of a blacklisted source gets through.\<close>

lemma blacklisted_dropped:
  assumes "ctx_ok ctx" and "frame ctx = build p" and "fields_ok p" and "\<not> fragmented p"
    and "Reputation_get aya 32 (raw_addr (f_src p)) k = Some 1" and "\<not> dry_run aya k"
  shows "\<exists>d'. ai_ida_firewall aya ctx now_ns k d = Ok (XDP_DROP, d')"
proof -
  have c: "classify_frame now_ns (frame ctx) = classify_l4 (meta_of now_ns p) (f_payload p)"
    using assms(2-4) by (simp add: classify_build)
  consider m' where "classify_l4 (meta_of now_ns p) (f_payload p) = Complete m'" "src_ip m' = src_ip (meta_of now_ns p)"
    | r where "classify_l4 (meta_of now_ns p) (f_payload p) = Malformed r (meta_of now_ns p)" "r \<noteq> rs_None"
    using classify_l4_cases by blast
  then show ?thesis
  proof cases
    case (1 m')
    then have "static_reason aya k m' \<noteq> rs_None"
      using assms(5) by (intro static_reason_blacklisted) (simp add: meta_of_def)
    then show ?thesis using complete_rejected [OF assms(1)] c 1(1) assms(6) by simp
  next
    case (2 r)
    then show ?thesis using malformed_rejected [OF assms(1)] c assms(6) by simp
  qed
qed

section \<open>Examples\<close>

text \<open>A TCP SYN from 203.0.113.7 to port 80 of 203.0.113.8, with a VLAN tag and IP options.\<close>

definition example_syn :: ipv4_fields where
  "example_syn = \<lparr>f_macs = [1, 2, 3, 4, 5, 6, 7, 8, 9, 10, 11, 12], f_tags = [(CTag, 0, 5)],
     f_rest = [0, 0, 44, 0, 1, 64, 0, 0], f_frag = (0x40, 0), f_proto = 6,
     f_src = (203, 0, 113, 7), f_dst = (203, 0, 113, 8), f_opts = [1, 1, 1, 1],
     f_payload = tcp_segment [0, 0, 0, 1, 0, 0, 0, 0, 16, 0, 0, 0, 0, 0] (156, 64) (0, 80) 2 [] [104, 105]\<rparr>"

definition ctx_of :: "ipv4_fields \<Rightarrow> XdpContext" where
  "ctx_of p = \<lparr>ctx_data = 0x10000, frame = build p\<rparr>"

lemma frame_ctx_of [simp]: "frame (ctx_of p) = build p"
  by (simp add: ctx_of_def)

lemma example_syn_ok: "fields_ok example_syn" "\<not> fragmented example_syn" "ctx_ok (ctx_of example_syn)"
  by (simp_all add: fields_ok_def fragmented_def ctx_ok_def ctx_of_def example_syn_def options_ok_def be_nat_def
        build_def eth_frame_def ipv4_packet_def tcp_segment_def)

section \<open>Parsing\<close>

text \<open>
  (C3) The kernel program is memory safe and does what the reference says: on every packet, for
  any contents of the maps and any answer of the ring buffer and the LRU map, no pointer is
  dereferenced outside of the packet, verdict and new state are those of the reference on the
  packet's bytes, and the error branch of the entry point is not taken.
\<close>

theorem firewall_memory_safe:
  assumes "ctx_ok ctx"
  shows "ai_ida_firewall aya ctx now_ns k d = Ok (process aya k now_ns (frame ctx) d) \<and>
         try_ai_ida_firewall aya ctx now_ns k d \<noteq> Err \<and>
         fst (process aya k now_ns (frame ctx) d) \<in> {XDP_PASS, XDP_DROP}"
  using assms by (simp add: ai_ida_firewall_eq try_firewall_eq process_def verdict_def Let_def split: prod.splits)

theorem firewall_memory_safe_witness:
  "ai_ida_firewall kernel_aya (ctx_of example_syn) 7 kernel_boot datapath_boot =
     Ok (process kernel_aya kernel_boot 7 (build example_syn) datapath_boot)"
  using firewall_memory_safe [OF example_syn_ok(3), of kernel_aya 7 kernel_boot datapath_boot] by simp

text \<open>
  (C11) Headers are read back as they were written: from a frame with up to two VLAN tags, IP
  options, TCP options and any payload, the three parsers in turn return the addresses,
  protocol, fragment status, ports and flags of the frame, and leave the cursor at the payload.
\<close>

theorem headers_roundtrip:
  assumes "ctx_ok ctx" and "frame ctx = build p" and "fields_ok p"
    and "f_payload p = tcp_segment rest (p1, p2) (q1, q2) flags opts payload"
    and "length rest = 14" and "options_ok opts"
  shows "\<exists>l2 l3 l4 c1 c2 c3.
           parse_ethernet ctx (Cursor_new ctx) = Ok (l2, c1) \<and> eth_type l2 = eth_types_IPV4 \<and>
           parse_ipv4 ctx c1 = Ok (l3, c2) \<and> l3_src_ip l3 = raw_addr (f_src p) \<and>
           l3_dst_ip l3 = raw_addr (f_dst p) \<and> l3_proto l3 = f_proto p \<and> is_fragment l3 = fragmented p \<and>
           parse_tcp ctx c2 = Ok (l4, c3) \<and> l4_src_port l4 = of_nat (be_nat p1 p2) \<and>
           l4_dst_port l4 = of_nat (be_nat q1 q2) \<and> l4_flags l4 = flags \<and>
           drop (unat (current_offset c3)) (frame ctx) = payload"
proof -
  have p: "length (f_macs p) = 12" "length (f_tags p) \<le> 2" using assms(3) by (simp_all add: fields_ok_def)
  let ?ip = "ipv4_packet (f_rest p) (fst (f_frag p)) (snd (f_frag p)) (f_proto p) (f_src p) (f_dst p) (f_opts p) (f_payload p)"
  obtain l2 c1 where 1: "parse_ethernet ctx (Cursor_new ctx) = Ok (l2, c1)" "eth_type l2 = 0x0800"
      "cur_ok ctx c1" "view ctx c1 = ?ip"
    using followsD(2) [OF parse_ethernet_follows [OF assms(1) Cursor_new_ok(1)]]
      build_ethernet [OF p(1)] p(2) assms(2) by (fastforce simp: build_ipv4(1) [OF assms(3)])
  obtain l3 c2 where 2: "parse_ipv4 ctx c1 = Ok (l3, c2)" "cur_ok ctx c2" "view ctx c2 = f_payload p"
      "l3_src_ip l3 = raw_addr (f_src p)" "l3_dst_ip l3 = raw_addr (f_dst p)" "l3_proto l3 = f_proto p"
      "is_fragment l3 = fragmented p"
    using followsD(2) [OF parse_ipv4_follows [OF assms(1) 1(3)]] build_ipv4(2) [OF assms(3)] 1(4) by fastforce
  obtain l4 c3 where 3: "parse_tcp ctx c2 = Ok (l4, c3)" "view ctx c3 = payload"
      "l4_src_port l4 = of_nat (be_nat p1 p2)" "l4_dst_port l4 = of_nat (be_nat q1 q2)" "l4_flags l4 = flags"
    using followsD(2) [OF parse_tcp_follows [OF assms(1) 2(2)]] dec_tcp_segment [OF assms(5,6)] 2(3) assms(4) by fastforce
  from 3(2) have "drop (unat (current_offset c3)) (frame ctx) = payload" by (simp add: view_def current_offset_def)
  with 1 2 3 show ?thesis by (auto simp: guards)
qed

theorem headers_roundtrip_witness:
  "\<exists>l2 l3 l4 c1 c2 c3.
     parse_ethernet (ctx_of example_syn) (Cursor_new (ctx_of example_syn)) = Ok (l2, c1) \<and> eth_type l2 = eth_types_IPV4 \<and>
     parse_ipv4 (ctx_of example_syn) c1 = Ok (l3, c2) \<and> l3_src_ip l3 = raw_u32 203 0 113 7 \<and>
     parse_tcp (ctx_of example_syn) c2 = Ok (l4, c3) \<and> l4_dst_port l4 = 80 \<and> l4_flags l4 = 2 \<and>
     drop (unat (current_offset c3)) (build example_syn) = [104, 105]"
proof -
  have "f_payload example_syn = tcp_segment [0, 0, 0, 1, 0, 0, 0, 0, 16, 0, 0, 0, 0, 0] (156, 64) (0, 80) 2 [] [104, 105]"
    by (simp add: example_syn_def)
  from headers_roundtrip [OF example_syn_ok(3) frame_ctx_of example_syn_ok(1) this]
  obtain l2 l3 l4 c1 c2 c3 where
    "parse_ethernet (ctx_of example_syn) (Cursor_new (ctx_of example_syn)) = Ok (l2, c1)" "eth_type l2 = eth_types_IPV4"
    "parse_ipv4 (ctx_of example_syn) c1 = Ok (l3, c2)" "l3_src_ip l3 = raw_u32 203 0 113 7"
    "parse_tcp (ctx_of example_syn) c2 = Ok (l4, c3)" "l4_dst_port l4 = of_nat (be_nat 0 80)" "l4_flags l4 = 2"
    "drop (unat (current_offset c3)) (build example_syn) = [104, 105]"
    by (auto simp: options_ok_def example_syn_def)
  then show ?thesis by (auto simp: be_nat_def)
qed

section \<open>Enforcement\<close>

lemma static_reason_port:
  assumes "is_port_blocked (\<lambda>i. PortGate_get aya i k) (protocol m) (dst_port m) (tcp_flags m)"
  shows "static_reason aya k m \<noteq> rs_None"
  using assms validate_rfc_not_None [of "src_ip m" "dst_ip m" "protocol m" "tcp_flags m"]
  by (auto simp: static_reason_def split: sum.splits)

text \<open>The metadata of a TCP packet.\<close>

lemma classify_tcp:
  assumes "fields_ok p" and "\<not> fragmented p" and "f_proto p = 6"
    and "f_payload p = tcp_segment rest (p1, p2) (q1, q2) flags opts payload"
    and "length rest = 14" and "options_ok opts"
  shows "classify_frame now_ns (build p) =
     Complete ((meta_of now_ns p)\<lparr>src_port := of_nat (be_nat p1 p2), dst_port := of_nat (be_nat q1 q2), tcp_flags := flags\<rparr>)"
  using assms dec_tcp_segment [OF assms(5,6), of p1 p2 q1 q2 flags payload]
  by (simp add: classify_build classify_l4_def meta_of_def)

text \<open>
  (C4) Blocking works: after \<open>BlockIP\<close> has succeeded for a CIDR string, in enforce mode, the kernel
  program drops every unfragmented IPv4 packet whose source lies in that prefix, whatever its
  protocol, options, tags and payload, and whatever else is blocked.
\<close>

theorem blocked_prefix_dropped:
  assumes "xdp_maps api contents key_size value_size opened aya rep gate cfg"
    and "reputationMap mgr = Some rep" and "NewLpmKey cidr = Inr key"
    and "BlockIP api mgr cidr s = (None, s')"
    and "\<forall>e v. contents rep s e = Some v \<longrightarrow> v = VU32 1"
    and "contents cfg s' (VU32 1) \<noteq> Some (VU32 1)"
    and "ctx_ok ctx" and "frame ctx = build p" and "fields_ok p" and "\<not> fragmented p"
    and "lpm_key (PrefixLen key) (raw_addr (f_src p)) = norm_key (VLpm key)"
  shows "\<exists>d'. ai_ida_firewall aya ctx now_ns s' d = Ok (XDP_DROP, d')"
proof (rule blacklisted_dropped [OF assms(7-10)])
  show "Reputation_get aya 32 (raw_addr (f_src p)) s' = Some 1"
    by (rule xdp_maps.BlockIP_covers [OF assms(1-4) _ assms(11)]) (use assms(5) in blast)
  show "\<not> dry_run aya s'" using xdp_maps.dry_run_contents [OF assms(1)] assms(6) by blast
qed

abbreviation "example_net \<equiv> dotted 203 0 113 0 @ ''/'' @ dec_string 24"

lemma example_net_key: "NewLpmKey example_net = Inr \<lparr>PrefixLen = of_nat 24, KeyAddr = [203, 0, 113, 0]\<rparr>"
  by (rule NewLpmKey_prefix) simp

lemma kernel_block_example:
  "\<exists>s. BlockIP kernel_api kernel_mgr example_net kernel_boot = (None, s) \<and>
     k_contents CONFIG_MAP s = k_contents CONFIG_MAP kernel_boot"
proof -
  have "fst (BlockIP kernel_api kernel_mgr example_net kernel_boot) = None"
    unfolding BlockIP_def example_net_key
    by (simp add: put_wrap_def kernel_mgr_def kernel_api_def k_put_def REPUTATION_MAP_def map_full_def
          kernel_boot_def)
  then obtain s where "BlockIP kernel_api kernel_mgr example_net kernel_boot = (None, s)" by (metis prod.collapse)
  then show ?thesis
    using kern.BlockIP_effect [of kernel_mgr REPUTATION_MAP _ _ CONFIG_MAP kernel_boot, OF _ example_net_key]
    by (simp add: kernel_mgr_def CONFIG_MAP_def REPUTATION_MAP_def)
qed

theorem blocked_prefix_dropped_witness:
  "\<exists>s d'. BlockIP kernel_api kernel_mgr example_net kernel_boot = (None, s) \<and>
     ai_ida_firewall kernel_aya (ctx_of example_syn) 7 s datapath_boot = Ok (XDP_DROP, d')"
proof -
  obtain s where s: "BlockIP kernel_api kernel_mgr example_net kernel_boot = (None, s)"
    "k_contents CONFIG_MAP s = k_contents CONFIG_MAP kernel_boot" using kernel_block_example by blast
  have "\<exists>d'. ai_ida_firewall kernel_aya (ctx_of example_syn) 7 s datapath_boot = Ok (XDP_DROP, d')"
  proof (rule blocked_prefix_dropped [OF xdp_contract _ example_net_key s(1) _ _ example_syn_ok(3) frame_ctx_of example_syn_ok(1,2)])
    show "reputationMap kernel_mgr = Some REPUTATION_MAP" by (simp add: kernel_mgr_def)
    show "\<forall>e v. k_contents REPUTATION_MAP kernel_boot e = Some v \<longrightarrow> v = VU32 1"
      by (simp add: k_contents_def kernel_boot_def REPUTATION_MAP_def)
    show "k_contents CONFIG_MAP s (VU32 1) \<noteq> Some (VU32 1)"
      unfolding s(2) by (simp add: k_contents_def kernel_boot_def CONFIG_MAP_def zero_val_def)
    have "CIDRMask 24 32 = [255, 255, 255, 0]" by code_simp
    then show "lpm_key (PrefixLen \<lparr>PrefixLen = of_nat 24, KeyAddr = [203, 0, 113, 0]\<rparr>) (raw_addr (f_src example_syn)) =
        norm_key (VLpm \<lparr>PrefixLen = of_nat 24, KeyAddr = [203, 0, 113, 0]\<rparr>)"
      by (simp add: lpm_key_def example_syn_def)
  qed
  with s(1) show ?thesis by blast
qed

text \<open>
  (C19) The port gate: after \<open>BlockPort\<close> has succeeded for a port other than 0, in enforce mode, every
  unfragmented TCP packet to that port with SYN and without ACK is dropped, while the gate has
  no objection to packets of the port without SYN or with ACK, nor to datagrams from 32768 up.
\<close>

theorem blocked_port_dropped:
  assumes "xdp_maps api contents key_size value_size opened aya rep gate cfg"
    and "portGateMap mgr = Some gate" and "BlockPort api mgr port s = (None, s')" and "port \<noteq> 0"
    and "contents cfg s' (VU32 1) \<noteq> Some (VU32 1)"
    and "ctx_ok ctx" and "frame ctx = build p" and "fields_ok p" and "\<not> fragmented p" and "f_proto p = 6"
    and "f_payload p = tcp_segment rest (p1, p2) (q1, q2) flags opts payload"
    and "length rest = 14" and "options_ok opts" and "port = of_nat (be_nat q1 q2)"
    and "bit flags 1" and "\<not> bit flags 4"
  shows "(\<exists>d'. ai_ida_firewall aya ctx now_ns s' d = Ok (XDP_DROP, d')) \<and>
         (\<not> bit f 1 \<or> bit f 4 \<longrightarrow> \<not> is_port_blocked (\<lambda>i. PortGate_get aya i s') 6 port f) \<and>
         (32768 \<le> port \<longrightarrow> \<not> is_port_blocked (\<lambda>i. PortGate_get aya i s') 17 port f)"
proof -
  have "\<not> dry_run aya s'" using xdp_maps.dry_run_contents [OF assms(1)] assms(5) by blast
  moreover have "PortGate_get aya (ucast port) s' = Some 2" by (rule xdp_maps.BlockPort_gate [OF assms(1-3)])
  then have "is_port_blocked (\<lambda>i. PortGate_get aya i s') 6 port flags"
    using assms(4,15,16) by (simp add: is_port_blocked_iff)
  then have "static_reason aya s' ((meta_of now_ns p)\<lparr>src_port := of_nat (be_nat p1 p2),
      dst_port := of_nat (be_nat q1 q2), tcp_flags := flags\<rparr>) \<noteq> rs_None"
    using assms(10,14) by (intro static_reason_port) (simp add: meta_of_def)
  ultimately have "\<exists>d'. ai_ida_firewall aya ctx now_ns s' d = Ok (XDP_DROP, d')"
    by (intro complete_rejected [OF assms(6) classify_tcp [OF assms(8-13), folded assms(7)]])
  then show ?thesis by (auto simp: is_port_blocked_iff)
qed

theorem blocked_port_dropped_witness:
  "\<exists>s d'. BlockPort kernel_api kernel_mgr 80 kernel_boot = (None, s) \<and>
     ai_ida_firewall kernel_aya (ctx_of example_syn) 7 s datapath_boot = Ok (XDP_DROP, d') \<and>
     \<not> is_port_blocked (\<lambda>i. PortGate_get kernel_aya i s) 6 80 0x12"
proof -
  obtain s where s: "BlockPort kernel_api kernel_mgr 80 kernel_boot = (None, s)"
    by (simp add: BlockPort_def put_wrap_def kernel_mgr_def kernel_api_def k_put_def PORT_GATE_MAP_def
          k_contents_def kernel_boot_def)
  have pay: "f_payload example_syn = tcp_segment [0, 0, 0, 1, 0, 0, 0, 0, 16, 0, 0, 0, 0, 0] (156, 64) (0, 80) 2 [] [104, 105]"
    by (simp add: example_syn_def)
  have "(\<exists>d'. ai_ida_firewall kernel_aya (ctx_of example_syn) 7 s datapath_boot = Ok (XDP_DROP, d')) \<and>
      (\<not> bit (0x12 :: u8) 1 \<or> bit (0x12 :: u8) 4 \<longrightarrow> \<not> is_port_blocked (\<lambda>i. PortGate_get kernel_aya i s) 6 80 0x12) \<and>
      (32768 \<le> (80 :: u16) \<longrightarrow> \<not> is_port_blocked (\<lambda>i. PortGate_get kernel_aya i s) 17 80 0x12)"
  proof (rule blocked_port_dropped [OF xdp_contract _ s _ _ example_syn_ok(3) frame_ctx_of example_syn_ok(1,2) _ pay])
    have "k_contents CONFIG_MAP s = k_contents CONFIG_MAP kernel_boot"
      using kern.put_wrap_ok [of PORT_GATE_MAP _ _ _ kernel_boot s CONFIG_MAP] s
      by (simp add: BlockPort_def kernel_mgr_def CONFIG_MAP_def PORT_GATE_MAP_def)
    then show "k_contents CONFIG_MAP s (VU32 1) \<noteq> Some (VU32 1)"
      by (simp add: k_contents_def kernel_boot_def CONFIG_MAP_def zero_val_def)
  qed (simp_all add: kernel_mgr_def example_syn_def options_ok_def be_nat_def)
  moreover have "bit (0x12 :: u8) 4" by simp
  ultimately show ?thesis using s by blast
qed

text \<open>
  (C8) What escapes the policy: whatever the maps contain, a fragment (of any offset, also the
  first one) from a source without a bucket passes, and so does every frame with more than two
  VLAN tags, although neither blacklist, port gate nor flag checks have seen it.
\<close>

theorem unfiltered_packets:
  assumes "ctx_ok ctx" and "frame ctx = build p" and "length (f_macs p) = 12"
    and "fields_ok p \<and> fragmented p \<and> go_get (rates d) (raw_addr (f_src p)) = None \<or> 2 < length (f_tags p)"
  shows "\<exists>d'. ai_ida_firewall aya ctx now_ns k d = Ok (XDP_PASS, d')"
  using assms(4)
proof
  assume p: "fields_ok p \<and> fragmented p \<and> go_get (rates d) (raw_addr (f_src p)) = None"
  then have "classify_frame now_ns (frame ctx) = Fragment (meta_of now_ns p)"
    using assms(2) by (simp add: classify_build)
  moreover have "fst (judge_rate aya now_ns (meta_of now_ns p) d) = rs_None"
    using p by (simp add: judge_rate_def rate_limited_def check_rate_limit_def meta_of_def)
  ultimately show ?thesis
    using assms(1) by (auto simp: ai_ida_firewall_eq process_def verdict_def split: prod.splits)
next
  assume "2 < length (f_tags p)"
  then show ?thesis
    using assms(1-3) by (simp add: ai_ida_firewall_eq process_def verdict_def classify_tagged)
qed

text \<open>The example as the first fragment of a packet, and behind three tags.\<close>

definition example_fragment :: ipv4_fields where
  "example_fragment = example_syn\<lparr>f_frag := (0x20, 0)\<rparr>"

definition example_tagged :: ipv4_fields where
  "example_tagged = example_syn\<lparr>f_tags := [(STag, 0, 1), (CTag, 0, 2), (CTag, 0, 3)]\<rparr>"

lemma example_fragment_ok:
  "fields_ok example_fragment" "fragmented example_fragment" "ctx_ok (ctx_of example_fragment)" "ctx_ok (ctx_of example_tagged)"
  by (simp_all add: fields_ok_def fragmented_def ctx_ok_def ctx_of_def example_fragment_def example_tagged_def
        example_syn_def options_ok_def be_nat_def build_def eth_frame_def ipv4_packet_def tcp_segment_def)

theorem unfiltered_packets_witness:
  "\<exists>s d1 d2 d3. BlockIP kernel_api kernel_mgr example_net kernel_boot = (None, s) \<and>
     ai_ida_firewall kernel_aya (ctx_of example_fragment) 7 s datapath_boot = Ok (XDP_PASS, d1) \<and>
     ai_ida_firewall kernel_aya (ctx_of example_tagged) 7 s d2 = Ok (XDP_PASS, d3)"
proof -
  obtain s where "BlockIP kernel_api kernel_mgr example_net kernel_boot = (None, s)"
    using kernel_block_example by blast
  moreover obtain d1 where "ai_ida_firewall kernel_aya (ctx_of example_fragment) 7 s datapath_boot = Ok (XDP_PASS, d1)"
    using unfiltered_packets [OF example_fragment_ok(3) frame_ctx_of, of datapath_boot kernel_aya 7 s] example_fragment_ok
    by (auto simp: fields_ok_def datapath_boot_def)
  moreover obtain d3 where "ai_ida_firewall kernel_aya (ctx_of example_tagged) 7 s datapath_boot = Ok (XDP_PASS, d3)"
    using unfiltered_packets [OF example_fragment_ok(4) frame_ctx_of, of datapath_boot kernel_aya 7 s]
    by (auto simp: example_tagged_def example_syn_def)
  ultimately show ?thesis by blast
qed

section \<open>Telemetry\<close>

text \<open>What a packet adds to the ring buffer.\<close>

lemma process_ring:
  assumes "xdp_maps api contents key_size value_size opened aya rep gate cfg"
    and "process aya k now_ns bs d = (act, d')"
  shows "\<exists>r. act = verdict aya k r \<and>
           (ring d' = ring d \<or>
            ring d' = ring d @ [rs_wire (event_of aya k now_ns r (packet_meta (classify_frame now_ns bs)))])"
proof -
  let ?c = "classify_frame now_ns bs"
  obtain r d1 where j: "judge aya now_ns k ?c d = (r, d1)" by (cases "judge aya now_ns k ?c d")
  then have act: "act = verdict aya k r" and d': "d' = log_event aya k now_ns r (packet_meta ?c) d1"
    using assms(2) by (simp_all add: process_def Let_def)
  have "ring d1 = ring d"
    using j by (cases ?c) (auto simp: judge_rate_def rate_limited_def split: prod.splits if_splits)
  then have "ring d' = ring d \<or> ring d' = ring d @ [rs_wire (event_of aya k now_ns r (packet_meta ?c))]"
    unfolding d' log_event_def
    using xdp_maps.events_output [OF assms(1), of "rs_wire (event_of aya k now_ns r (packet_meta ?c))" "ring d"]
    by (auto split: prod.splits)
  with act show ?thesis by blast
qed

text \<open>
  What the two modes leave behind for one packet with reason \<open>r\<close>: \<open>d0\<close> in enforce mode and \<open>d1\<close> in
  dry-run, from a ring buffer \<open>old\<close> and with records that are \<open>e\<close> but for the action.
\<close>

definition both_modes ::
    "'k aya \<Rightarrow> rs_DropReason \<Rightarrow> rs_FlowPacketMeta \<Rightarrow> u8 list list \<Rightarrow> datapath \<Rightarrow> datapath \<Rightarrow> bool" where
  "both_modes aya r e old d0 d1 \<longleftrightarrow>
     rates d1 = rates d0 \<and> log_slot d1 = log_slot d0 \<and>
     (ring d0 = old \<or>
      ring d0 = old @ [rs_wire (e\<lparr>action := rs_Action_u8 (if r = rs_None then rs_Pass else rs_Drop)\<rparr>)]) \<and>
     (ring d1 = old \<or>
      ring d1 = old @ [rs_wire (e\<lparr>action := rs_Action_u8 (if r = rs_None then rs_Pass else rs_WouldDrop)\<rparr>)]) \<and>
     ((\<forall>w w'. length w = length w' \<longrightarrow> (Events_output aya w old = old \<longleftrightarrow> Events_output aya w' old = old)) \<longrightarrow>
      (ring d1 = old \<longleftrightarrow> ring d0 = old))"

lemma log_event_modes:
  assumes "xdp_maps api contents key_size value_size opened aya rep gate cfg"
    and "reported aya s1 r \<longleftrightarrow> reported aya s0 r" and "dry_run aya s1" and "\<not> dry_run aya s0" and "ring d = old"
  shows "\<exists>e. timestamp_ns e = now_ns \<and> drop_reason e = rs_DropReason_u8 r \<and>
    both_modes aya r e old (log_event aya s0 now_ns r m d) (log_event aya s1 now_ns r m d)"
proof -
  define e where "e = m\<lparr>drop_reason := rs_DropReason_u8 r, timestamp_ns := now_ns\<rparr>"
  have e0: "event_of aya s0 now_ns r m = e\<lparr>action := rs_Action_u8 (if r = rs_None then rs_Pass else rs_Drop)\<rparr>"
    and e1: "event_of aya s1 now_ns r m = e\<lparr>action := rs_Action_u8 (if r = rs_None then rs_Pass else rs_WouldDrop)\<rparr>"
    by (simp_all add: event_of_def e_def assms(3,4))
  obtain w0 w1 where w: "rs_wire (e\<lparr>action := rs_Action_u8 (if r = rs_None then rs_Pass else rs_Drop)\<rparr>) = w0"
    "rs_wire (e\<lparr>action := rs_Action_u8 (if r = rs_None then rs_Pass else rs_WouldDrop)\<rparr>) = w1"
    and len: "length w1 = length w0" by (simp add: rs_wire_length)
  define sized where "sized \<longleftrightarrow>
    (\<forall>w w'. length w = length w' \<longrightarrow> (Events_output aya w old = old \<longleftrightarrow> Events_output aya w' old = old))"
  have sized: "sized \<Longrightarrow> Events_output aya w1 old = old \<longleftrightarrow> Events_output aya w0 old = old"
    unfolding sized_def using len by blast
  have "both_modes aya r e old (log_event aya s0 now_ns r m d) (log_event aya s1 now_ns r m d)"
    unfolding both_modes_def log_event_def e0 e1 w assms(2,5) sized_def [symmetric]
    using xdp_maps.events_output [OF assms(1), of w0 old] xdp_maps.events_output [OF assms(1), of w1 old] sized assms(5)
    by (cases "check_log_rate_limit now_ns (log_slot d)") (auto split: if_splits)
  then show ?thesis by (intro exI [where x = e]) (simp add: e_def)
qed

text \<open>
  (C13) Dry-run shows what enforcement would do and does none of it.  Compare one packet on one
  state of the CPU after \<open>SetDryRun\<close> with \<open>true\<close> and after \<open>SetDryRun\<close> with \<open>false\<close>, all else equal:
  with \<open>true\<close> the packet passes; buckets and log limiter end up the same; and the records the two
  modes write agree in everything, the reason included, but the action: where enforcement drops
  the packet, with a reason, the dry-run record says would-drop instead of drop, and where
  enforcement passes it both say pass without a reason.  If the ring buffer accepts a record by
  its length alone, then one mode writes a record if and only if the other does.  The entries of
  the reputation map are those \<open>BlockIP\<close> writes, and the configuration map is not the reputation
  map or the port gate.
\<close>

theorem dry_run_passes:
  assumes "xdp_maps api contents key_size value_size opened aya rep gate cfg"
    and "configMap mgr = Some cfg" and "rep \<noteq> cfg" and "gate \<noteq> cfg"
    and "\<forall>e v. contents rep s e = Some v \<longrightarrow> v = VU32 1"
    and "SetDryRun api mgr True s = (None, s1)" and "SetDryRun api mgr False s = (None, s0)" and "ctx_ok ctx"
  shows "\<exists>act r e d0 d1.
    ai_ida_firewall aya ctx now_ns s0 d = Ok (act, d0) \<and> ai_ida_firewall aya ctx now_ns s1 d = Ok (XDP_PASS, d1) \<and>
    act = (if r = rs_None then XDP_PASS else XDP_DROP) \<and>
    rates d1 = rates d0 \<and> log_slot d1 = log_slot d0 \<and> timestamp_ns e = now_ns \<and> drop_reason e = rs_DropReason_u8 r \<and>
    (ring d0 = ring d \<or>
     ring d0 = ring d @ [rs_wire (e\<lparr>action := rs_Action_u8 (if r = rs_None then rs_Pass else rs_Drop)\<rparr>)]) \<and>
    (ring d1 = ring d \<or>
     ring d1 = ring d @ [rs_wire (e\<lparr>action := rs_Action_u8 (if r = rs_None then rs_Pass else rs_WouldDrop)\<rparr>)]) \<and>
    ((\<forall>w w'. length w = length w' \<longrightarrow>
        (Events_output aya w (ring d) = ring d \<longleftrightarrow> Events_output aya w' (ring d) = ring d)) \<longrightarrow>
     (ring d1 = ring d \<longleftrightarrow> ring d0 = ring d))"
proof -
  note frame1 = xdp_maps.SetDryRun_frame [OF assms(1,2,6)] and frame0 = xdp_maps.SetDryRun_frame [OF assms(1,2,7)]
  have dry: "dry_run aya s1" "\<not> dry_run aya s0"
    using xdp_maps.SetDryRun_dry_run [OF assms(1,2)] assms(6,7) by blast+
  let ?c = "classify_frame now_ns (frame ctx)"
  obtain r d' where j: "judge aya now_ns s ?c d = (r, d')" by (cases "judge aya now_ns s ?c d")
  have j1: "judge aya now_ns s1 ?c d = (r, d')" "judge aya now_ns s0 ?c d = (r, d')"
    using xdp_maps.judge_contents [OF assms(1) frame1(1) [OF assms(3)] _ frame1(1) [OF assms(4)]]
      xdp_maps.judge_contents [OF assms(1) frame0(1) [OF assms(3)] _ frame0(1) [OF assms(4)]] j assms(5)
    by simp_all
  have ring: "ring d' = ring d"
    using j by (cases ?c) (auto simp: judge_rate_def rate_limited_def split: prod.splits if_splits)
  have "reported aya s1 r \<longleftrightarrow> reported aya s0 r" by (simp add: reported_def frame1(2) frame0(2))
  from log_event_modes [OF assms(1) this dry ring, of now_ns "packet_meta ?c"] obtain e where e:
    "timestamp_ns e = now_ns" "drop_reason e = rs_DropReason_u8 r"
    "both_modes aya r e (ring d) (log_event aya s0 now_ns r (packet_meta ?c) d')
       (log_event aya s1 now_ns r (packet_meta ?c) d')" by blast
  have run: "ai_ida_firewall aya ctx now_ns s1 d = Ok (XDP_PASS, log_event aya s1 now_ns r (packet_meta ?c) d')"
    "ai_ida_firewall aya ctx now_ns s0 d =
       Ok (if r = rs_None then XDP_PASS else XDP_DROP, log_event aya s0 now_ns r (packet_meta ?c) d')"
    by (simp_all add: ai_ida_firewall_eq [OF assms(8)] process_def Let_def j1 verdict_def dry)
  from run e show ?thesis unfolding both_modes_def by blast
qed

theorem dry_run_passes_witness:
  "\<exists>s s1 s0 d1 d0. BlockIP kernel_api kernel_mgr example_net kernel_boot = (None, s) \<and>
     SetDryRun kernel_api kernel_mgr True s = (None, s1) \<and> SetDryRun kernel_api kernel_mgr False s = (None, s0) \<and>
     ai_ida_firewall kernel_aya (ctx_of example_syn) 7 s1 datapath_boot = Ok (XDP_PASS, d1) \<and>
     (\<exists>act. ai_ida_firewall kernel_aya (ctx_of example_syn) 7 s0 datapath_boot = Ok (act, d0)) \<and>
     rates d1 = rates d0 \<and> log_slot d1 = log_slot d0"
proof -
  obtain s where s: "BlockIP kernel_api kernel_mgr example_net kernel_boot = (None, s)"
    "k_contents CONFIG_MAP s = k_contents CONFIG_MAP kernel_boot"
    using kernel_block_example by blast
  have "k_contents CONFIG_MAP s (VU32 1) \<noteq> None"
    unfolding s(2) by (simp add: k_contents_def kernel_boot_def CONFIG_MAP_def)
  then have "fst (SetDryRun kernel_api kernel_mgr flag s) = None" for flag
    by (simp add: SetDryRun_def put_wrap_def kernel_mgr_def kernel_api_def k_put_def CONFIG_MAP_def)
  then obtain s1 s0 where s10: "SetDryRun kernel_api kernel_mgr True s = (None, s1)"
    "SetDryRun kernel_api kernel_mgr False s = (None, s0)" by (metis prod.collapse)
  have mgr: "configMap kernel_mgr = Some CONFIG_MAP" "reputationMap kernel_mgr = Some REPUTATION_MAP"
    by (simp_all add: kernel_mgr_def)
  have ne: "REPUTATION_MAP \<noteq> CONFIG_MAP" "PORT_GATE_MAP \<noteq> CONFIG_MAP"
    by (simp_all add: REPUTATION_MAP_def CONFIG_MAP_def PORT_GATE_MAP_def)
  have "k_contents REPUTATION_MAP kernel_boot e = None" for e
    by (simp add: k_contents_def kernel_boot_def REPUTATION_MAP_def)
  then have one: "\<forall>e v. k_contents REPUTATION_MAP s e = Some v \<longrightarrow> v = VU32 1"
    using kern.BlockIP_ok [OF mgr(2) s(1), of REPUTATION_MAP] by (auto split: if_splits)
  show ?thesis
    using dry_run_passes [OF xdp_contract mgr(1) ne one s10 example_syn_ok(3), where now_ns = 7 and d = datapath_boot]
  proof (elim exE conjE)
    fix act d0 d1
    assume "ai_ida_firewall kernel_aya (ctx_of example_syn) 7 s0 datapath_boot = Ok (act, d0)"
      "ai_ida_firewall kernel_aya (ctx_of example_syn) 7 s1 datapath_boot = Ok (XDP_PASS, d1)"
      "rates d1 = rates d0" "log_slot d1 = log_slot d0"
    with s(1) s10 show ?thesis by blast
  qed
qed

text \<open>
  (C10) From the wire to the control plane: the record the kernel program writes for a TCP packet
  is decoded by \<open>UnmarshalBinary\<close> into the packet's own addresses, ports, protocol and flags with
  the time of arrival, and its action tells what happened to the packet.
\<close>

theorem packet_to_telemetry:
  assumes "xdp_maps api contents key_size value_size opened aya rep gate cfg"
    and "ctx_ok ctx" and "frame ctx = build p" and "fields_ok p" and "\<not> fragmented p" and "f_proto p = 6"
    and "f_src p = (s0, s1, s2, s3)" and "f_dst p = (d0, d1, d2, d3)"
    and "f_payload p = tcp_segment rest (p1, p2) (q1, q2) flags opts payload"
    and "length rest = 14" and "options_ok opts"
    and "ai_ida_firewall aya ctx now_ns k d = Ok (act, d')" and "ring d' = ring d @ [w]"
  shows "\<exists>m. UnmarshalBinary prev w = Inr m \<and>
           SrcIPNet m = IPv4 s0 s1 s2 s3 \<and> DstIPNet m = IPv4 d0 d1 d2 d3 \<and>
           SrcPort m = of_nat (be_nat p1 p2) \<and> DstPort m = of_nat (be_nat q1 q2) \<and>
           Protocol m = 6 \<and> TCPFlags m = flags \<and> TimestampNS m = now_ns \<and>
           (m_Action m = ActionDrop \<longleftrightarrow> act = XDP_DROP) \<and>
           (m_Action m = ActionPass \<longleftrightarrow> m_DropReason m = DropReasonNone)"
proof -
  let ?m = "(meta_of now_ns p)\<lparr>src_port := of_nat (be_nat p1 p2), dst_port := of_nat (be_nat q1 q2), tcp_flags := flags\<rparr>"
  have "process aya k now_ns (frame ctx) d = (act, d')" using assms(12) by (simp add: ai_ida_firewall_eq [OF assms(2)])
  then obtain r where r: "act = verdict aya k r" "w = rs_wire (event_of aya k now_ns r ?m)"
    using process_ring [OF assms(1)] classify_tcp [OF assms(4-6,9-11)] assms(3,13) by fastforce
  let ?e = "event_of aya k now_ns r ?m"
  have e: "src_ip ?e = raw_u32 s0 s1 s2 s3" "dst_ip ?e = raw_u32 d0 d1 d2 d3"
    by (simp_all add: event_of_def meta_of_def assms(7,8))
  have len: "\<not> length (rs_wire ?e) < 24" by (simp add: rs_wire_length)
  note fields = rs_wire_fields [where rest = "[]", unfolded append_Nil2]
  have r0: "rs_DropReason_u8 r = 0 \<longleftrightarrow> r = rs_None" by (cases r) simp_all
  show ?thesis
    unfolding r(2) UnmarshalBinary_def fields e le_bytes32_raw using len r(1) r0
    by (simp add: SrcIPNet_def DstIPNet_def be_u32_octets event_of_def meta_of_def assms(6) verdict_def guards)
qed

text \<open>Maps without entries but for the log level, DEBUG.\<close>

definition verbose_kernel :: kernel where
  "verbose_kernel = kernel_boot\<lparr>entries := [((CONFIG_MAP, VU32 0), VU32 1)]\<rparr>"

lemma verbose_kernel_config: "k_config 0 verbose_kernel = Some 1" "k_config 1 verbose_kernel = Some 0"
  by (simp_all add: k_config_def k_contents_def verbose_kernel_def kernel_boot_def CONFIG_MAP_def zero_val_def)

lemma verbose_kernel_policy: "k_lpm 32 ip verbose_kernel = None" "k_gate 80 verbose_kernel = Some 0"
proof -
  show "k_lpm 32 ip verbose_kernel = None"
    by (rule k_lpm_miss)
       (simp add: k_contents_def verbose_kernel_def kernel_boot_def CONFIG_MAP_def REPUTATION_MAP_def)
  show "k_gate 80 verbose_kernel = Some 0"
    by (simp add: k_gate_def k_contents_def verbose_kernel_def kernel_boot_def CONFIG_MAP_def PORT_GATE_MAP_def zero_val_def)
qed

lemma example_syn_payload:
  "f_payload example_syn = tcp_segment [0, 0, 0, 1, 0, 0, 0, 0, 16, 0, 0, 0, 0, 0] (156, 64) (0, 80) 2 [] [104, 105]"
  by (simp add: example_syn_def)

lemma example_syn_class:
  "classify_frame now_ns (build example_syn) =
     Complete ((meta_of now_ns example_syn)\<lparr>src_port := of_nat (be_nat 156 64), dst_port := of_nat (be_nat 0 80), tcp_flags := 2\<rparr>)"
  by (rule classify_tcp [OF example_syn_ok(1,2) _ example_syn_payload]) (simp_all add: example_syn_def options_ok_def)

lemma example_syn_clean:
  "static_reason kernel_aya verbose_kernel
     ((meta_of now_ns example_syn)\<lparr>src_port := of_nat (be_nat 156 64), dst_port := of_nat (be_nat 0 80), tcp_flags := 2\<rparr>) = rs_None"
proof -
  have "validate_rfc_invariants (raw_u32 203 0 113 7) (raw_u32 203 0 113 8) 6 2 = Inr ()"
    unfolding validate_rfc_iff by (auto simp: numeral_eq_Suc intro: exI [of _ "Suc 0"])
  then show ?thesis
    by (simp add: static_reason_def meta_of_def example_syn_def verbose_kernel_policy is_port_blocked_iff be_nat_def)
qed

lemma example_syn_logged:
  "\<exists>d' w. ai_ida_firewall kernel_aya (ctx_of example_syn) 1000000 verbose_kernel datapath_boot = Ok (XDP_PASS, d') \<and>
     ring d' = ring datapath_boot @ [w]"
proof -
  have "reported kernel_aya verbose_kernel rs_None"
    by (simp add: reported_def verbose_kernel_config rs_severity_def)
  moreover have "fst (check_log_rate_limit 1000000 (log_slot datapath_boot))"
    by (simp add: check_log_rate_limit_def datapath_boot_def take_token_def saturating_sub_def Let_def guards)
  ultimately show ?thesis
    using example_syn_clean
    by (auto simp: ai_ida_firewall_eq [OF example_syn_ok(3)] process_def example_syn_class judge_rate_def
          rate_limited_def check_rate_limit_def datapath_boot_def verdict_def log_event_def k_output_def EVENTS_def
          split: prod.splits)
qed

theorem packet_to_telemetry_witness:
  "\<exists>d' w m prev. ai_ida_firewall kernel_aya (ctx_of example_syn) 1000000 verbose_kernel datapath_boot = Ok (XDP_PASS, d') \<and>
     ring d' = ring datapath_boot @ [w] \<and> UnmarshalBinary prev w = Inr m \<and>
     SrcIPNet m = IPv4 203 0 113 7 \<and> DstPort m = 80 \<and> TCPFlags m = 2 \<and> m_Action m \<noteq> ActionDrop"
proof -
  obtain d' w where run: "ai_ida_firewall kernel_aya (ctx_of example_syn) 1000000 verbose_kernel datapath_boot = Ok (XDP_PASS, d')"
    and w: "ring d' = ring datapath_boot @ [w]" using example_syn_logged by blast
  have "f_proto example_syn = 6" "f_src example_syn = (203, 0, 113, 7)" "f_dst example_syn = (203, 0, 113, 8)"
    by (simp_all add: example_syn_def)
  from packet_to_telemetry [OF xdp_contract example_syn_ok(3) frame_ctx_of example_syn_ok(1,2) this example_syn_payload _ _ run w,
      of "\<lparr>SrcIP = 1, DstIP = 2, SrcPort = 3, DstPort = 4, Protocol = 5, TCPFlags = 6,
           m_Action = 7, m_DropReason = 8, TimestampNS = 9\<rparr>"]
  obtain prev m where "UnmarshalBinary prev w = Inr m" "SrcIPNet m = IPv4 203 0 113 7" "DstPort m = of_nat (be_nat 0 80)"
    "TCPFlags m = 2" "m_Action m \<noteq> ActionDrop" by (auto simp: options_ok_def)
  then show ?thesis using run w by (auto simp: be_nat_def)
qed

end
