(* ===== verification/FirewallRates.thy ===== *)
theory FirewallRates
  imports FirewallProps
begin

text \<open>
  Sequences of packets on one CPU: how many packets of a source get through, that a source
  within its rate is never limited, and how many records reach the ring buffer.
\<close>

section \<open>Runs\<close>

text \<open>
  Packets one after the other, each with the state of the policy maps and the time at which it
  arrives; verdicts in order and the state at the end.
\<close>

fun xdp_run :: "'k aya \<Rightarrow> ('k \<times> u64 \<times> XdpContext) list \<Rightarrow> datapath \<Rightarrow> (xdp_action list \<times> datapath) rs" where
  "xdp_run aya [] d = Ok ([], d)"
| "xdp_run aya ((k, t, ctx) # es) d =
     rs_bind (ai_ida_firewall aya ctx t k d) (\<lambda>(act, d1).
     rs_bind (xdp_run aya es d1) (\<lambda>(acts, d2). Ok (act # acts, d2)))"

text \<open>The source the rate limiter would charge for a frame.\<close>

fun class_src :: "packet_class \<Rightarrow> u32 option" where
  "class_src (Fragment m) = Some (src_ip m)"
| "class_src (Complete m) = Some (src_ip m)"
| "class_src _ = None"

definition charged :: "u64 \<Rightarrow> u8 list \<Rightarrow> u32 option" where
  "charged now_ns bs = class_src (classify_frame now_ns bs)"

text \<open>The packet passes the filters that come before the rate limiter.\<close>

fun class_clean :: "'k aya \<Rightarrow> 'k \<Rightarrow> packet_class \<Rightarrow> bool" where
  "class_clean aya k (Complete m) \<longleftrightarrow> static_reason aya k m = rs_None"
| "class_clean aya k (Malformed r m) \<longleftrightarrow> False"
| "class_clean aya k c \<longleftrightarrow> True"

definition clean :: "'k aya \<Rightarrow> 'k \<Rightarrow> u64 \<Rightarrow> u8 list \<Rightarrow> bool" where
  "clean aya k now_ns bs \<longleftrightarrow> class_clean aya k (classify_frame now_ns bs)"

lemma log_event_rates [simp]: "rates (log_event aya k t r m d) = rates d"
  by (simp add: log_event_def split: prod.splits)

text \<open>What one packet does to the buckets.\<close>

lemma process_uncharged:
  assumes "charged t bs = Some s \<and> \<not> clean aya k t bs \<or> charged t bs = None"
    and "process aya k t bs d = (act, d')"
  shows "rates d' = rates d" and "charged t bs = Some s \<Longrightarrow> \<not> dry_run aya k \<Longrightarrow> act = XDP_DROP"
  using assms
  by (cases "classify_frame t bs"; auto simp: charged_def clean_def process_def verdict_def)+

lemma process_charged:
  assumes "charged t bs = Some s" and "clean aya k t bs" and "process aya k t bs d = (act, d')"
  shows "rates d' = snd (check_rate_limit (Rate_insert aya) s t (rates d))"
    and "fst (check_rate_limit (Rate_insert aya) s t (rates d)) \<Longrightarrow> act = XDP_PASS"
    and "\<not> fst (check_rate_limit (Rate_insert aya) s t (rates d)) \<Longrightarrow> \<not> dry_run aya k \<Longrightarrow> act = XDP_DROP"
  using assms
  by (cases "classify_frame t bs"; auto simp: charged_def clean_def process_def verdict_def judge_rate_def
        rate_limited_def split: prod.splits if_splits)+

section \<open>At most the burst and the refill\<close>

text \<open>
  While the LRU map holds fewer than \<open>cap\<close> entries, inserting one evicts none.
\<close>

definition keeps_entries :: "'k aya \<Rightarrow> nat \<Rightarrow> bool" where
  "keeps_entries aya cap \<longleftrightarrow>
     (\<forall>ip st m. go_map_ok m \<and> ip \<notin> go_keys m \<and> length m < cap \<longrightarrow>
        go_map_ok (Rate_insert aya ip st m) \<and> go_keys (Rate_insert aya ip st m) = insert ip (go_keys m) \<and>
        go_get (Rate_insert aya ip st m) = (go_get m)(ip \<mapsto> st))"

lemma kernel_keeps_entries: "keeps_entries kernel_aya 65536"
  by (auto simp: keeps_entries_def k_rate_insert_def RATE_LIMIT_MAP_def go_keys_set fun_eq_iff)

text \<open>All entries are of sources in \<open>K\<close>, for which there is room.\<close>

definition room :: "u32 set \<Rightarrow> nat \<Rightarrow> datapath \<Rightarrow> bool" where
  "room K cap d \<longleftrightarrow> finite K \<and> card K \<le> cap \<and> go_map_ok (rates d) \<and> go_keys (rates d) \<subseteq> K"

lemma room_insert:
  assumes "keeps_entries aya cap" and "room K cap d" and "ip \<in> K" and "go_get (rates d) ip = None"
    and "rates d' = Rate_insert aya ip st (rates d)"
  shows "room K cap d' \<and> go_get (rates d') = (go_get (rates d))(ip \<mapsto> st)"
proof -
  have new: "ip \<notin> go_keys (rates d)" using assms(4) by (simp only: go_get_None_iff not_False_eq_True)
  then have "go_keys (rates d) \<subset> K" using assms(2,3) unfolding room_def by blast
  then have "card (go_keys (rates d)) < card K" using assms(2) by (intro psubset_card_mono) (simp_all add: room_def)
  then have "length (rates d) < cap" using assms(2) go_map_ok_card by (fastforce simp: room_def)
  then show ?thesis using assms(1,2,3,5) new unfolding keeps_entries_def room_def by (simp add: fun_eq_iff)
qed

lemma check_rate_limit_room:
  assumes "keeps_entries aya cap" and "room K cap d" and "ip \<in> K"
    and "rates d' = snd (check_rate_limit (Rate_insert aya) ip t (rates d))"
  shows "room K cap d'" and "s \<noteq> ip \<Longrightarrow> go_get (rates d') s = go_get (rates d) s"
proof -
  have "room K cap d' \<and> (s \<noteq> ip \<longrightarrow> go_get (rates d') s = go_get (rates d) s)" for s
  proof (cases "go_get (rates d) ip")
    case None
    then show ?thesis
      using room_insert [OF assms(1-3) None] assms(4) by (simp add: check_rate_limit_def)
  next
    case (Some st)
    then have "rates d' = go_set (rates d) ip (snd (take_token NANOS_PER_TOKEN BURST_CAPACITY t st))"
      using assms(4) by (simp add: check_rate_limit_def case_prod_unfold)
    then show ?thesis using assms(2,3) unfolding room_def by (simp add: go_keys_set)
  qed
  then show "room K cap d'" and "s \<noteq> ip \<Longrightarrow> go_get (rates d') s = go_get (rates d) s" by blast+
qed

text \<open>
  Packets granted so far are paid for by the burst and the time since \<open>b\<close>; a bucket nobody has
  used for the time of a token is refilled by the next packet.
\<close>

definition paid :: "u32 \<Rightarrow> nat \<Rightarrow> u64 \<Rightarrow> nat \<Rightarrow> datapath \<Rightarrow> bool" where
  "paid s b T g d \<longleftrightarrow>
     (case go_get (rates d) s of
        None \<Rightarrow> g = 0
      | Some st \<Rightarrow> tokens st \<le> BURST_CAPACITY \<and> last_update_ns st \<le> T \<and>
          unat NANOS_PER_TOKEN * g + credit NANOS_PER_TOKEN st + b \<le>
            unat NANOS_PER_TOKEN * unat BURST_CAPACITY + unat (last_update_ns st))"

definition dormant :: "u32 \<Rightarrow> u64 \<Rightarrow> datapath \<Rightarrow> bool" where
  "dormant s t0 d \<longleftrightarrow> (\<exists>st. go_get (rates d) s = Some st \<and> tokens st \<le> BURST_CAPACITY \<and>
     unat (last_update_ns st) + unat NANOS_PER_TOKEN \<le> unat t0)"

lemma check_rate_limit_paid:
  assumes "keeps_entries aya cap" and "room K cap d" and "s \<in> K" and "b \<le> unat t" and "t \<le> T" and "paid s b T g d"
    and "check_rate_limit (Rate_insert aya) s t (rates d) = (ok, m)" and "rates d' = m"
  shows "paid s b T (g + of_bool ok) d'"
proof (cases "go_get (rates d) s")
  case None
  then have ok: "ok" and m: "rates d' = Rate_insert aya s \<lparr>last_update_ns = t, tokens = 19999\<rparr> (rates d)" and g: "g = 0"
    using assms(6-8) by (auto simp: check_rate_limit_def saturating_sub_def guards paid_def)
  have "go_get (rates d') s = Some \<lparr>last_update_ns = t, tokens = 19999\<rparr>"
    using room_insert [OF assms(1-3) None m] by simp
  with ok g show ?thesis using assms(4,5) by (simp add: paid_def credit_def guards)
next
  case (Some st)
  obtain st' where take: "take_token NANOS_PER_TOKEN BURST_CAPACITY t st = (ok, st')"
    and m: "go_get m s = Some st'"
    using assms(7) Some by (auto simp: check_rate_limit_def split: prod.splits)
  have st: "tokens st \<le> BURST_CAPACITY" "last_update_ns st \<le> T"
    "unat NANOS_PER_TOKEN * g + credit NANOS_PER_TOKEN st + b \<le>
       unat NANOS_PER_TOKEN * unat BURST_CAPACITY + unat (last_update_ns st)"
    using assms(6) Some by (simp_all add: paid_def)
  note step = packet_bucket.take_token_step [OF st(1) take]
  have "last_update_ns st' \<le> T" using step(3) st(2) assms(5) by (simp add: max_def split: if_splits)
  moreover have "unat NANOS_PER_TOKEN * (g + of_bool ok) + credit NANOS_PER_TOKEN st' + b \<le>
      unat NANOS_PER_TOKEN * unat BURST_CAPACITY + unat (last_update_ns st')"
    using step(4) st(3) by (simp only: distrib_left)
  ultimately show ?thesis using step(1) m assms(8) by (simp add: paid_def)
qed

lemma check_rate_limit_wakes:
  assumes "dormant s t0 d" and "t0 \<le> t" and "t \<le> T" and "b \<le> unat t"
    and "check_rate_limit (Rate_insert aya) s t (rates d) = (ok, m)" and "rates d' = m"
  shows "paid s b T (of_bool ok) d'"
proof -
  obtain st where st: "go_get (rates d) s = Some st" "tokens st \<le> BURST_CAPACITY"
    "unat (last_update_ns st) + unat NANOS_PER_TOKEN \<le> unat t0"
    using assms(1) by (auto simp: dormant_def)
  obtain st' where take: "take_token NANOS_PER_TOKEN BURST_CAPACITY t st = (ok, st')"
    and m: "go_get m s = Some st'"
    using assms(5) st(1) by (auto simp: check_rate_limit_def split: prod.splits)
  let ?n = "(unat t - unat (last_update_ns st)) div unat NANOS_PER_TOKEN"
  have late: "unat (last_update_ns st) + unat NANOS_PER_TOKEN \<le> unat t"
    using st(3) assms(2) by (simp add: word_le_nat_alt)
  then have n: "0 < ?n" by (simp add: div_greater_zero_iff guards)
  note r = packet_bucket.take_token_nat [OF st(2) refl refl, of t, unfolded take fst_conv snd_conv, simplified n if_True]
  define x where "x = min (unat (tokens st) + ?n) (unat BURST_CAPACITY)"
  have "x \<le> unat BURST_CAPACITY" "ok \<longleftrightarrow> 1 \<le> x" "unat (tokens st') = x - 1" using r(1,2) by (simp_all add: x_def)
  then have "of_bool ok + unat (tokens st') \<le> unat BURST_CAPACITY" by (cases ok) simp_all
  then have "unat NANOS_PER_TOKEN * of_bool ok + credit NANOS_PER_TOKEN st' \<le> unat NANOS_PER_TOKEN * unat BURST_CAPACITY"
    unfolding credit_def distrib_left [symmetric] by (rule mult_le_mono2)
  moreover have "tokens st' \<le> BURST_CAPACITY" using packet_bucket.take_token_step(1) [OF st(2) take] .
  ultimately show ?thesis using m assms(3,4,6) r(3) by (simp add: paid_def)
qed

text \<open>Only a clean packet of the source itself touches its bucket; an unclean one is dropped.\<close>

lemma process_other:
  assumes "keeps_entries aya cap" and "room K cap d" and "\<And>s'. charged t bs = Some s' \<Longrightarrow> s' \<in> K"
    and "process aya k t bs d = (act, d')"
  shows "room K cap d'"
    and "\<not> (charged t bs = Some s \<and> clean aya k t bs) \<Longrightarrow> go_get (rates d') s = go_get (rates d) s"
proof -
  have "room K cap d' \<and>
      (\<not> (charged t bs = Some s \<and> clean aya k t bs) \<longrightarrow> go_get (rates d') s = go_get (rates d) s)" for s
  proof (cases "\<exists>s'. charged t bs = Some s' \<and> clean aya k t bs")
    case True
    then obtain s' where s': "charged t bs = Some s'" "clean aya k t bs" by blast
    then show ?thesis
      using check_rate_limit_room [OF assms(1,2) assms(3) [OF s'(1)] process_charged(1) [OF s' assms(4)]] by auto
  next
    case False
    then have "rates d' = rates d" using process_uncharged(1) [OF _ assms(4)] by (cases "charged t bs") auto
    then show ?thesis using assms(2) by (simp add: room_def)
  qed
  then show "room K cap d'"
    and "\<not> (charged t bs = Some s \<and> clean aya k t bs) \<Longrightarrow> go_get (rates d') s = go_get (rates d) s" by blast+
qed

lemma process_paid:
  assumes "keeps_entries aya cap" and "room K cap d" and "\<And>s'. charged t bs = Some s' \<Longrightarrow> s' \<in> K"
    and "process aya k t bs d = (act, d')"
    and "b \<le> unat t0" and "t0 \<le> t" and "t \<le> T" and "\<not> dry_run aya k"
    and "paid s b T g d \<or> dormant s t0 d \<and> g = 0"
  shows "paid s b T (g + of_bool (charged t bs = Some s \<and> act = XDP_PASS)) d' \<or>
         dormant s t0 d' \<and> g + of_bool (charged t bs = Some s \<and> act = XDP_PASS) = 0"
proof (cases "charged t bs = Some s \<and> clean aya k t bs")
  case True
  note p = process_charged [OF conjunct1 [OF True] conjunct2 [OF True] assms(4)]
  obtain ok m where c: "check_rate_limit (Rate_insert aya) s t (rates d) = (ok, m)" by fastforce
  have ok: "ok \<longleftrightarrow> act = XDP_PASS" using p(2,3) c assms(8) by (cases ok) auto
  have t: "b \<le> unat t" using assms(5,6) by (simp add: word_le_nat_alt)
  have m: "rates d' = m" using p(1) c by simp
  have K: "s \<in> K" using assms(3) True by blast
  have "paid s b T (g + of_bool ok) d'"
    using assms(9) check_rate_limit_paid [OF assms(1,2) K t assms(7) _ c m]
      check_rate_limit_wakes [OF _ assms(6,7) t c m] by auto
  then show ?thesis using True ok by simp
next
  case False
  then have "go_get (rates d') s = go_get (rates d) s" using process_other(2) [OF assms(1-4)] by blast
  moreover have "\<not> (charged t bs = Some s \<and> act = XDP_PASS)"
    using False process_uncharged(2) [OF _ assms(4)] assms(8) by auto
  then have "of_bool (charged t bs = Some s \<and> act = XDP_PASS) = (0 :: nat)" by simp
  ultimately show ?thesis using assms(9) by (simp only: paid_def dormant_def add_0_right)
qed

text \<open>The number of packets charged to a source that were passed.\<close>

definition passed :: "u32 \<Rightarrow> ('k \<times> u64 \<times> XdpContext) list \<Rightarrow> xdp_action list \<Rightarrow> nat" where
  "passed s es acts =
     length (filter (\<lambda>((k, t, ctx), act). charged t (frame ctx) = Some s \<and> act = XDP_PASS) (zip es acts))"

text \<open>The packets of a run are in order, and none is in dry-run mode.\<close>

definition run_ok :: "'k aya \<Rightarrow> u64 \<Rightarrow> u64 \<Rightarrow> ('k \<times> u64 \<times> XdpContext) list \<Rightarrow> bool" where
  "run_ok aya t0 T es \<longleftrightarrow> (\<forall>(k, t, ctx) \<in> set es. ctx_ok ctx \<and> t0 \<le> t \<and> t \<le> T \<and> \<not> dry_run aya k)"

lemma xdp_run_Cons:
  assumes "xdp_run aya ((k, t, ctx) # es) d = Ok (acts, d')" and "ctx_ok ctx"
  obtains act d1 acts' where "process aya k t (frame ctx) d = (act, d1)" "xdp_run aya es d1 = Ok (acts', d')"
    "acts = act # acts'"
proof (cases "process aya k t (frame ctx) d")
  case (Pair act d1)
  then show thesis
    using assms that by (cases "xdp_run aya es d1") (auto simp: ai_ida_firewall_eq [OF assms(2)])
qed

definition sources :: "('k \<times> u64 \<times> XdpContext) list \<Rightarrow> u32 set" where
  "sources es = {s. \<exists>(k, t, ctx) \<in> set es. charged t (frame ctx) = Some s}"

lemma sources_finite: "finite (sources es)"
proof -
  have "sources es \<subseteq> (\<lambda>(k, t, ctx). the (charged t (frame ctx))) ` set es"
    by (force simp: sources_def)
  then show ?thesis by (rule finite_subset) simp
qed

lemma xdp_run_paid:
  assumes "keeps_entries aya cap" and "b \<le> unat t0"
  shows "xdp_run aya es d = Ok (acts, d') \<Longrightarrow> room K cap d \<Longrightarrow> sources es \<subseteq> K \<Longrightarrow> run_ok aya t0 T es \<Longrightarrow>
    paid s b T g d \<or> dormant s t0 d \<and> g = 0 \<Longrightarrow>
    paid s b T (g + passed s es acts) d' \<or> dormant s t0 d' \<and> g + passed s es acts = 0"
proof (induction es arbitrary: d acts g)
  case Nil
  then show ?case by (simp add: passed_def)
next
  case (Cons e es)
  obtain k t ctx where e: "e = (k, t, ctx)" by (cases e)
  have ok: "ctx_ok ctx" "t0 \<le> t" "t \<le> T" "\<not> dry_run aya k" "run_ok aya t0 T es"
    using Cons.prems(4) by (auto simp: run_ok_def e)
  have K: "charged t (frame ctx) = Some s' \<Longrightarrow> s' \<in> K" "sources es \<subseteq> K" for s'
    using Cons.prems(3) by (auto simp: sources_def e)
  obtain act d1 acts' where p: "process aya k t (frame ctx) d = (act, d1)" and r: "xdp_run aya es d1 = Ok (acts', d')"
    and acts: "acts = act # acts'"
    using xdp_run_Cons [OF Cons.prems(1) [unfolded e] ok(1)] .
  note step = process_other(1) [OF assms(1) Cons.prems(2) K(1) p]
    process_paid [OF assms(1) Cons.prems(2) K(1) p assms(2) ok(2-4) Cons.prems(5)]
  have "passed s (e # es) acts = of_bool (charged t (frame ctx) = Some s \<and> act = XDP_PASS) + passed s es acts'"
    by (simp add: passed_def acts e)
  then show ?case
    using Cons.IH [OF r step(1) K(2) ok(5) step(2)] by (simp only: add.assoc)
qed

text \<open>
  (C9) The rate limit holds on each CPU: over any sequence of packets of any sources between \<open>t0\<close>
  and \<open>T\<close>, all handled in enforce mode, at most 20000 packets of a source and one more for each
  full 100 \<open>\<mu>s\<close> are passed, fragments included, and one more if the source already had a bucket
  (last refilled by \<open>t0\<close> and holding at most the burst), provided the LRU map of that CPU has room
  for all sources it holds at the start and all sources of the sequence together, so that no
  entry is evicted.
\<close>

theorem rate_limit_bound:
  assumes "keeps_entries aya cap" and "go_map_ok (rates d)"
    and "card (go_keys (rates d) \<union> sources es) \<le> cap"
    and "\<And>st. go_get (rates d) s = Some st \<Longrightarrow> tokens st \<le> 20000 \<and> last_update_ns st \<le> t0"
    and "run_ok aya t0 T es" and "t0 \<le> T" and "xdp_run aya es d = Ok (acts, d')"
  shows "passed s es acts \<le>
           20000 + (unat T - unat t0) div 100000 + (if go_get (rates d) s = None then 0 else 1)"
proof -
  define b where "b = (if go_get (rates d) s = None then unat t0 else unat t0 - 100000)"
  have b: "b \<le> unat t0" by (simp add: b_def)
  have tT: "unat t0 \<le> unat T" using assms(6) by (simp add: word_le_nat_alt)
  have room: "room (go_keys (rates d) \<union> sources es) cap d"
    using assms(2,3) sources_finite by (auto simp: room_def)
  have "paid s b T 0 d \<or> dormant s t0 d \<and> (0 :: nat) = 0"
  proof (cases "go_get (rates d) s")
    case (Some st)
    have "last_update_ns st \<le> T" using assms(4) [OF Some] assms(6) by (meson order.trans)
    moreover have "unat (tokens st) \<le> 20000" using assms(4) [OF Some] by (simp add: word_le_nat_alt)
    ultimately show ?thesis
      using Some assms(4) [OF Some]
      by (cases "unat (last_update_ns st) + 100000 \<le> unat t0") (auto simp: paid_def dormant_def b_def credit_def guards)
  qed (simp add: paid_def)
  from xdp_run_paid [OF assms(1) b assms(7) room Un_upper2 assms(5) this]
  have "paid s b T (passed s es acts) d' \<or> passed s es acts = 0" by auto
  then have "passed s es acts = 0 \<or> 100000 * passed s es acts + b \<le> 100000 * 20000 + unat T"
    by (auto simp: paid_def guards word_le_nat_alt split: option.splits)
  then have "100000 * passed s es acts \<le> 100000 * 20000 + (unat T - b)" using b tT by linarith
  moreover have "unat T - b \<le> (unat T - unat t0) + (if go_get (rates d) s = None then 0 else 100000)"
    using tT by (cases "go_get (rates d) s = None") (auto simp: b_def)
  ultimately have "100000 * passed s es acts \<le>
      (unat T - unat t0) + 100000 * (20000 + (if go_get (rates d) s = None then 0 else 1))"
    by (cases "go_get (rates d) s = None") auto
  then have "passed s es acts \<le>
      ((unat T - unat t0) + 100000 * (20000 + (if go_get (rates d) s = None then 0 else 1))) div 100000"
    by (simp only: less_eq_div_iff_mult_less_eq mult.commute zero_less_numeral)
  then show ?thesis by (simp split: if_splits)
qed

lemma xdp_run_total: "\<forall>(k, t, ctx) \<in> set es. ctx_ok ctx \<Longrightarrow> \<exists>acts d'. xdp_run aya es d = Ok (acts, d')"
proof (induction es arbitrary: d)
  case Nil
  then show ?case by simp
next
  case (Cons e es)
  obtain k t ctx where e: "e = (k, t, ctx)" by (cases e)
  obtain act d1 where p: "process aya k t (frame ctx) d = (act, d1)" by fastforce
  obtain acts d' where "xdp_run aya es d1 = Ok (acts, d')" using Cons.IH [of d1] Cons.prems by (auto simp: e)
  then show ?case using Cons.prems p by (auto simp: e ai_ida_firewall_eq)
qed

text \<open>The example packet twice, 200 \<open>\<mu>s\<close> apart.\<close>

definition example_run :: "(kernel \<times> u64 \<times> XdpContext) list" where
  "example_run = [(verbose_kernel, 1000000, ctx_of example_syn), (verbose_kernel, 1200000, ctx_of example_syn)]"

lemma example_run_Ok: "\<exists>acts d'. xdp_run kernel_aya example_run datapath_boot = Ok (acts, d')"
  by (rule xdp_run_total) (simp add: example_run_def example_syn_ok)

lemma example_charged: "charged t (build example_syn) = Some (raw_u32 203 0 113 7)"
  unfolding charged_def example_syn_class by (simp add: meta_of_def example_syn_def)

lemma example_clean: "clean kernel_aya verbose_kernel t (build example_syn)"
  unfolding clean_def example_syn_class using example_syn_clean by simp

theorem rate_limit_bound_witness:
  "\<exists>acts d'. xdp_run kernel_aya example_run datapath_boot = Ok (acts, d') \<and>
     passed (raw_u32 203 0 113 7) example_run acts \<le> 20000 + (unat (1200000 :: u64) - unat (1000000 :: u64)) div 100000"
proof -
  obtain acts d' where run: "xdp_run kernel_aya example_run datapath_boot = Ok (acts, d')" using example_run_Ok by blast
  have "run_ok kernel_aya 1000000 1200000 example_run"
    by (simp add: run_ok_def example_run_def example_syn_ok dry_run_def verbose_kernel_config)
  moreover have "sources example_run \<subseteq> {raw_u32 203 0 113 7}"
    by (auto simp: sources_def example_run_def example_charged)
  then have "card (sources example_run) \<le> 65536"
    using card_mono [of "{raw_u32 203 0 113 7}" "sources example_run"] by simp
  ultimately show ?thesis
    using rate_limit_bound [OF kernel_keeps_entries _ _ _ _ _ run, where s = "raw_u32 203 0 113 7" and ?t0.0 = 1000000 and T = 1200000] run
    by (auto simp: datapath_boot_def)
qed

section \<open>Sources within their rate\<close>

text \<open>The times at which packets of a source arrive.\<close>

definition arrivals :: "u32 \<Rightarrow> ('k \<times> u64 \<times> XdpContext) list \<Rightarrow> nat list" where
  "arrivals s es = map (\<lambda>(k, t, ctx). unat t) (filter (\<lambda>(k, t, ctx). charged t (frame ctx) = Some s) es)"

definition spaced :: "nat list \<Rightarrow> bool" where
  "spaced ts \<longleftrightarrow> sorted_wrt (\<lambda>a b. a + 100000 \<le> b) ts"

text \<open>The bucket of the source is absent, or was refilled early enough for all that follow.\<close>

definition ready :: "u32 \<Rightarrow> nat list \<Rightarrow> datapath \<Rightarrow> bool" where
  "ready s ts d \<longleftrightarrow>
     (\<forall>st. go_get (rates d) s = Some st \<longrightarrow>
        tokens st \<le> BURST_CAPACITY \<and> (\<forall>t \<in> set ts. unat (last_update_ns st) + 100000 \<le> t))"

lemma check_rate_limit_ready:
  assumes "xdp_maps api contents key_size value_size opened aya rep gate cfg"
    and "ready s (unat t # ts) d" and "\<forall>u \<in> set ts. unat t + 100000 \<le> u"
    and m: "rates d' = snd (check_rate_limit (Rate_insert aya) s t (rates d))"
  shows "fst (check_rate_limit (Rate_insert aya) s t (rates d)) \<and> ready s ts d'"
proof (cases "go_get (rates d) s")
  case None
  have "st = \<lparr>last_update_ns = t, tokens = 19999\<rparr>" if "go_get (rates d') s = Some st" for st
    using that xdp_maps.rate_insert [OF assms(1)] None m
    by (fastforce simp: check_rate_limit_def saturating_sub_def guards)
  with None show ?thesis using assms(3) by (auto simp: ready_def check_rate_limit_def guards)
next
  case (Some st)
  obtain ok st' where take: "take_token NANOS_PER_TOKEN BURST_CAPACITY t st = (ok, st')" by fastforce
  have st: "tokens st \<le> BURST_CAPACITY" "unat (last_update_ns st) + unat NANOS_PER_TOKEN \<le> unat t"
    using assms(2) Some by (simp_all add: ready_def guards)
  have "ok" using packet_bucket.take_token_granted [OF _ st] take by (simp add: guards)
  note step = packet_bucket.take_token_step [OF st(1) take]
  have "last_update_ns st \<le> t" using st(2) by (simp add: word_le_nat_alt)
  then have "unat (last_update_ns st') \<le> unat t" using step(3) by (simp add: max_def word_le_nat_alt)
  then have "\<forall>u \<in> set ts. unat (last_update_ns st') + 100000 \<le> u" using assms(3) by force
  with \<open>ok\<close> step(1) show ?thesis using Some m take by (simp add: ready_def check_rate_limit_def)
qed

lemma process_ready:
  assumes "xdp_maps api contents key_size value_size opened aya rep gate cfg"
    and "ready s (if charged t bs = Some s then unat t # ts else ts) d"
    and "charged t bs = Some s \<Longrightarrow> \<forall>u \<in> set ts. unat t + 100000 \<le> u"
    and "process aya k t bs d = (act, d')"
  shows "ready s ts d'" and "charged t bs = Some s \<Longrightarrow> clean aya k t bs \<Longrightarrow> act = XDP_PASS"
proof -
  have ready: "ready s ts d" using assms(2) by (auto simp: ready_def split: if_splits)
  have own: "fst (check_rate_limit (Rate_insert aya) s t (rates d)) \<and> ready s ts d'"
    if c: "charged t bs = Some s" and m: "rates d' = snd (check_rate_limit (Rate_insert aya) s t (rates d))"
    using check_rate_limit_ready [OF assms(1) _ assms(3) [OF c] m] assms(2) c by simp
  have other: "go_get (rates d') s = Some st \<Longrightarrow> go_get (rates d) s = Some st"
    if "rates d' = snd (check_rate_limit (Rate_insert aya) s' t (rates d))" "s' \<noteq> s" for s' st
    using that xdp_maps.rate_insert [OF assms(1)]
    by (fastforce simp: check_rate_limit_def split: option.splits prod.splits)
  show "ready s ts d'"
  proof (cases "\<exists>s'. charged t bs = Some s' \<and> clean aya k t bs")
    case True
    then obtain s' where s': "charged t bs = Some s'" "clean aya k t bs" by blast
    note m = process_charged(1) [OF s' assms(4)]
    show ?thesis
    proof (cases "s' = s")
      case True
      then show ?thesis using own s'(1) m by simp
    next
      case False
      then show ?thesis using other [OF m] ready by (auto simp: ready_def)
    qed
  next
    case False
    then have "rates d' = rates d" using process_uncharged(1) [OF _ assms(4)] by (cases "charged t bs") auto
    with ready show ?thesis by (simp add: ready_def)
  qed
  show "act = XDP_PASS" if "charged t bs = Some s" "clean aya k t bs"
    using own [OF that(1)] process_charged(1,2) [OF that assms(4)] by blast
qed

lemma xdp_run_ready:
  assumes "xdp_maps api contents key_size value_size opened aya rep gate cfg"
  shows "xdp_run aya es d = Ok (acts, d') \<Longrightarrow> \<forall>(k, t, ctx) \<in> set es. ctx_ok ctx \<Longrightarrow>
    spaced (arrivals s es) \<Longrightarrow> ready s (arrivals s es) d \<Longrightarrow>
    list_all2 (\<lambda>(k, t, ctx) act. charged t (frame ctx) = Some s \<and> clean aya k t (frame ctx) \<longrightarrow> act = XDP_PASS) es acts"
proof (induction es arbitrary: d acts)
  case Nil
  then show ?case by simp
next
  case (Cons e es)
  obtain k t ctx where e: "e = (k, t, ctx)" by (cases e)
  have ok: "ctx_ok ctx" "\<forall>(k, t, ctx) \<in> set es. ctx_ok ctx" using Cons.prems(2) by (simp_all add: e)
  obtain act d1 acts' where p: "process aya k t (frame ctx) d = (act, d1)" and r: "xdp_run aya es d1 = Ok (acts', d')"
    and acts: "acts = act # acts'"
    using xdp_run_Cons [OF Cons.prems(1) [unfolded e] ok(1)] .
  have arr: "arrivals s (e # es) = (if charged t (frame ctx) = Some s then unat t # arrivals s es else arrivals s es)"
    by (simp add: arrivals_def e)
  have next_ready: "charged t (frame ctx) = Some s \<Longrightarrow> \<forall>u \<in> set (arrivals s es). unat t + 100000 \<le> u"
    using Cons.prems(3) unfolding arr by (simp add: spaced_def)
  note step = process_ready [OF assms Cons.prems(4) [unfolded arr] next_ready p]
  have "spaced (arrivals s es)" using Cons.prems(3) unfolding arr by (simp add: spaced_def split: if_splits)
  then show ?case using Cons.IH [OF r ok(2) _ step(1)] step(2) by (simp add: acts e)
qed

text \<open>
  (C14) A source within its rate is never limited: if the packets of a source reach a CPU at
  least 100 \<open>\<mu>s\<close> apart, every one of them that the other filters accept is passed, whatever the
  traffic of other sources and whatever the LRU map evicts.
\<close>

theorem conforming_source_passes:
  assumes "xdp_maps api contents key_size value_size opened aya rep gate cfg"
    and "xdp_run aya es d = Ok (acts, d')" and "\<forall>(k, t, ctx) \<in> set es. ctx_ok ctx"
    and "spaced (arrivals s es)" and "go_get (rates d) s = None"
  shows "list_all2 (\<lambda>(k, t, ctx) act. charged t (frame ctx) = Some s \<and> clean aya k t (frame ctx) \<longrightarrow> act = XDP_PASS) es acts"
  using assms(5) by (intro xdp_run_ready [OF assms(1-4)]) (simp add: ready_def)

theorem conforming_source_passes_witness:
  "\<exists>d'. xdp_run kernel_aya example_run datapath_boot = Ok ([XDP_PASS, XDP_PASS], d')"
proof -
  obtain acts d' where run: "xdp_run kernel_aya example_run datapath_boot = Ok (acts, d')" using example_run_Ok by blast
  have "spaced (arrivals (raw_u32 203 0 113 7) example_run)"
    by (simp add: example_run_def arrivals_def example_charged spaced_def)
  from conforming_source_passes [OF xdp_contract run _ this]
  have "list_all2 (\<lambda>(k, t, ctx) act. charged t (frame ctx) = Some (raw_u32 203 0 113 7) \<and>
      clean kernel_aya k t (frame ctx) \<longrightarrow> act = XDP_PASS) example_run acts"
    by (simp add: example_run_def example_syn_ok datapath_boot_def)
  then have "acts = [XDP_PASS, XDP_PASS]"
    by (auto simp: example_run_def example_charged example_clean list_all2_Cons1)
  with run show ?thesis by blast
qed

section \<open>Records in the ring buffer\<close>

lemma judge_log: "judge aya t k c d = (r, d') \<Longrightarrow> ring d' = ring d \<and> log_slot d' = log_slot d"
  by (cases c) (auto simp: judge_rate_def rate_limited_def split: prod.splits if_splits)

lemma process_log:
  assumes "xdp_maps api contents key_size value_size opened aya rep gate cfg"
    and "process aya k t bs d = (act, d')" and "log_slot d = Some st" and "tokens st \<le> LOG_BURST_CAPACITY"
  shows "\<exists>st' n. log_slot d' = Some st' \<and> tokens st' \<le> LOG_BURST_CAPACITY \<and>
           last_update_ns st' \<le> max (last_update_ns st) t \<and> length (ring d') = length (ring d) + n \<and>
           unat LOG_NANOS_PER_TOKEN * n + credit LOG_NANOS_PER_TOKEN st' + unat (last_update_ns st) \<le>
             credit LOG_NANOS_PER_TOKEN st + unat (last_update_ns st')"
proof -
  let ?c = "classify_frame t bs"
  obtain r d1 where j: "judge aya t k ?c d = (r, d1)" by fastforce
  have d1: "ring d1 = ring d" "log_slot d1 = Some st" using judge_log [OF j] assms(3) by simp_all
  have d': "d' = log_event aya k t r (packet_meta ?c) d1" using assms(2) j by (simp add: process_def Let_def)
  obtain ok st' where take: "take_token LOG_NANOS_PER_TOKEN LOG_BURST_CAPACITY t st = (ok, st')" by fastforce
  note step = log_bucket.take_token_step [OF assms(4) take]
  show ?thesis
  proof (cases "reported aya k r")
    case False
    then show ?thesis using d1 assms(4) by (intro exI [of _ st] exI [of _ 0]) (simp add: d' log_event_def)
  next
    case True
    define w where "w = rs_wire (event_of aya k t r (packet_meta ?c))"
    define n :: nat where "n = of_bool (ok \<and> Events_output aya w (ring d) \<noteq> ring d)"
    have "log_slot d' = Some st'" "ring d' = (if ok then Events_output aya w (ring d) else ring d)"
      using True d1 take by (simp_all add: d' log_event_def check_log_rate_limit_def w_def)
    moreover from this(2) have "length (ring d') = length (ring d) + n"
      using xdp_maps.events_output [OF assms(1), of w "ring d"] by (auto simp: n_def)
    moreover have "n \<le> of_bool ok" by (simp add: n_def)
    then have "unat LOG_NANOS_PER_TOKEN * n \<le> unat LOG_NANOS_PER_TOKEN * of_bool ok" by (rule mult_le_mono2)
    with step(4) have "unat LOG_NANOS_PER_TOKEN * n + credit LOG_NANOS_PER_TOKEN st' + unat (last_update_ns st) \<le>
        credit LOG_NANOS_PER_TOKEN st + unat (last_update_ns st')" by linarith
    ultimately show ?thesis using step(1,3) by (intro exI [of _ st'] exI [of _ n]) auto
  qed
qed

lemma xdp_run_log:
  assumes "xdp_maps api contents key_size value_size opened aya rep gate cfg"
  shows "xdp_run aya es d = Ok (acts, d') \<Longrightarrow> \<forall>(k, t, ctx) \<in> set es. ctx_ok ctx \<and> t \<le> T \<Longrightarrow>
    log_slot d = Some st \<Longrightarrow> tokens st \<le> LOG_BURST_CAPACITY \<Longrightarrow> last_update_ns st \<le> T \<Longrightarrow>
    \<exists>(st' :: rs_RateLimitState) n. last_update_ns st' \<le> T \<and> length (ring d') = length (ring d) + n \<and>
      unat LOG_NANOS_PER_TOKEN * n + unat (last_update_ns st) \<le>
        credit LOG_NANOS_PER_TOKEN st + unat (last_update_ns st')"
proof (induction es arbitrary: d acts st)
  case Nil
  then show ?case by (intro exI [of _ st] exI [of _ 0]) simp
next
  case (Cons e es)
  obtain k t ctx where e: "e = (k, t, ctx)" by (cases e)
  have ok: "ctx_ok ctx" "t \<le> T" "\<forall>(k, t, ctx) \<in> set es. ctx_ok ctx \<and> t \<le> T" using Cons.prems(2) by (simp_all add: e)
  obtain act d1 acts' where p: "process aya k t (frame ctx) d = (act, d1)" and r: "xdp_run aya es d1 = Ok (acts', d')"
    using xdp_run_Cons [OF Cons.prems(1) [unfolded e] ok(1)] .
  obtain st1 n1 where 1: "log_slot d1 = Some st1" "tokens st1 \<le> LOG_BURST_CAPACITY"
      "last_update_ns st1 \<le> max (last_update_ns st) t" "length (ring d1) = length (ring d) + n1"
      "unat LOG_NANOS_PER_TOKEN * n1 + credit LOG_NANOS_PER_TOKEN st1 + unat (last_update_ns st) \<le>
         credit LOG_NANOS_PER_TOKEN st + unat (last_update_ns st1)"
    using process_log [OF assms p Cons.prems(3,4)] by blast
  have "last_update_ns st1 \<le> T" using 1(3) ok(2) Cons.prems(5) by (simp add: max_def split: if_splits)
  then obtain st2 :: rs_RateLimitState and n2 where 2: "last_update_ns st2 \<le> T" "length (ring d') = length (ring d1) + n2"
      "unat LOG_NANOS_PER_TOKEN * n2 + unat (last_update_ns st1) \<le>
         credit LOG_NANOS_PER_TOKEN st1 + unat (last_update_ns st2)"
    using Cons.IH [OF r ok(3) 1(1,2)] by blast
  have "unat LOG_NANOS_PER_TOKEN * (n1 + n2) + unat (last_update_ns st) \<le>
      credit LOG_NANOS_PER_TOKEN st + unat (last_update_ns st2)"
    using 1(5) 2(3) by (simp only: distrib_left)
  with 1(4) 2(1,2) show ?case by (intro exI [of _ st2] exI [of _ "n1 + n2"]) simp
qed

text \<open>
  (C18) The ring buffer is protected: however many packets arrive until time \<open>T\<close> and whatever is
  configured, at most 1000 records are written and one more for each full 100 \<open>\<mu>s\<close> since the last
  refill of the log limiter.
\<close>

theorem ring_bound:
  assumes "xdp_maps api contents key_size value_size opened aya rep gate cfg"
    and "xdp_run aya es d = Ok (acts, d')" and "\<forall>(k, t, ctx) \<in> set es. ctx_ok ctx \<and> t \<le> T"
    and "log_slot d = Some st" and "tokens st \<le> 1000" and "last_update_ns st \<le> T"
  shows "length (ring d') \<le> length (ring d) + 1000 + (unat T - unat (last_update_ns st)) div 100000"
proof -
  obtain st' :: rs_RateLimitState and n where st': "last_update_ns st' \<le> T" "length (ring d') = length (ring d) + n"
      "unat LOG_NANOS_PER_TOKEN * n + unat (last_update_ns st) \<le>
         credit LOG_NANOS_PER_TOKEN st + unat (last_update_ns st')"
    using xdp_run_log [OF assms(1-4) _ assms(6)] assms(5) by (auto simp: guards)
  have "unat (tokens st) \<le> 1000" "unat (last_update_ns st') \<le> unat T" "unat (last_update_ns st) \<le> unat T"
    using assms(5,6) st'(1) by (simp_all add: word_le_nat_alt)
  then have "100000 * n \<le> 100000 * 1000 + (unat T - unat (last_update_ns st))"
    using st'(3) by (simp add: credit_def guards)
  then have "n \<le> (100000 * 1000 + (unat T - unat (last_update_ns st))) div 100000"
    by (simp add: less_eq_div_iff_mult_less_eq mult.commute)
  then show ?thesis using st'(2) by (simp add: div_mult_self4)
qed

theorem ring_bound_witness:
  "\<exists>acts d'. xdp_run kernel_aya example_run datapath_boot = Ok (acts, d') \<and>
     length (ring d') \<le> length (ring datapath_boot) + 1000 +
       (unat (1200000 :: u64) - unat (last_update_ns \<lparr>last_update_ns = 0, tokens = 0\<rparr>)) div 100000"
proof -
  obtain acts d' where run: "xdp_run kernel_aya example_run datapath_boot = Ok (acts, d')" using example_run_Ok by blast
  have "\<forall>(k, t, ctx) \<in> set example_run. ctx_ok ctx \<and> t \<le> 1200000"
    by (simp add: example_run_def example_syn_ok)
  from ring_bound [OF xdp_contract run this, of "\<lparr>last_update_ns = 0, tokens = 0\<rparr>"] run show ?thesis
    by (simp add: datapath_boot_def)
qed

end
