(* ===== verification/ClosedLoop.thy ===== *)
theory ClosedLoop
  imports FirewallRates DaemonSafety
begin

text \<open>
  Both halves together: the packets of a SYN flood go through the kernel program, its records
  through the daemon, the daemon's alert into the reputation map, and from then on the kernel
  program drops the source.
\<close>

section \<open>Packets of a SYN flood\<close>

text \<open>An address and a port, as the bytes of the packet.\<close>

type_synonym endpoint = "(u8 \<times> u8 \<times> u8 \<times> u8) \<times> (u8 \<times> u8)"

definition syn_from :: "endpoint \<Rightarrow> endpoint \<Rightarrow> XdpContext \<Rightarrow> bool" where
  "syn_from src dst ctx \<longleftrightarrow> ctx_ok ctx \<and>
     (\<exists>p rest flags opts payload.
        frame ctx = build p \<and> fields_ok p \<and> \<not> fragmented p \<and> f_proto p = 6 \<and> f_src p = fst src \<and> f_dst p = fst dst \<and>
        f_payload p = tcp_segment rest (snd src) (snd dst) flags opts payload \<and>
        length rest = 14 \<and> options_ok opts \<and>
        flags AND tcpFlagSYN \<noteq> 0 \<and> flags AND (tcpFlagACK OR tcpFlagPSH) = 0)"

text \<open>The inter-arrival times of packets, from their times alone.\<close>

fun gaps :: "u64 \<Rightarrow> u64 list \<Rightarrow> u64 list" where
  "gaps prev [] = []"
| "gaps prev (t # ts) = (if prev \<noteq> 0 \<and> prev < t then [t - prev] else []) @ gaps t ts"

fun addr_num :: "u8 \<times> u8 \<times> u8 \<times> u8 \<Rightarrow> u32" where
  "addr_num (a, b, c, d) = be_u32 [a, b, c, d]"

text \<open>What the daemon decodes from the record of such a packet.\<close>

definition syn_record :: "endpoint \<Rightarrow> endpoint \<Rightarrow> u64 \<Rightarrow> FlowPacketMeta \<Rightarrow> bool" where
  "syn_record src dst t m \<longleftrightarrow>
     SrcIP m = addr_num (fst src) \<and> DstIP m = addr_num (fst dst) \<and>
     SrcPort m = of_nat (be_nat (fst (snd src)) (snd (snd src))) \<and>
     DstPort m = of_nat (be_nat (fst (snd dst)) (snd (snd dst))) \<and> TimestampNS m = t \<and> is_syn m"

lemma gaps_iats: "iats prev ms = gaps prev (map TimestampNS ms)"
  by (induction prev ms rule: iats.induct) auto

lemma syn_decoded:
  assumes "syn_from src dst ctx"
  shows "\<exists>m. UnmarshalBinary prev (rs_wire (event_of aya k t r (packet_meta (classify_frame t (frame ctx))))) = Inr m \<and>
           syn_record src dst t m"
proof -
  obtain s0 s1 s2 s3 p1 p2 d0 d1 d2 d3 q1 q2 where a: "src = ((s0, s1, s2, s3), (p1, p2))" "dst = ((d0, d1, d2, d3), (q1, q2))"
    by (metis prod.collapse)
  obtain p rest flags opts payload where p: "frame ctx = build p" "fields_ok p" "\<not> fragmented p" "f_proto p = 6"
      "f_src p = (s0, s1, s2, s3)" "f_dst p = (d0, d1, d2, d3)"
      "f_payload p = tcp_segment rest (p1, p2) (q1, q2) flags opts payload" "length rest = 14" "options_ok opts"
    and flags: "flags AND tcpFlagSYN \<noteq> 0" "flags AND (tcpFlagACK OR tcpFlagPSH) = 0"
    using assms unfolding syn_from_def a fst_conv snd_conv by blast
  let ?e = "event_of aya k t r ((meta_of t p)\<lparr>src_port := of_nat (be_nat p1 p2), dst_port := of_nat (be_nat q1 q2), tcp_flags := flags\<rparr>)"
  have c: "packet_meta (classify_frame t (frame ctx)) =
      (meta_of t p)\<lparr>src_port := of_nat (be_nat p1 p2), dst_port := of_nat (be_nat q1 q2), tcp_flags := flags\<rparr>"
    unfolding p(1) classify_tcp [OF p(2-4,7-9)] by simp
  have e: "src_ip ?e = raw_u32 s0 s1 s2 s3" "dst_ip ?e = raw_u32 d0 d1 d2 d3"
    by (simp_all add: event_of_def meta_of_def p(5,6))
  have len: "\<not> length (rs_wire ?e) < 24" by (simp add: rs_wire_length)
  note fields = rs_wire_fields [where rest = "[]", unfolded append_Nil2]
  show ?thesis
    unfolding c UnmarshalBinary_def fields e le_bytes32_raw syn_record_def is_syn_def using len flags
    by (simp add: a event_of_def meta_of_def p(4) guards protocolTCP_def)
qed

text \<open>If no record is lost, the ring buffer has one for each packet, in order.\<close>

lemma run_records:
  assumes "xdp_maps api contents key_size value_size opened aya rep gate cfg"
  shows "xdp_run aya es d = Ok (acts, d') \<Longrightarrow> \<forall>(k, t, ctx) \<in> set es. syn_from src dst ctx \<Longrightarrow>
    length (ring d') \<le> length (ring d) + length es \<and>
    (length (ring d') = length (ring d) + length es \<longrightarrow>
       (\<exists>ws ms. ring d' = ring d @ ws \<and> list_all2 (\<lambda>data m. UnmarshalBinary prev data = Inr m) ws ms \<and>
          list_all2 (\<lambda>(k, t, ctx) m. syn_record src dst t m) es ms))"
proof (induction es arbitrary: d acts)
  case Nil
  then show ?case by simp
next
  case (Cons e es)
  obtain k t ctx where e: "e = (k, t, ctx)" by (cases e)
  have ok: "syn_from src dst ctx" "ctx_ok ctx" "\<forall>(k, t, ctx) \<in> set es. syn_from src dst ctx"
    using Cons.prems(2) by (auto simp: e syn_from_def)
  obtain act d1 acts' where p: "process aya k t (frame ctx) d = (act, d1)" and r: "xdp_run aya es d1 = Ok (acts', d')"
    using xdp_run_Cons [OF Cons.prems(1) [unfolded e] ok(2)] .
  note ih = Cons.IH [OF r ok(3)]
  obtain w m where w: "ring d1 = ring d \<or> ring d1 = ring d @ [w]" "UnmarshalBinary prev w = Inr m" "syn_record src dst t m"
    using process_ring [OF assms p] syn_decoded [OF ok(1), of prev aya k t] by blast
  show ?case
  proof (cases "ring d1 = ring d")
    case True
    then show ?thesis using ih by simp
  next
    case False
    then have d1: "ring d1 = ring d @ [w]" using w(1) by simp
    show ?thesis
    proof (intro conjI impI)
      show "length (ring d') \<le> length (ring d) + length (e # es)" using ih d1 by simp
      assume "length (ring d') = length (ring d) + length (e # es)"
      then obtain ws ms where "ring d' = ring d1 @ ws" "list_all2 (\<lambda>data m. UnmarshalBinary prev data = Inr m) ws ms"
        "list_all2 (\<lambda>(k, t, ctx) m. syn_record src dst t m) es ms" using ih d1 by auto
      then show "\<exists>ws ms. ring d' = ring d @ ws \<and> list_all2 (\<lambda>data m. UnmarshalBinary prev data = Inr m) ws ms \<and>
          list_all2 (\<lambda>(k, t, ctx) m. syn_record src dst t m) (e # es) ms"
        using w(2,3) d1 by (intro exI [of _ "w # ws"] exI [of _ "m # ms"]) (simp add: e)
    qed
  qed
qed

lemma syn_record_key:
  assumes "syn_record src dst t m" and "addr_num (fst src) < addr_num (fst dst)"
  shows "snd (canonicalize m)"
    and "key_of m = \<lparr>IPLo = addr_num (fst src), IPHi = addr_num (fst dst),
           PortLo = of_nat (be_nat (fst (snd src)) (snd (snd src))),
           PortHi = of_nat (be_nat (fst (snd dst)) (snd (snd dst))), KProtocol = 6\<rparr>"
  using assms by (simp_all add: syn_record_def canonicalize_def is_syn_def protocolTCP_def)

text \<open>The records of a flood of packets are a flood of packets to the aggregator.\<close>

definition packet_flood :: "endpoint \<Rightarrow> endpoint \<Rightarrow> ('k \<times> u64 \<times> XdpContext) list \<Rightarrow> bool" where
  "packet_flood src dst es \<longleftrightarrow>
     (\<forall>(k, t, ctx) \<in> set es. syn_from src dst ctx) \<and> addr_num (fst src) < addr_num (fst dst) \<and>
     500 \<le> length es \<and> length es \<le> 36000 \<and>
     30 \<le> length (gaps 0 (map (fst \<circ> snd) es)) \<and> (\<forall>g \<in> set (gaps 0 (map (fst \<circ> snd) es)). g < 500000)"

lemma record_of:
  assumes "list_all2 (\<lambda>(k, t, ctx) m. syn_record src dst t m) es ms" and "m \<in> set ms"
  shows "\<exists>t. syn_record src dst t m"
  using assms by (induction es ms rule: list_all2_induct) auto

lemma records_flood:
  assumes "packet_flood src dst es" and "list_all2 (\<lambda>(k, t, ctx) m. syn_record src dst t m) es ms"
  shows "syn_flood ms"
proof -
  have "map TimestampNS ms = map (fst \<circ> snd) es"
    using assms(2) by (induction es ms rule: list_all2_induct) (auto simp: syn_record_def)
  moreover have "is_syn m \<and> snd (canonicalize m)" if mem: "m \<in> set ms" for m
  proof -
    obtain t where t: "syn_record src dst t m" using record_of [OF assms(2) mem] by blast
    then have "snd (canonicalize m)" using assms(1) by (intro syn_record_key(1) [OF t]) (simp add: packet_flood_def)
    with t show ?thesis by (simp add: syn_record_def)
  qed
  moreover have "length ms = length es" using assms(2) by (simp add: list_all2_lengthD)
  ultimately show ?thesis using assms(1) by (simp add: syn_flood_def gaps_iats packet_flood_def)
qed

section \<open>Property\<close>

lemma host_entry_hit:
  assumes "xdp_maps api contents key_size value_size opened aya rep gate cfg"
    and "contents rep s (host_key a b c e) = Some (VU32 1)"
  shows "Reputation_get aya 32 (raw_addr (a, b, c, e)) s = Some 1"
proof (rule xdp_maps.reputation_match [OF assms(1), of 32])
  show "contents rep s (lpm_key 32 (raw_addr (a, b, c, e))) = Some (VU32 1)"
    using assms(2) by (simp add: lpm_key_def CIDRMask_values)
qed simp_all

text \<open>
  (C1) The whole loop: let the packets of a SYN flood (one-way, at least 500, less than half a
  millisecond apart, from the lower address) arrive while the kernel program runs, and let no
  record be lost.  Then there is a run of the daemon that reads just these records, recognises
  the flood and blocks the source, and from then on the kernel program drops every unfragmented
  IPv4 packet of that source, provided the source is in no safe network, the kernel accepts the
  entry and dry-run is off.
\<close>

theorem closed_loop:
  assumes "xdp_maps api contents key_size value_size opened aya rep gate cfg"
    and "reputationMap mgr = Some rep" and "cfg \<noteq> rep" and "contents cfg s0 (VU32 1) \<noteq> Some (VU32 1)"
    and "packet_flood ((a, b, c, e), sport) dst es"
    and "xdp_run aya es dp = Ok (acts, dp')" and "ring dp = []" and "length (ring dp') = length es"
    and "isSafeNetwork (NewFeedbackController env) (IPv4 a b c e) = None"
    and "fst (BlockIP api mgr (dotted a b c e @ ''/32'') s0) = None"
  shows "\<exists>ff d. daemon_run api mgr (daemon_init env t s0)
             (map Frame (ring dp') @ [Silent, Verdict ff, Silent, Silent]) d \<and>
           Attack (Classify fl64 ff) = AttackSynFlood \<and>
           (\<forall>ctx p now dq. ctx_ok ctx \<and> frame ctx = build p \<and> fields_ok p \<and> \<not> fragmented p \<and> f_src p = (a, b, c, e) \<longrightarrow>
              (\<exists>dq'. ai_ida_firewall aya ctx now (d_kernel d) dq = Ok (XDP_DROP, dq')))"
proof -
  have maps: "ebpf_maps api contents key_size value_size opened" using assms(1) by (rule xdp_maps.axioms(1))
  obtain s1 where block: "BlockIP api mgr (dotted a b c e @ ''/32'') s0 = (None, s1)"
    using assms(10) by (metis prod.collapse)
  note eff = ebpf_maps.BlockIP_effect [OF maps assms(2) NewLpmKey_slash32, of _ a b c e s0]
  have entry: "contents rep s1 (host_key a b c e) = Some (VU32 1)"
    using eff [of rep] unfolding block norm_host_key by simp
  have "contents cfg s1 = contents cfg s0" using eff [of cfg] assms(3) unfolding block norm_host_key by simp
  then have enforce: "\<not> dry_run aya s1" using assms(4) xdp_maps.dry_run_contents [OF assms(1)] by simp
  have "\<forall>(k, t, ctx) \<in> set es. syn_from ((a, b, c, e), sport) dst ctx" and lo: "addr_num (a, b, c, e) < addr_num (fst dst)"
    using assms(5) by (auto simp: packet_flood_def)
  then obtain ms where dec: "list_all2 (\<lambda>data m. UnmarshalBinary zero_meta data = Inr m) (ring dp') ms"
    and rec: "list_all2 (\<lambda>(k, t, ctx) m. syn_record ((a, b, c, e), sport) dst t m) es ms"
    using run_records [OF assms(1,6), of "((a, b, c, e), sport)" dst zero_meta] assms(7,8) by auto
  define key where "key = \<lparr>IPLo = addr_num (a, b, c, e), IPHi = addr_num (fst dst),
           PortLo = of_nat (be_nat (fst sport) (snd sport)),
           PortHi = of_nat (be_nat (fst (snd dst)) (snd (snd dst))), KProtocol = 6\<rparr>"
  have keys: "key_of m = key" if "m \<in> set ms" for m
    using record_of [OF rec that] syn_record_key(2) [of "((a, b, c, e), sport)" dst] lo by (auto simp: key_def)
  have src: "u32ToIP (IPLo key) = IPv4 a b c e"
    by (simp add: key_def u32ToIP_def be_u32_octets)
  obtain ff d where d: "daemon_run api mgr (daemon_init env t s0) (map Frame (ring dp') @ [Silent, Verdict ff, Silent, Silent]) d"
    "Attack (Classify fl64 ff) = AttackSynFlood" "d_kernel d = s1"
    using flood_run [OF records_flood [OF assms(5) rec] keys dec src assms(9) block, of t] by blast
  have "\<exists>dq'. ai_ida_firewall aya ctx now (d_kernel d) dq = Ok (XDP_DROP, dq')"
    if "ctx_ok ctx" "frame ctx = build p" "fields_ok p" "\<not> fragmented p" "f_src p = (a, b, c, e)" for ctx p now dq
    unfolding d(3)
    by (rule blacklisted_dropped [OF that(1-4)]) (use host_entry_hit [OF assms(1) entry] enforce that(5) in simp_all)
  with d(1,2) show ?thesis by blast
qed

section \<open>An instance\<close>

text \<open>At level DEBUG every packet is reported; 200 \<open>\<mu>s\<close> apart none is refused by the log limiter.\<close>

lemma process_logged:
  assumes "process kernel_aya verbose_kernel t bs d = (act, d')" and "log_slot d = Some st"
    and "tokens st \<le> LOG_BURST_CAPACITY" and "unat (last_update_ns st) + 100000 \<le> unat t"
    and "32 * (length (ring d) + 1) \<le> 1048576"
  shows "length (ring d') = length (ring d) + 1"
    and "\<exists>st'. log_slot d' = Some st' \<and> tokens st' \<le> LOG_BURST_CAPACITY \<and> unat (last_update_ns st') \<le> unat t"
proof -
  let ?c = "classify_frame t bs"
  obtain r d1 where j: "judge kernel_aya t verbose_kernel ?c d = (r, d1)" by fastforce
  have d1: "ring d1 = ring d" "log_slot d1 = Some st" using judge_log [OF j] assms(2) by simp_all
  have d': "d' = log_event kernel_aya verbose_kernel t r (packet_meta ?c) d1" using assms(1) j by (simp add: process_def Let_def)
  have rep: "reported kernel_aya verbose_kernel r"
    by (cases r) (simp_all add: reported_def verbose_kernel_config rs_severity_def)
  obtain ok st' where take: "take_token LOG_NANOS_PER_TOKEN LOG_BURST_CAPACITY t st = (ok, st')" by fastforce
  have "ok" using log_bucket.take_token_granted [OF _ assms(3), of t] assms(4) take by (simp add: guards)
  then show "length (ring d') = length (ring d) + 1"
    using rep d1 take assms(5) by (simp add: d' log_event_def check_log_rate_limit_def k_output_def EVENTS_def)
  note step = log_bucket.take_token_step [OF assms(3) take]
  have "last_update_ns st \<le> t" using assms(4) by (simp add: word_le_nat_alt)
  then have "unat (last_update_ns st') \<le> unat t" using step(3) by (simp add: max_def word_le_nat_alt)
  then show "\<exists>st'. log_slot d' = Some st' \<and> tokens st' \<le> LOG_BURST_CAPACITY \<and> unat (last_update_ns st') \<le> unat t"
    using rep d1 take step(1) by (simp add: d' log_event_def check_log_rate_limit_def)
qed

lemma run_logged:
  "xdp_run kernel_aya (map (\<lambda>t. (verbose_kernel, t, ctx)) ts) d = Ok (acts, d') \<Longrightarrow> ctx_ok ctx \<Longrightarrow> log_slot d = Some st \<Longrightarrow>
   tokens st \<le> LOG_BURST_CAPACITY \<Longrightarrow> spaced (unat (last_update_ns st) # map unat ts) \<Longrightarrow>
   32 * (length (ring d) + length ts) \<le> 1048576 \<Longrightarrow> length (ring d') = length (ring d) + length ts"
proof (induction ts arbitrary: d acts st)
  case Nil
  then show ?case by simp
next
  case (Cons t ts)
  obtain act d1 acts' where p: "process kernel_aya verbose_kernel t (frame ctx) d = (act, d1)"
    and r: "xdp_run kernel_aya (map (\<lambda>t. (verbose_kernel, t, ctx)) ts) d1 = Ok (acts', d')"
    using xdp_run_Cons [OF Cons.prems(1) [unfolded list.map] Cons.prems(2)] .
  note one = process_logged [OF p Cons.prems(3,4)]
  have len: "length (ring d1) = length (ring d) + 1"
    using one(1) Cons.prems(5,6) by (simp add: spaced_def)
  obtain st1 where st1: "log_slot d1 = Some st1" "tokens st1 \<le> LOG_BURST_CAPACITY" "unat (last_update_ns st1) \<le> unat t"
    using one(2) Cons.prems(5,6) by (auto simp: spaced_def)
  have "spaced (unat (last_update_ns st1) # map unat ts)"
    using Cons.prems(5) st1(3) by (fastforce simp: spaced_def)
  from Cons.IH [OF r Cons.prems(2) st1(1,2) this] len Cons.prems(6) show ?case by simp
qed

definition flood_times :: "u64 list" where
  "flood_times = map (\<lambda>i. of_nat (i * 200000)) [1..<Suc 500]"

definition flood_packets :: "(kernel \<times> u64 \<times> XdpContext) list" where
  "flood_packets = map (\<lambda>t. (verbose_kernel, t, ctx_of example_syn)) flood_times"

lemma flood_times_nat: "map unat flood_times = map (\<lambda>i. i * 200000) [1..<Suc 500]"
  by (simp add: flood_times_def unat_of_nat del: of_nat_mult upt_Suc)

lemma flood_times_spaced: "spaced (0 # map unat flood_times)"
  unfolding flood_times_nat spaced_def
  by (auto simp: sorted_wrt_map sorted_wrt_upt intro!: sorted_wrt_mono_rel [OF _ sorted_wrt_upt])

lemma flood_times_gaps: "gaps 0 flood_times = replicate 499 200000"
proof -
  let ?m = "syn_to 1 2"
  have "map TimestampNS (paced ?m 200000 500) = flood_times" by (simp add: paced_def flood_times_def del: upt_Suc)
  then have "gaps 0 flood_times = iats 0 (paced ?m 200000 500)" by (simp add: gaps_iats)
  then show ?thesis using iats_paced [of 500 200000 ?m] by simp
qed

lemma flood_packets_flood: "packet_flood ((203, 0, 113, 7), (156, 64)) ((203, 0, 113, 8), (0, 80)) flood_packets"
proof -
  have "syn_from ((203, 0, 113, 7), (156, 64)) ((203, 0, 113, 8), (0, 80)) (ctx_of example_syn)"
    unfolding syn_from_def
  proof (intro conjI exI)
    show "f_payload example_syn = tcp_segment [0, 0, 0, 1, 0, 0, 0, 0, 16, 0, 0, 0, 0, 0]
        (snd ((203, 0, 113, 7), (156, 64))) (snd ((203, 0, 113, 8), (0, 80))) 2 [] [104, 105]"
      by (simp add: example_syn_payload)
  qed (simp_all add: example_syn_ok options_ok_def guards, simp_all add: example_syn_def)
  moreover have "map (fst \<circ> snd) flood_packets = flood_times" by (simp add: flood_packets_def comp_def)
  moreover have "length flood_packets = 500" by (simp add: flood_packets_def flood_times_def)
  ultimately show ?thesis
    by (auto simp: packet_flood_def flood_times_gaps flood_packets_def be_u32_def)
qed

lemma flood_packets_logged:
  "\<exists>acts dp'. xdp_run kernel_aya flood_packets datapath_boot = Ok (acts, dp') \<and> length (ring dp') = length flood_packets"
proof -
  obtain acts dp' where run: "xdp_run kernel_aya flood_packets datapath_boot = Ok (acts, dp')"
    using xdp_run_total [of flood_packets kernel_aya datapath_boot] by (auto simp: flood_packets_def example_syn_ok)
  have "length (ring dp') = length (ring datapath_boot) + length flood_times"
    using run flood_times_spaced
    by (intro run_logged [where st = "\<lparr>last_update_ns = 0, tokens = 0\<rparr>" and ctx = "ctx_of example_syn"])
       (simp_all add: flood_packets_def example_syn_ok datapath_boot_def guards flood_times_def del: upt_Suc)
  then show ?thesis using run by (auto simp: flood_packets_def datapath_boot_def)
qed

theorem closed_loop_witness:
  "\<exists>acts dp' ff d dq. xdp_run kernel_aya flood_packets datapath_boot = Ok (acts, dp') \<and>
     daemon_run kernel_api kernel_mgr (daemon_init bare_host 0 verbose_kernel)
       (map Frame (ring dp') @ [Silent, Verdict ff, Silent, Silent]) d \<and>
     Attack (Classify fl64 ff) = AttackSynFlood \<and>
     ai_ida_firewall kernel_aya (ctx_of example_syn) 200000000 (d_kernel d) dp' = Ok (XDP_DROP, dq)"
proof -
  obtain acts dp' where run: "xdp_run kernel_aya flood_packets datapath_boot = Ok (acts, dp')"
    and len: "length (ring dp') = length flood_packets" using flood_packets_logged by blast
  have boot: "ring datapath_boot = []" by (simp add: datapath_boot_def)
  have enforce: "k_contents CONFIG_MAP verbose_kernel (VU32 1) \<noteq> Some (VU32 1)"
    by (simp add: k_contents_def verbose_kernel_def kernel_boot_def CONFIG_MAP_def zero_val_def)
  have "fst (BlockIP kernel_api kernel_mgr (dotted 203 0 113 7 @ ''/32'') verbose_kernel) = None"
    unfolding BlockIP_def NewLpmKey_slash32
    by (simp add: put_wrap_def kernel_mgr_def kernel_api_def k_put_def REPUTATION_MAP_def CONFIG_MAP_def map_full_def
          verbose_kernel_def kernel_boot_def)
  from closed_loop [OF xdp_contract kernel_mgr_reputation kernel_maps_differ enforce flood_packets_flood run boot len
      example_not_safe this, of 0]
  obtain ff d where d: "daemon_run kernel_api kernel_mgr (daemon_init bare_host 0 verbose_kernel)
        (map Frame (ring dp') @ [Silent, Verdict ff, Silent, Silent]) d" "Attack (Classify fl64 ff) = AttackSynFlood"
    and drop: "\<And>ctx p now dq. ctx_ok ctx \<and> frame ctx = build p \<and> fields_ok p \<and> \<not> fragmented p \<and> f_src p = (203, 0, 113, 7) \<Longrightarrow>
       \<exists>dq'. ai_ida_firewall kernel_aya ctx now (d_kernel d) dq = Ok (XDP_DROP, dq')" by blast
  have "f_src example_syn = (203, 0, 113, 7)" by (simp add: example_syn_def)
  then obtain dq where "ai_ida_firewall kernel_aya (ctx_of example_syn) 200000000 (d_kernel d) dp' = Ok (XDP_DROP, dq)"
    using drop [of "ctx_of example_syn" example_syn] example_syn_ok by auto
  with run d show ?thesis by blast
qed

end
