(* ===== verification/LockedShards.thy ===== *)
theory LockedShards
  imports Sharding
begin

text \<open>
  Shards of pointers behind mutexes.  \<open>flow.go\<close> keeps two of these: \<open>shard\<close> maps flow keys
  to \<open>*flowAccumulator\<close>, \<open>portShard\<close> maps source addresses to \<open>*portTracker\<close>, both sixteen
  times and each behind its own \<open>sync.Mutex\<close>.  The record \<open>locked\<close> holds the mutexes, the
  tables of pointers and the heap the pointers refer to.  The locale \<open>windowed\<close> shows once,
  for both, that a table entry is the fold of the items stored under its key since the shard
  was last taken, and that an entry that was taken is never written again.  The predicate
  \<open>excl\<close> is mutual exclusion: who is inside a critical section, and that nobody else is.
\<close>

section \<open>Mutexes, tables and the heap\<close>

record ('k, 'v) locked =
  mu :: "nat \<Rightarrow> bool"
  tab :: "nat \<Rightarrow> ('k, nat) go_map"
  heap :: "nat \<Rightarrow> 'v"
  fresh :: nat

definition new_locked :: "'v \<Rightarrow> ('k, 'v) locked" where
  "new_locked v0 = \<lparr>mu = \<lambda>_. False, tab = \<lambda>_. [], heap = \<lambda>_. v0, fresh = 0\<rparr>"

text \<open>\<open>mu.Lock()\<close> (its caller has to find the mutex free) and \<open>mu.Unlock()\<close>.\<close>

definition acquire :: "nat \<Rightarrow> ('k, 'v) locked \<Rightarrow> ('k, 'v) locked" where
  "acquire i S = S\<lparr>mu := (mu S)(i := True)\<rparr>"

definition release :: "nat \<Rightarrow> ('k, 'v) locked \<Rightarrow> ('k, 'v) locked" where
  "release i S = S\<lparr>mu := (mu S)(i := False)\<rparr>"

text \<open>
  The update of an entry after its lookup returned \<open>p\<close>: an absent key gets a new object in
  the table, then the object is changed in place.
\<close>

fun store_at :: "nat \<Rightarrow> 'v \<Rightarrow> ('v \<Rightarrow> 'v) \<Rightarrow> 'k \<Rightarrow> nat option \<Rightarrow> ('k, 'v) locked \<Rightarrow> ('k, 'v) locked" where
  "store_at i v0 f k (Some a) S = S\<lparr>heap := (heap S)(a := f (heap S a))\<rparr>"
| "store_at i v0 f k None S =
     S\<lparr>tab := (tab S)(i := go_set (tab S i) k (fresh S)),
       heap := (heap S)(fresh S := f v0), fresh := Suc (fresh S)\<rparr>"

text \<open>The table of shard \<open>i\<close> is replaced by an empty one; the old one stays with the caller.\<close>

definition empty_shard :: "nat \<Rightarrow> ('k, 'v) locked \<Rightarrow> ('k, 'v) locked" where
  "empty_shard i S = S\<lparr>tab := (tab S)(i := [])\<rparr>"

lemmas locked_defs = acquire_def release_def empty_shard_def new_locked_def

section \<open>Mutual exclusion\<close>

text \<open>\<open>occ h\<close> is the shard whose critical section the actor \<open>h\<close> is in.\<close>

definition excl :: "(nat \<Rightarrow> bool) \<Rightarrow> ('h \<Rightarrow> nat option) \<Rightarrow> bool" where
  "excl locks occ \<longleftrightarrow>
     (\<forall>i. locks i \<longleftrightarrow> (\<exists>h. occ h = Some i)) \<and>
     (\<forall>h h' i. occ h = Some i \<longrightarrow> occ h' = Some i \<longrightarrow> h = h')"

lemma excl_init: "excl (\<lambda>_. False) (\<lambda>_. None)"
  by (simp add: excl_def)

lemma excl_enter:
  assumes "excl locks occ" and "\<not> locks i" and "occ h = None"
  shows "excl (locks(i := True)) (occ(h := Some i))"
proof -
  have "(locks(i := True)) j \<longleftrightarrow> (\<exists>h'. (occ(h := Some i)) h' = Some j)" for j
    using assms unfolding excl_def by (cases "j = i") (auto, (metis option.distinct(1) option.inject)+)
  moreover have "h1 = h2"
    if "(occ(h := Some i)) h1 = Some j" "(occ(h := Some i)) h2 = Some j" for h1 h2 j
    using that assms unfolding excl_def by (auto split: if_splits)
  ultimately show ?thesis unfolding excl_def by blast
qed

lemma excl_leave:
  assumes "excl locks occ" and "occ h = Some i"
  shows "excl (locks(i := False)) (occ(h := None))"
proof -
  have "(locks(i := False)) j \<longleftrightarrow> (\<exists>h'. (occ(h := None)) h' = Some j)" for j
    using assms unfolding excl_def by (cases "j = i") (auto, (metis option.distinct(1) option.inject)+)
  then show ?thesis using assms unfolding excl_def by simp
qed

lemma excl_other: "excl locks occ \<Longrightarrow> occ h = Some i \<Longrightarrow> h' \<noteq> h \<Longrightarrow> occ h' \<noteq> Some i"
  unfolding excl_def by blast

lemma excl_held: "excl locks occ \<Longrightarrow> locks i \<Longrightarrow> \<exists>h. occ h = Some i"
  unfolding excl_def by blast

lemma excl_free: "excl locks occ \<Longrightarrow> \<not> locks i \<Longrightarrow> occ h \<noteq> Some i"
  unfolding excl_def by blast

section \<open>Windows\<close>

text \<open>An object that was handed out with its table: allocated, and in no table any more.\<close>

definition detached :: "('k, 'v) locked \<Rightarrow> nat \<Rightarrow> bool" where
  "detached S a \<longleftrightarrow> a < fresh S \<and> (\<forall>i k. (k, a) \<notin> set (tab S i))"

text \<open>
  \<open>win k\<close> are the items stored under \<open>k\<close> since its shard was last emptied: the key has an
  entry when there are any, and the entry is their fold.  No two entries share an object.
\<close>

definition holds_windows ::
    "('k \<Rightarrow> nat) \<Rightarrow> ('e \<Rightarrow> 'v \<Rightarrow> 'v) \<Rightarrow> 'v \<Rightarrow> ('k, 'v) locked \<Rightarrow> ('k \<Rightarrow> 'e list) \<Rightarrow> bool" where
  "holds_windows idx upd v0 S win \<longleftrightarrow>
     (\<forall>i. go_map_ok (tab S i)) \<and>
     (\<forall>i k a. (k, a) \<in> set (tab S i) \<longrightarrow> idx k = i \<and> a < fresh S) \<and>
     (\<forall>k. win k = [] \<longleftrightarrow> go_get (tab S (idx k)) k = None) \<and>
     (\<forall>k a. go_get (tab S (idx k)) k = Some a \<longrightarrow> heap S a = fold upd (win k) v0) \<and>
     (\<forall>k k' a. go_get (tab S (idx k)) k = Some a \<longrightarrow> go_get (tab S (idx k')) k' = Some a \<longrightarrow> k = k')"

locale windowed = sharded idx n for idx :: "'k \<Rightarrow> nat" and n :: nat +
  fixes upd :: "'e \<Rightarrow> 'v \<Rightarrow> 'v" and v0 :: 'v
begin

abbreviation rep :: "('k, 'v) locked \<Rightarrow> ('k \<Rightarrow> 'e list) \<Rightarrow> bool" where
  "rep \<equiv> holds_windows idx upd v0"

lemma rep_new: "rep (new_locked v0) (\<lambda>_. [])"
  by (simp add: holds_windows_def new_locked_def)

lemma rep_locks [simp]:
  "rep (acquire i S) win = rep S win" "rep (release i S) win = rep S win"
  by (simp_all add: holds_windows_def locked_defs)

lemma rep_mem:
  assumes "rep S win"
  shows "(k, a) \<in> set (tab S i) \<longleftrightarrow> idx k = i \<and> go_get (tab S (idx k)) k = Some a"
  using assms unfolding holds_windows_def go_map_ok_def by (metis map_of_eq_Some_iff)

lemma rep_entry:
  assumes "rep S win" and "go_get (tab S (idx k)) k = Some a"
  shows "heap S a = fold upd (win k) v0" "win k \<noteq> []" "a < fresh S"
  using assms unfolding holds_windows_def by (auto dest: map_of_SomeD)

lemma rep_absent: "rep S win \<Longrightarrow> go_get (tab S (idx k)) k = None \<longleftrightarrow> win k = []"
  by (simp add: holds_windows_def)

lemma detached_alt:
  "rep S win \<Longrightarrow> detached S a \<longleftrightarrow> a < fresh S \<and> (\<forall>k. go_get (tab S (idx k)) k \<noteq> Some a)"
  by (auto simp: detached_def rep_mem)

lemma get_store:
  "go_get (tab S (idx k)) k = p \<Longrightarrow>
     go_get (tab (store_at (idx k) v f k p S) (idx k')) k' =
     (if k' = k then Some (case p of None \<Rightarrow> fresh S | Some a \<Rightarrow> a) else go_get (tab S (idx k')) k')"
  by (cases p) auto

lemma rep_store:
  assumes rep: "rep S win" and p: "go_get (tab S (idx k)) k = p"
  shows "rep (store_at (idx k) v0 (upd e) k p S) (win(k := win k @ [e]))"
proof (cases p)
  case None
  let ?S = "store_at (idx k) v0 (upd e) k p S"
  note get = get_store [OF p, of v0 "upd e", unfolded None option.case, folded None]
  have old: "a < fresh S" if "go_get (tab S (idx k')) k' = Some a" for k' a
    using rep_entry(3) [OF rep that] .
  have k: "win k = []" using rep_absent [OF rep] p None by blast
  have "go_map_ok (tab ?S i)" for i using rep None by (simp add: holds_windows_def)
  moreover have "idx k' = i \<and> a < fresh ?S" if "(k', a) \<in> set (tab ?S i)" for k' a i
    using that rep p None
    by (auto simp: holds_windows_def go_set_absent_append less_SucI split: if_splits)
  moreover have "heap ?S a = fold upd ((win(k := win k @ [e])) k') v0"
    if "go_get (tab ?S (idx k')) k' = Some a" for k' a
    using that old [of k' a] rep_entry(1) [OF rep, of k' a] None k unfolding get
    by (simp split: if_splits)
  moreover have "k1 = k2"
    if "go_get (tab ?S (idx k1)) k1 = Some a" "go_get (tab ?S (idx k2)) k2 = Some a" for k1 k2 a
  proof -
    have inj: "go_get (tab S (idx k1)) k1 = Some a \<Longrightarrow> go_get (tab S (idx k2)) k2 = Some a \<Longrightarrow> k1 = k2"
      using rep unfolding holds_windows_def by blast
    show ?thesis using that inj old [of k1 a] old [of k2 a] unfolding get by (simp split: if_splits)
  qed
  moreover have "(win(k := win k @ [e])) k' = [] \<longleftrightarrow> go_get (tab ?S (idx k')) k' = None" for k'
    unfolding get using rep_absent [OF rep, of k'] by simp
  ultimately show ?thesis unfolding holds_windows_def by blast
next
  case (Some a)
  then show ?thesis
    using rep p rep_entry [OF rep] by (auto simp: holds_windows_def)
qed

lemma store_length:
  "go_get (tab S i) k = p \<Longrightarrow> p \<noteq> None \<or> length (tab S i) < b \<Longrightarrow> (\<And>j. length (tab S j) \<le> b) \<Longrightarrow>
     length (tab (store_at i v0 f k p S) j) \<le> b"
  by (cases p) (auto simp: go_map Suc_le_eq)

lemma store_other:
  "j \<noteq> i \<Longrightarrow> tab (store_at i v0 f k p S) j = tab S j"
  by (cases p) auto

lemma store_mu [simp]: "mu (store_at i v0 f k p S) = mu S"
  by (cases p) auto

text \<open>A detached object stays as it is, whatever is stored afterwards.\<close>

lemma detached_store:
  assumes "rep S win" and "go_get (tab S (idx k)) k = p" and "detached S a"
  shows "detached (store_at (idx k) v0 (upd e) k p S) a"
        "heap (store_at (idx k) v0 (upd e) k p S) a = heap S a"
  using assms rep_store [OF assms(1,2), of e]
  by (cases p; auto simp: detached_def go_set_absent_append dest: map_of_SomeD split: if_splits)+

lemma rep_empty:
  "rep S win \<Longrightarrow> rep (empty_shard i S) (\<lambda>k. if idx k = i then [] else win k)"
  by (auto simp: holds_windows_def empty_shard_def split: if_splits)

lemma detached_empty: "detached S a \<Longrightarrow> detached (empty_shard i S) a"
  by (auto simp: detached_def empty_shard_def)

lemma detached_taken:
  assumes "rep S win" and "(k, a) \<in> set (tab S i)"
  shows "detached (empty_shard i S) a"
proof -
  have "k' = k" "j = i" if "(k', a) \<in> set (tab S j)" for k' j
    using assms that rep_mem [OF assms(1)] unfolding holds_windows_def by metis+
  moreover have "a < fresh S" using assms unfolding holds_windows_def by blast
  ultimately show ?thesis by (auto simp: detached_def empty_shard_def)
qed

end

lemma detached_locks [simp]:
  "detached (acquire i S) a = detached S a" "detached (release i S) a = detached S a"
  by (simp_all add: detached_def locked_defs)

lemma locked_fields [simp]:
  "tab (acquire i S) = tab S" "heap (acquire i S) = heap S"
  "mu (acquire i S) = (mu S)(i := True)"
  "tab (release i S) = tab S" "heap (release i S) = heap S"
  "mu (release i S) = (mu S)(i := False)"
  "tab (empty_shard i S) = (tab S)(i := [])" "heap (empty_shard i S) = heap S"
  "mu (empty_shard i S) = mu S"
  by (simp_all add: locked_defs)

end
