(* ===== verification/Interleaving.thy ===== *)
theory Interleaving
  imports LockedShards FlowStats
begin

text \<open>
  The aggregator of \<^verbatim>\<open>src/user-space/pkg/aggregator/flow.go\<close> as its goroutines run it: any
  number of \<open>Ingest\<close> calls beside the \<open>Run\<close> goroutine and the consumer of the output channel.
  Each call is a program counter; \<open>Ingest\<close> holds one shard's mutex at a time, \<open>flush\<close> takes the
  sixteen port shards and then the sixteen flow shards one by one, and reads the accumulators
  it took after the mutex is free again.  \<open>mu.Lock()\<close> with the read that follows is one step,
  the last write with \<open>mu.Unlock()\<close> is another, and every other actor may run between them.
  \<open>range\<close> over a map yields any permutation of it.  Labels record what a step did.
\<close>

section \<open>Program counters and state\<close>

datatype ingest_pc =
    Returned_ok
  | WantFlow FlowPacketMeta
  | InFlow FlowPacketMeta "nat option"
  | Refusing
  | WantPort FlowPacketMeta
  | InPort FlowPacketMeta "nat option"

text \<open>The locals of \<open>flush\<close>, and whether \<open>Run\<close> closes the channel after it.\<close>

record flush_locals =
  fl_windowStart :: int
  fl_windowEnd :: int
  fl_portSnapshot :: "(u32, nat) go_map"
  fl_final :: bool

datatype run_pc =
    Selecting
  | WantPorts flush_locals nat
  | InPorts flush_locals nat "(u32, nat) go_map"
  | WantFlows flush_locals nat
  | InFlows flush_locals nat "(FlowKey, nat) go_map"
  | Sending flush_locals nat "(FlowKey, nat) go_map"
  | RunReturned

record conc =
  cFlows :: "(FlowKey, flowAccumulator) locked"
  cPorts :: "(u32, portTracker) locked"
  cOut :: "FlowFeatures list"
  cClosed :: bool
  cWindowStart :: int
  cDroppedNewFlows :: u64
  cDroppedOutput :: u64
  cIngest :: "nat \<Rightarrow> ingest_pc"
  cRun :: run_pc

definition new_conc :: "int \<Rightarrow> conc" where
  "new_conc now =
     \<lparr>cFlows = new_locked zero_accumulator, cPorts = new_locked newPortTracker, cOut = [],
      cClosed = False, cWindowStart = now, cDroppedNewFlows = 0, cDroppedOutput = 0,
      cIngest = \<lambda>_. Returned_ok, cRun = Selecting\<rparr>"

datatype conc_label =
    Called nat FlowPacketMeta
  | Observed nat FlowPacketMeta
  | Refused nat FlowPacketMeta
  | RefusalCounted nat
  | PortObserved nat FlowPacketMeta
  | IngestInner nat
  | FlushBegins int
  | PortsTaken nat
  | FlowsTaken nat
  | Sent FlowKey FlowFeatures
  | Lost FlowKey FlowFeatures
  | FlushInner
  | FlushEnds
  | Received FlowFeatures

section \<open>Ingest\<close>

text \<open>The accesses of one call; \<open>t\<close> names the goroutine.\<close>

definition at_ingest :: "nat \<Rightarrow> ingest_pc \<Rightarrow> conc \<Rightarrow> conc" where
  "at_ingest t pc s = s\<lparr>cIngest := (cIngest s)(t := pc)\<rparr>"

definition ingest_lock_flow :: "nat \<Rightarrow> FlowPacketMeta \<Rightarrow> conc \<Rightarrow> conc" where
  "ingest_lock_flow t m s =
     (let key = fst (canonicalize m); i = unat (shardIndex key)
      in at_ingest t (InFlow m (go_get (tab (cFlows s) i) key))
           (s\<lparr>cFlows := acquire i (cFlows s)\<rparr>))"

definition ingest_refuses :: "FlowPacketMeta \<Rightarrow> nat option \<Rightarrow> conc \<Rightarrow> bool" where
  "ingest_refuses m p s \<longleftrightarrow>
     p = None \<and> length (tab (cFlows s) (unat (shardIndex (fst (canonicalize m))))) \<ge> maxFlowsPerShard"

definition ingest_refuse :: "nat \<Rightarrow> FlowPacketMeta \<Rightarrow> conc \<Rightarrow> conc" where
  "ingest_refuse t m s =
     at_ingest t Refusing
       (s\<lparr>cFlows := release (unat (shardIndex (fst (canonicalize m)))) (cFlows s)\<rparr>)"

definition ingest_count_refused :: "nat \<Rightarrow> conc \<Rightarrow> conc" where
  "ingest_count_refused t s =
     at_ingest t Returned_ok (s\<lparr>cDroppedNewFlows := cDroppedNewFlows s + 1\<rparr>)"

definition ingest_observe ::
    "(real \<Rightarrow> real) \<Rightarrow> nat \<Rightarrow> FlowPacketMeta \<Rightarrow> nat option \<Rightarrow> conc \<Rightarrow> conc" where
  "ingest_observe r t m p s =
     (case canonicalize m of (key, srcIsLo) \<Rightarrow>
        let i = unat (shardIndex key)
        in at_ingest t (WantPort m)
             (s\<lparr>cFlows := release i
                  (store_at i zero_accumulator (observe r m srcIsLo) key p (cFlows s))\<rparr>))"

definition ingest_lock_port :: "nat \<Rightarrow> FlowPacketMeta \<Rightarrow> conc \<Rightarrow> conc" where
  "ingest_lock_port t m s =
     (let i = unat (srcIPShardIndex (SrcIP m))
      in at_ingest t (InPort m (go_get (tab (cPorts s) i) (SrcIP m)))
           (s\<lparr>cPorts := acquire i (cPorts s)\<rparr>))"

definition ingest_observe_port :: "nat \<Rightarrow> FlowPacketMeta \<Rightarrow> nat option \<Rightarrow> conc \<Rightarrow> conc" where
  "ingest_observe_port t m p s =
     (let i = unat (srcIPShardIndex (SrcIP m))
      in at_ingest t Returned_ok
           (s\<lparr>cPorts := release i
                (store_at i newPortTracker (observe_port (DstPort m)) (SrcIP m) p (cPorts s))\<rparr>))"

section \<open>Run and flush\<close>

definition flush_begin :: "bool \<Rightarrow> int \<Rightarrow> conc \<Rightarrow> conc" where
  "flush_begin final now s =
     s\<lparr>cWindowStart := now,
       cRun := WantPorts \<lparr>fl_windowStart = cWindowStart s, fl_windowEnd = now,
                          fl_portSnapshot = [], fl_final = final\<rparr> 0\<rparr>"

definition flush_lock_ports :: "flush_locals \<Rightarrow> nat \<Rightarrow> conc \<Rightarrow> conc" where
  "flush_lock_ports fl i s =
     s\<lparr>cPorts := acquire i (cPorts s), cRun := InPorts fl i (tab (cPorts s) i)\<rparr>"

text \<open>\<open>for ip, pt := range ps.ports { portSnapshot[ip] = pt }\<close>\<close>

definition merge_ports :: "(u32, nat) go_map \<Rightarrow> (u32, nat) go_map \<Rightarrow> (u32, nat) go_map" where
  "merge_ports ports snap = fold (\<lambda>(ip, pt) snap. go_set snap ip pt) ports snap"

definition flush_take_ports :: "flush_locals \<Rightarrow> nat \<Rightarrow> (u32, nat) go_map \<Rightarrow> conc \<Rightarrow> conc" where
  "flush_take_ports fl i ports s =
     s\<lparr>cPorts := release i (empty_shard i (cPorts s)),
       cRun := WantPorts (fl\<lparr>fl_portSnapshot :=
                               merge_ports ports (fl_portSnapshot fl)\<rparr>) (Suc i)\<rparr>"

definition flush_lock_flows :: "flush_locals \<Rightarrow> nat \<Rightarrow> conc \<Rightarrow> conc" where
  "flush_lock_flows fl i s =
     s\<lparr>cFlows := acquire i (cFlows s), cRun := InFlows fl i (tab (cFlows s) i)\<rparr>"

definition flush_take_flows :: "flush_locals \<Rightarrow> nat \<Rightarrow> (FlowKey, nat) go_map \<Rightarrow> conc \<Rightarrow> conc" where
  "flush_take_flows fl i todo s =
     s\<lparr>cFlows := release i (empty_shard i (cFlows s)), cRun := Sending fl i todo\<rparr>"

text \<open>The vector of the flow at \<open>a\<close>, from the heap as it is at this moment.\<close>

definition deref :: "('v, 'w) locked \<Rightarrow> ('k, nat) go_map \<Rightarrow> ('k, 'w) go_map" where
  "deref S m = map (\<lambda>(k, a). (k, heap S a)) m"

definition conc_features ::
    "(real \<Rightarrow> real) \<Rightarrow> ((u16 \<times> u32) list \<Rightarrow> (u16 \<times> u32) list) \<Rightarrow> flush_locals \<Rightarrow> conc \<Rightarrow> nat \<Rightarrow>
     FlowFeatures" where
  "conc_features r ordP fl s a =
     flow_features r ordP (deref (cPorts s) (fl_portSnapshot fl)) (fl_windowStart fl)
       (fl_windowEnd fl) (heap (cFlows s) a)"

definition flush_end :: "flush_locals \<Rightarrow> conc \<Rightarrow> conc" where
  "flush_end fl s =
     (if fl_final fl then s\<lparr>cClosed := True, cRun := RunReturned\<rparr> else s\<lparr>cRun := Selecting\<rparr>)"

section \<open>Steps and runs\<close>

inductive ingest_step :: "(real \<Rightarrow> real) \<Rightarrow> conc \<Rightarrow> conc_label \<Rightarrow> conc \<Rightarrow> bool" for r s where
  i_call: "cIngest s t = Returned_ok \<Longrightarrow> ingest_step r s (Called t m) (at_ingest t (WantFlow m) s)"
| i_lock_flow: "cIngest s t = WantFlow m \<Longrightarrow> \<not> mu (cFlows s) (flow_idx (key_of m)) \<Longrightarrow>
    ingest_step r s (IngestInner t) (ingest_lock_flow t m s)"
| i_refuse: "cIngest s t = InFlow m p \<Longrightarrow> ingest_refuses m p s \<Longrightarrow>
    ingest_step r s (Refused t m) (ingest_refuse t m s)"
| i_count: "cIngest s t = Refusing \<Longrightarrow> ingest_step r s (RefusalCounted t) (ingest_count_refused t s)"
| i_observe: "cIngest s t = InFlow m p \<Longrightarrow> \<not> ingest_refuses m p s \<Longrightarrow>
    ingest_step r s (Observed t m) (ingest_observe r t m p s)"
| i_lock_port: "cIngest s t = WantPort m \<Longrightarrow> \<not> mu (cPorts s) (port_idx (SrcIP m)) \<Longrightarrow>
    ingest_step r s (IngestInner t) (ingest_lock_port t m s)"
| i_observe_port: "cIngest s t = InPort m p \<Longrightarrow>
    ingest_step r s (PortObserved t m) (ingest_observe_port t m p s)"

inductive flush_step ::
    "(real \<Rightarrow> real) \<Rightarrow> ((u16 \<times> u32) list \<Rightarrow> (u16 \<times> u32) list) \<Rightarrow> conc \<Rightarrow> conc_label \<Rightarrow> conc \<Rightarrow> bool"
  for r ordP s where
  f_lock_ports: "cRun s = WantPorts fl i \<Longrightarrow> i < numShards \<Longrightarrow> \<not> mu (cPorts s) i \<Longrightarrow>
    flush_step r ordP s FlushInner (flush_lock_ports fl i s)"
| f_take_ports: "cRun s = InPorts fl i ports \<Longrightarrow>
    flush_step r ordP s (PortsTaken i) (flush_take_ports fl i ports s)"
| f_ports_done: "cRun s = WantPorts fl i \<Longrightarrow> \<not> i < numShards \<Longrightarrow>
    flush_step r ordP s FlushInner (s\<lparr>cRun := WantFlows fl 0\<rparr>)"
| f_lock_flows: "cRun s = WantFlows fl i \<Longrightarrow> i < numShards \<Longrightarrow> \<not> mu (cFlows s) i \<Longrightarrow>
    flush_step r ordP s FlushInner (flush_lock_flows fl i s)"
| f_take_flows: "cRun s = InFlows fl i flows \<Longrightarrow> mset todo = mset flows \<Longrightarrow>
    flush_step r ordP s (FlowsTaken i) (flush_take_flows fl i todo s)"
| f_send: "cRun s = Sending fl i ((k, a) # todo) \<Longrightarrow> length (cOut s) < outputBufferSize \<Longrightarrow>
    flush_step r ordP s (Sent k (conc_features r ordP fl s a))
      (s\<lparr>cOut := cOut s @ [conc_features r ordP fl s a], cRun := Sending fl i todo\<rparr>)"
| f_lose: "cRun s = Sending fl i ((k, a) # todo) \<Longrightarrow> \<not> length (cOut s) < outputBufferSize \<Longrightarrow>
    flush_step r ordP s (Lost k (conc_features r ordP fl s a))
      (s\<lparr>cDroppedOutput := cDroppedOutput s + 1, cRun := Sending fl i todo\<rparr>)"
| f_next: "cRun s = Sending fl i [] \<Longrightarrow>
    flush_step r ordP s FlushInner (s\<lparr>cRun := WantFlows fl (Suc i)\<rparr>)"
| f_end: "cRun s = WantFlows fl i \<Longrightarrow> \<not> i < numShards \<Longrightarrow>
    flush_step r ordP s FlushEnds (flush_end fl s)"

inductive conc_step ::
    "(real \<Rightarrow> real) \<Rightarrow> ((u16 \<times> u32) list \<Rightarrow> (u16 \<times> u32) list) \<Rightarrow> conc \<Rightarrow> conc_label \<Rightarrow> conc \<Rightarrow> bool"
  for r ordP s where
  c_ingest: "ingest_step r s l s' \<Longrightarrow> conc_step r ordP s l s'"
| c_begin: "cRun s = Selecting \<Longrightarrow> conc_step r ordP s (FlushBegins now) (flush_begin final now s)"
| c_flush: "flush_step r ordP s l s' \<Longrightarrow> conc_step r ordP s l s'"
| c_receive: "cOut s = ff # rest \<Longrightarrow> conc_step r ordP s (Received ff) (s\<lparr>cOut := rest\<rparr>)"

inductive conc_run ::
    "(real \<Rightarrow> real) \<Rightarrow> ((u16 \<times> u32) list \<Rightarrow> (u16 \<times> u32) list) \<Rightarrow> conc \<Rightarrow> conc_label list \<Rightarrow> conc \<Rightarrow> bool"
  for r ordP s0 where
  cr_start: "conc_run r ordP s0 [] s0"
| cr_step: "conc_run r ordP s0 tr s \<Longrightarrow> conc_step r ordP s l s' \<Longrightarrow> conc_run r ordP s0 (tr @ [l]) s'"

inductive_cases flush_sends: "flush_step r ordP s (Sent k ff) s'"

section \<open>The windows of a trace\<close>

text \<open>
  What the goroutines compute together, without locks, pointers or maps: the packets of a
  flow since its shard was last taken are its open window; taking the shard closes it, with
  the port windows the same flush took before.
\<close>

record closed_window =
  cw_packets :: "FlowPacketMeta list"
  cw_ports :: "u32 \<Rightarrow> FlowPacketMeta list"
  cw_start :: int
  cw_end :: int

record windows =
  openF :: "FlowKey \<Rightarrow> FlowPacketMeta list"
  openP :: "u32 \<Rightarrow> FlowPacketMeta list"
  snapP :: "u32 \<Rightarrow> FlowPacketMeta list"
  closedF :: "FlowKey \<Rightarrow> closed_window list"
  win_start :: int
  win_end :: int

definition no_windows :: "int \<Rightarrow> windows" where
  "no_windows now =
     \<lparr>openF = \<lambda>_. [], openP = \<lambda>_. [], snapP = \<lambda>_. [], closedF = \<lambda>_. [], win_start = now,
      win_end = now\<rparr>"

fun window_step :: "conc_label \<Rightarrow> windows \<Rightarrow> windows" where
  "window_step (Observed t m) w = w\<lparr>openF := (openF w)(key_of m := openF w (key_of m) @ [m])\<rparr>"
| "window_step (PortObserved t m) w = w\<lparr>openP := (openP w)(SrcIP m := openP w (SrcIP m) @ [m])\<rparr>"
| "window_step (FlushBegins now) w = w\<lparr>snapP := \<lambda>_. [], win_start := win_end w, win_end := now\<rparr>"
| "window_step (PortsTaken i) w =
     w\<lparr>snapP := \<lambda>ip. if port_idx ip = i then openP w ip else snapP w ip,
       openP := \<lambda>ip. if port_idx ip = i then [] else openP w ip\<rparr>"
| "window_step (FlowsTaken i) w =
     w\<lparr>closedF := \<lambda>k. if flow_idx k = i \<and> openF w k \<noteq> []
                     then closedF w k @ [\<lparr>cw_packets = openF w k, cw_ports = snapP w,
                                          cw_start = win_start w, cw_end = win_end w\<rparr>]
                     else closedF w k,
       openF := \<lambda>k. if flow_idx k = i then [] else openF w k\<rparr>"
| "window_step _ w = w"

definition windows_of :: "int \<Rightarrow> conc_label list \<Rightarrow> windows" where
  "windows_of now tr = fold window_step tr (no_windows now)"

lemma windows_of_Nil [simp]: "windows_of now [] = no_windows now"
  by (simp add: windows_of_def)

lemma windows_of_snoc [simp]: "windows_of now (tr @ [l]) = window_step l (windows_of now tr)"
  by (simp add: windows_of_def)

text \<open>The vector the sequential code computes for one window of packets.\<close>

definition window_vector ::
    "(real \<Rightarrow> real) \<Rightarrow> ((u16 \<times> u32) list \<Rightarrow> (u16 \<times> u32) list) \<Rightarrow> closed_window \<Rightarrow> FlowFeatures" where
  "window_vector r ordP cw =
     (let fa = fold (obs r) (cw_packets cw) zero_accumulator; src = firstSrcIP fa
      in flow_features r ordP [(src, tracker (map DstPort (cw_ports cw src)))]
           (cw_start cw) (cw_end cw) fa)"

text \<open>Projections of a trace.\<close>

fun built :: "FlowKey \<Rightarrow> conc_label \<Rightarrow> FlowFeatures list" where
  "built k (Sent k' ff) = (if k' = k then [ff] else [])"
| "built k (Lost k' ff) = (if k' = k then [ff] else [])"
| "built k _ = []"

fun seen :: "FlowKey \<Rightarrow> conc_label \<Rightarrow> FlowPacketMeta list" where
  "seen k (Observed t m) = (if key_of m = k then [m] else [])"
| "seen k _ = []"

fun sent :: "conc_label \<Rightarrow> FlowFeatures list" where
  "sent (Sent k ff) = [ff]"
| "sent _ = []"

fun received :: "conc_label \<Rightarrow> FlowFeatures list" where
  "received (Received ff) = [ff]"
| "received _ = []"

abbreviation along :: "('l \<Rightarrow> 'a list) \<Rightarrow> 'l list \<Rightarrow> 'a list" where
  "along f tr \<equiv> concat (map f tr)"

end
