(* ===== verification/InterleavingInv.thy ===== *)
theory InterleavingInv
  imports Interleaving
begin

text \<open>
  The invariant of the interleaved aggregator, one part at a time: the mutexes exclude, what
  a critical section read is still true when it writes, tables hold the open windows of the
  trace, the flush's snapshot and the accumulators it took are frozen, and the vectors it has
  built and has still to build are those of the closed windows.
\<close>

lemmas ingest_defs = ingest_lock_flow_def ingest_refuse_def ingest_count_refused_def
  ingest_lock_port_def ingest_observe_port_def at_ingest_def Let_def

lemmas flush_defs = flush_begin_def flush_lock_ports_def flush_take_ports_def
  flush_lock_flows_def flush_take_flows_def flush_end_def

lemma ingest_observe_alt:
  "ingest_observe r t m p s =
     at_ingest t (WantPort m)
       (s\<lparr>cFlows := release (flow_idx (key_of m))
            (store_at (flow_idx (key_of m)) zero_accumulator (obs r m) (key_of m) p (cFlows s))\<rparr>)"
  by (simp add: ingest_observe_def Let_def split: prod.split)

interpretation wf: windowed flow_idx numShards "obs r" zero_accumulator
  for r :: "real \<Rightarrow> real"
  by unfold_locales

interpretation wp: windowed port_idx numShards "\<lambda>m. observe_port (DstPort m)" newPortTracker
  by unfold_locales

section \<open>Mutual exclusion\<close>

text \<open>The critical section an actor is in: \<open>None\<close> is the \<open>Run\<close> goroutine, \<open>Some t\<close> an \<open>Ingest\<close>.\<close>

fun flow_section :: "ingest_pc \<Rightarrow> nat option" where
  "flow_section (InFlow m p) = Some (flow_idx (key_of m))"
| "flow_section _ = None"

fun port_section :: "ingest_pc \<Rightarrow> nat option" where
  "port_section (InPort m p) = Some (port_idx (SrcIP m))"
| "port_section _ = None"

fun run_flow_section :: "run_pc \<Rightarrow> nat option" where
  "run_flow_section (InFlows fl i flows) = Some i"
| "run_flow_section _ = None"

fun run_port_section :: "run_pc \<Rightarrow> nat option" where
  "run_port_section (InPorts fl i ports) = Some i"
| "run_port_section _ = None"

definition flow_occ :: "conc \<Rightarrow> nat option \<Rightarrow> nat option" where
  "flow_occ s h = (case h of None \<Rightarrow> run_flow_section (cRun s) | Some t \<Rightarrow> flow_section (cIngest s t))"

definition port_occ :: "conc \<Rightarrow> nat option \<Rightarrow> nat option" where
  "port_occ s h = (case h of None \<Rightarrow> run_port_section (cRun s) | Some t \<Rightarrow> port_section (cIngest s t))"

definition locks_ok :: "conc \<Rightarrow> bool" where
  "locks_ok s \<longleftrightarrow> excl (mu (cFlows s)) (flow_occ s) \<and> excl (mu (cPorts s)) (port_occ s)"

lemma occ_ingest [simp]:
  "flow_occ (at_ingest t pc s) = (flow_occ s)(Some t := flow_section pc)"
  "port_occ (at_ingest t pc s) = (port_occ s)(Some t := port_section pc)"
  by (auto simp: flow_occ_def port_occ_def at_ingest_def fun_eq_iff split: option.split)

lemma occ_run [simp]:
  "flow_occ (s\<lparr>cRun := pc\<rparr>) = (flow_occ s)(None := run_flow_section pc)"
  "port_occ (s\<lparr>cRun := pc\<rparr>) = (port_occ s)(None := run_port_section pc)"
  by (auto simp: flow_occ_def port_occ_def fun_eq_iff split: option.split)

lemma occ_data [simp]:
  "flow_occ (s\<lparr>cFlows := F\<rparr>) = flow_occ s" "port_occ (s\<lparr>cFlows := F\<rparr>) = port_occ s"
  "flow_occ (s\<lparr>cPorts := P\<rparr>) = flow_occ s" "port_occ (s\<lparr>cPorts := P\<rparr>) = port_occ s"
  "flow_occ (s\<lparr>cOut := ffs\<rparr>) = flow_occ s" "port_occ (s\<lparr>cOut := ffs\<rparr>) = port_occ s"
  "flow_occ (s\<lparr>cClosed := b\<rparr>) = flow_occ s" "port_occ (s\<lparr>cClosed := b\<rparr>) = port_occ s"
  "flow_occ (s\<lparr>cWindowStart := z\<rparr>) = flow_occ s" "port_occ (s\<lparr>cWindowStart := z\<rparr>) = port_occ s"
  "flow_occ (s\<lparr>cDroppedNewFlows := d\<rparr>) = flow_occ s"
  "port_occ (s\<lparr>cDroppedNewFlows := d\<rparr>) = port_occ s"
  "flow_occ (s\<lparr>cDroppedOutput := d\<rparr>) = flow_occ s"
  "port_occ (s\<lparr>cDroppedOutput := d\<rparr>) = port_occ s"
  by (auto simp: flow_occ_def port_occ_def fun_eq_iff split: option.split)

lemma occ_at [simp]:
  "cIngest s t = pc \<Longrightarrow> flow_occ s (Some t) = flow_section pc"
  "cIngest s t = pc \<Longrightarrow> port_occ s (Some t) = port_section pc"
  "cRun s = rpc \<Longrightarrow> flow_occ s None = run_flow_section rpc"
  "cRun s = rpc \<Longrightarrow> port_occ s None = run_port_section rpc"
  by (simp_all add: flow_occ_def port_occ_def)

lemma excl_idle: "excl locks occ \<Longrightarrow> occ h = None \<Longrightarrow> excl locks (occ(h := None))"
  by (simp add: fun_upd_idem)

lemmas excl_rules = excl_enter excl_leave excl_idle

lemma at_ingest_fields [simp]:
  "cFlows (at_ingest t pc s) = cFlows s" "cPorts (at_ingest t pc s) = cPorts s"
  "cOut (at_ingest t pc s) = cOut s" "cClosed (at_ingest t pc s) = cClosed s"
  "cWindowStart (at_ingest t pc s) = cWindowStart s"
  "cDroppedNewFlows (at_ingest t pc s) = cDroppedNewFlows s"
  "cDroppedOutput (at_ingest t pc s) = cDroppedOutput s"
  "cIngest (at_ingest t pc s) = (cIngest s)(t := pc)" "cRun (at_ingest t pc s) = cRun s"
  by (simp_all add: at_ingest_def)

lemmas ingest_simps = ingest_lock_flow_def ingest_refuse_def ingest_count_refused_def
  ingest_observe_alt ingest_lock_port_def ingest_observe_port_def Let_def

lemma locks_ok_ingest: "ingest_step r s l s' \<Longrightarrow> locks_ok s \<Longrightarrow> locks_ok s'"
  by (induction rule: ingest_step.induct) (auto simp: locks_ok_def ingest_simps intro: excl_rules)

lemma locks_ok_flush: "flush_step r ordP s l s' \<Longrightarrow> locks_ok s \<Longrightarrow> locks_ok s'"
  by (induction rule: flush_step.induct) (auto simp: locks_ok_def flush_defs intro: excl_rules)

lemma locks_ok_step:
  assumes "conc_step r ordP s l s'" and "locks_ok s"
  shows "locks_ok s'"
  using assms
proof cases
  case (c_begin now final)
  then show ?thesis using assms(2) by (auto simp: locks_ok_def flush_defs intro: excl_idle)
qed (auto simp: locks_ok_def dest: locks_ok_ingest locks_ok_flush)

section \<open>What a critical section read stays true\<close>

definition flow_reads :: "conc \<Rightarrow> bool" where
  "flow_reads s \<longleftrightarrow>
     (\<forall>t m p. cIngest s t = InFlow m p \<longrightarrow> go_get (tab (cFlows s) (flow_idx (key_of m))) (key_of m) = p) \<and>
     (\<forall>fl i flows. cRun s = InFlows fl i flows \<longrightarrow> tab (cFlows s) i = flows)"

definition port_reads :: "conc \<Rightarrow> bool" where
  "port_reads s \<longleftrightarrow>
     (\<forall>t m p. cIngest s t = InPort m p \<longrightarrow> go_get (tab (cPorts s) (port_idx (SrcIP m))) (SrcIP m) = p) \<and>
     (\<forall>fl i ports. cRun s = InPorts fl i ports \<longrightarrow> tab (cPorts s) i = ports)"

text \<open>Two actors inside critical sections are in different shards.\<close>

lemma sections_differ:
  assumes "locks_ok s"
  shows "flow_occ s h = Some i \<Longrightarrow> flow_occ s h' = Some j \<Longrightarrow> h \<noteq> h' \<Longrightarrow> i \<noteq> j"
    and "port_occ s h = Some i \<Longrightarrow> port_occ s h' = Some j \<Longrightarrow> h \<noteq> h' \<Longrightarrow> i \<noteq> j"
  using assms unfolding locks_ok_def excl_def by blast+

lemma flow_sections:
  assumes "locks_ok s"
  shows "cIngest s t = InFlow m p \<Longrightarrow> cIngest s t' = InFlow m' p' \<Longrightarrow> t \<noteq> t' \<Longrightarrow>
           flow_idx (key_of m') \<noteq> flow_idx (key_of m)"
    and "cIngest s t = InFlow m p \<Longrightarrow> cRun s = InFlows fl i flows \<Longrightarrow> i \<noteq> flow_idx (key_of m)"
  using sections_differ(1) [OF assms, of "Some t" _ "Some t'"]
    sections_differ(1) [OF assms, of "Some t" _ None] by fastforce+

lemma port_sections:
  assumes "locks_ok s"
  shows "cIngest s t = InPort m p \<Longrightarrow> cIngest s t' = InPort m' p' \<Longrightarrow> t \<noteq> t' \<Longrightarrow>
           port_idx (SrcIP m') \<noteq> port_idx (SrcIP m)"
    and "cIngest s t = InPort m p \<Longrightarrow> cRun s = InPorts fl i ports \<Longrightarrow> i \<noteq> port_idx (SrcIP m)"
  using sections_differ(2) [OF assms, of "Some t" _ "Some t'"]
    sections_differ(2) [OF assms, of "Some t" _ None] by fastforce+

lemma flow_reads_ingest:
  assumes "ingest_step r s l s'" and "locks_ok s" and "flow_reads s"
  shows "flow_reads s'"
  using assms(1)
proof cases
  case (i_observe t m p)
  show ?thesis
    unfolding i_observe(2) ingest_observe_alt flow_reads_def
    using assms(3) flow_sections [OF assms(2)] i_observe(3)
    by (simp add: flow_reads_def wf.store_other)
qed (use assms(3) in \<open>auto simp: flow_reads_def ingest_simps\<close>)

lemma port_reads_ingest:
  assumes "ingest_step r s l s'" and "locks_ok s" and "port_reads s"
  shows "port_reads s'"
  using assms(1)
proof cases
  case (i_observe_port t m p)
  show ?thesis
    unfolding i_observe_port(2) ingest_observe_port_def Let_def port_reads_def
    using assms(3) port_sections [OF assms(2)] i_observe_port(3)
    by (simp add: port_reads_def wp.store_other)
qed (use assms(3) in \<open>auto simp: port_reads_def ingest_simps\<close>)

lemma flow_reads_flush:
  assumes "flush_step r ordP s l s'" and "locks_ok s" and "flow_reads s"
  shows "flow_reads s'"
  using assms(1)
proof cases
  case (f_take_flows fl i flows todo)
  show ?thesis
    unfolding f_take_flows(2) flush_defs flow_reads_def
    using assms(3) flow_sections(2) [OF assms(2) _ f_take_flows(3), THEN not_sym]
    by (simp add: flow_reads_def)
qed (use assms(3) in \<open>auto simp: flow_reads_def flush_defs\<close>)

lemma port_reads_flush:
  assumes "flush_step r ordP s l s'" and "locks_ok s" and "port_reads s"
  shows "port_reads s'"
  using assms(1)
proof cases
  case (f_take_ports fl i ports)
  show ?thesis
    unfolding f_take_ports(2) flush_defs port_reads_def
    using assms(3) port_sections(2) [OF assms(2) _ f_take_ports(3), THEN not_sym]
    by (simp add: port_reads_def)
qed (use assms(3) in \<open>auto simp: port_reads_def flush_defs\<close>)

section \<open>Tables hold the open windows\<close>

definition tables_ok :: "(real \<Rightarrow> real) \<Rightarrow> conc \<Rightarrow> windows \<Rightarrow> bool" where
  "tables_ok r s w \<longleftrightarrow>
     wf.rep r (cFlows s) (openF w) \<and> wp.rep (cPorts s) (openP w) \<and>
     (\<forall>i. length (tab (cFlows s) i) \<le> maxFlowsPerShard)"

lemma tables_ok_ingest:
  assumes "ingest_step r s l s'" and "flow_reads s" and "port_reads s" and "tables_ok r s w"
  shows "tables_ok r s' (window_step l w)"
  using assms(1)
proof cases
  case (i_observe t m p)
  have p: "go_get (tab (cFlows s) (flow_idx (key_of m))) (key_of m) = p"
    using assms(2) i_observe(3) by (simp add: flow_reads_def)
  have "p \<noteq> None \<or> length (tab (cFlows s) (flow_idx (key_of m))) < maxFlowsPerShard"
    using i_observe(4) by (auto simp: ingest_refuses_def)
  then show ?thesis
    using assms(4) wf.rep_store [OF _ p, of r _ m] wf.store_length [OF p]
    by (simp add: tables_ok_def i_observe(1,2) ingest_observe_alt)
next
  case (i_observe_port t m p)
  have "go_get (tab (cPorts s) (port_idx (SrcIP m))) (SrcIP m) = p"
    using assms(3) i_observe_port(3) by (simp add: port_reads_def)
  from wp.rep_store [OF _ this, of _ m] show ?thesis
    using assms(4) by (simp add: tables_ok_def i_observe_port(1,2) ingest_observe_port_def Let_def)
qed (use assms(4) in \<open>simp_all add: tables_ok_def ingest_simps\<close>)

lemma tables_ok_flush:
  assumes "flush_step r ordP s l s'" and "tables_ok r s w"
  shows "tables_ok r s' (window_step l w)"
  using assms(1)
proof cases
  case (f_take_ports fl i ports)
  then show ?thesis
    using assms(2) wp.rep_empty [of "cPorts s" "openP w" i]
    by (simp add: tables_ok_def flush_defs)
next
  case (f_take_flows fl i flows todo)
  then show ?thesis
    using assms(2) wf.rep_empty [of r "cFlows s" "openF w" i]
    by (simp add: tables_ok_def flush_defs)
qed (use assms(2) in \<open>auto simp: tables_ok_def flush_defs\<close>)

section \<open>What the flush holds is frozen\<close>

fun run_locals :: "run_pc \<Rightarrow> flush_locals option" where
  "run_locals (WantPorts fl i) = Some fl"
| "run_locals (InPorts fl i ports) = Some fl"
| "run_locals (WantFlows fl i) = Some fl"
| "run_locals (InFlows fl i flows) = Some fl"
| "run_locals (Sending fl i todo) = Some fl"
| "run_locals _ = None"

fun ports_taken :: "run_pc \<Rightarrow> nat" where
  "ports_taken (WantPorts fl i) = i"
| "ports_taken (InPorts fl i ports) = i"
| "ports_taken _ = numShards"

fun run_todo :: "run_pc \<Rightarrow> (FlowKey, nat) go_map" where
  "run_todo (Sending fl i todo) = todo"
| "run_todo _ = []"

definition snap_entry :: "conc \<Rightarrow> windows \<Rightarrow> (u32, nat) go_map \<Rightarrow> nat \<Rightarrow> u32 \<Rightarrow> bool" where
  "snap_entry s w snap n ip \<longleftrightarrow>
     (case go_get snap ip of
        None \<Rightarrow> snapP w ip = []
      | Some a \<Rightarrow> port_idx ip < n \<and> detached (cPorts s) a \<and>
                  heap (cPorts s) a = tracker (map DstPort (snapP w ip)))"

definition locals_ok :: "conc \<Rightarrow> windows \<Rightarrow> bool" where
  "locals_ok s w \<longleftrightarrow> cWindowStart s = win_end w \<and>
     (\<forall>fl. run_locals (cRun s) = Some fl \<longrightarrow>
        fl_windowStart fl = win_start w \<and> fl_windowEnd fl = win_end w \<and>
        (\<forall>ip. snap_entry s w (fl_portSnapshot fl) (ports_taken (cRun s)) ip))"

definition todo_ok :: "conc \<Rightarrow> bool" where
  "todo_ok s \<longleftrightarrow> go_map_ok (run_todo (cRun s)) \<and>
     (\<forall>(k, a) \<in> set (run_todo (cRun s)). detached (cFlows s) a)"

text \<open>An \<open>Ingest\<close> leaves alone every object that is in no table, and the whole flush.\<close>

lemma ingest_frozen_flow:
  assumes "ingest_step r s l s'" and "flow_reads s" and "tables_ok r s w" and "detached (cFlows s) a"
  shows "detached (cFlows s') a \<and> heap (cFlows s') a = heap (cFlows s) a"
  using assms(1)
proof cases
  case (i_observe t m p)
  have "wf.rep r (cFlows s) (openF w)" "go_get (tab (cFlows s) (flow_idx (key_of m))) (key_of m) = p"
    using assms(2,3) i_observe(3) by (simp_all add: tables_ok_def flow_reads_def)
  note frozen = wf.detached_store [OF this assms(4), of m]
  show ?thesis using frozen by (simp add: i_observe(2) ingest_observe_alt)
qed (use assms(4) in \<open>simp_all add: ingest_simps\<close>)

lemma ingest_frozen_port:
  assumes "ingest_step r s l s'" and "port_reads s" and "tables_ok r s w" and "detached (cPorts s) a"
  shows "detached (cPorts s') a \<and> heap (cPorts s') a = heap (cPorts s) a"
  using assms(1)
proof cases
  case (i_observe_port t m p)
  have "wp.rep (cPorts s) (openP w)" "go_get (tab (cPorts s) (port_idx (SrcIP m))) (SrcIP m) = p"
    using assms(2,3) i_observe_port(3) by (simp_all add: tables_ok_def port_reads_def)
  note frozen = wp.detached_store [OF this assms(4), of m]
  show ?thesis using frozen
    by (simp add: i_observe_port(2) ingest_observe_port_def Let_def)
qed (use assms(4) in \<open>simp_all add: ingest_simps\<close>)

lemma ingest_run_kept:
  assumes "ingest_step r s l s'"
  shows "cRun s' = cRun s" "cWindowStart s' = cWindowStart s" "cOut s' = cOut s"
    "cClosed s' = cClosed s" "cDroppedOutput s' = cDroppedOutput s"
    "snapP (window_step l w) = snapP w" "closedF (window_step l w) = closedF w"
    "win_start (window_step l w) = win_start w" "win_end (window_step l w) = win_end w"
    "built k l = []" "sent l = []" "received l = []"
  using assms by (auto simp: ingest_simps elim!: ingest_step.cases)

lemma locals_ok_ingest:
  assumes "ingest_step r s l s'" and "port_reads s" and "tables_ok r s w" and "locals_ok s w"
  shows "locals_ok s' (window_step l w)"
proof -
  have "snap_entry s' (window_step l w) snap n ip" if "snap_entry s w snap n ip" for snap n ip
    using that ingest_frozen_port [OF assms(1-3)]
    by (auto simp: snap_entry_def ingest_run_kept [OF assms(1)] split: option.splits)
  then show ?thesis using assms(4) by (simp add: locals_ok_def ingest_run_kept [OF assms(1)])
qed

lemma todo_ok_ingest:
  assumes "ingest_step r s l s'" and "flow_reads s" and "tables_ok r s w" and "todo_ok s"
  shows "todo_ok s'"
  using assms(4) ingest_frozen_flow [OF assms(1-3)]
  by (auto simp: todo_ok_def ingest_run_kept [OF assms(1)])

lemma go_get_merge:
  "go_map_ok ports \<Longrightarrow> go_get (merge_ports ports snap) k =
     (case go_get ports k of None \<Rightarrow> go_get snap k | Some v \<Rightarrow> Some v)"
proof (induction ports arbitrary: snap)
  case (Cons x ports)
  then have "go_get ports (fst x) = None" by (simp add: go_map_ok_def map_of_eq_None_iff)
  with Cons show ?case by (cases x) (auto simp: merge_ports_def go_map_ok_def split: option.splits)
qed (simp add: merge_ports_def)

lemma tracker_map: "tracker (map DstPort ms) = fold (\<lambda>m. observe_port (DstPort m)) ms newPortTracker"
  by (simp add: fold_map comp_def)

lemma snap_entry_take:
  assumes tab: "wp.rep (cPorts s) (openP w)" and ports: "tab (cPorts s) i = ports"
    and old: "snap_entry s w (fl_portSnapshot fl) i ip"
  shows "snap_entry (flush_take_ports fl i ports s) (window_step (PortsTaken i) w)
           (merge_ports ports (fl_portSnapshot fl)) (Suc i) ip"
proof -
  have ok: "go_map_ok ports" using tab ports by (auto simp: holds_windows_def)
  show ?thesis
  proof (cases "go_get ports ip")
    case None
    then have "port_idx ip = i \<Longrightarrow> openP w ip = []"
      using wp.rep_absent [OF tab, of ip] ports by auto
    then show ?thesis
      using old None
      by (auto simp: snap_entry_def go_get_merge [OF ok] flush_defs wp.detached_empty
               split: option.splits)
  next
    case (Some a)
    then have mem: "(ip, a) \<in> set (tab (cPorts s) i)" using ports by (simp add: map_of_SomeD)
    then have "port_idx ip = i" "go_get (tab (cPorts s) (port_idx ip)) ip = Some a"
      using wp.rep_mem [OF tab] by blast+
    then show ?thesis
      using Some wp.detached_taken [OF tab mem] wp.rep_entry(1) [OF tab]
      by (simp add: snap_entry_def go_get_merge [OF ok] flush_defs tracker_map)
  qed
qed

lemma snap_entry_kept:
  assumes "snap_entry s w snap n ip" and "heap (cPorts s') = heap (cPorts s)"
    and "detached (cPorts s') = detached (cPorts s)" and "snapP w' = snapP w" and "n' = n \<or> n' = numShards"
  shows "snap_entry s' w' snap n' ip"
  using assms srcIPShardIndex_less [of ip] by (auto simp: snap_entry_def split: option.splits)

lemma locals_ok_flush:
  assumes "flush_step r ordP s l s'" and "port_reads s" and "tables_ok r s w" and "locals_ok s w"
  shows "locals_ok s' (window_step l w)"
  using assms(1)
proof cases
  case (f_take_ports fl i ports)
  then have "tab (cPorts s) i = ports" using assms(2) by (simp add: port_reads_def)
  moreover have "snap_entry s w (fl_portSnapshot fl) i ip" for ip
    using assms(4) f_take_ports(3) by (simp add: locals_ok_def)
  moreover have "wp.rep (cPorts s) (openP w)" using assms(3) by (simp add: tables_ok_def)
  ultimately have "snap_entry s' (window_step l w)
      (merge_ports ports (fl_portSnapshot fl)) (Suc i) ip" for ip
    unfolding f_take_ports(1,2) by (intro snap_entry_take)
  then show ?thesis
    using assms(4) f_take_ports by (auto simp: locals_ok_def flush_take_ports_def)
qed (use assms(4) in
      \<open>auto simp: locals_ok_def flush_defs fun_eq_iff intro: snap_entry_kept\<close>)

lemma todo_ok_flush:
  assumes "flush_step r ordP s l s'" and "flow_reads s" and "tables_ok r s w" and "todo_ok s"
  shows "todo_ok s'"
  using assms(1)
proof cases
  case (f_take_flows fl i flows todo)
  then have flows: "tab (cFlows s) i = flows" "set todo = set flows" "mset (map fst todo) = mset (map fst flows)"
    using assms(2) by (auto simp: flow_reads_def dest: mset_eq_setD)
  moreover have "go_map_ok flows" using flows(1) assms(3) by (auto simp: tables_ok_def holds_windows_def)
  then have "go_map_ok todo" using mset_eq_imp_distinct_iff [OF flows(3)] by (simp add: go_map_ok_def)
  ultimately have flows: "tab (cFlows s) i = flows" "set todo = set flows" "go_map_ok todo" by simp_all
  then show ?thesis
    using assms(3) f_take_flows wf.detached_taken [of r "cFlows s" "openF w"]
    by (auto simp: todo_ok_def flush_defs tables_ok_def)
qed (use assms(4) in \<open>auto simp: todo_ok_def flush_defs go_map_ok_def\<close>)

section \<open>Vectors built and still to build\<close>

definition due :: "(real \<Rightarrow> real) \<Rightarrow> ((u16 \<times> u32) list \<Rightarrow> (u16 \<times> u32) list) \<Rightarrow> conc \<Rightarrow> FlowKey \<Rightarrow>
    FlowFeatures list" where
  "due r ordP s k =
     (case run_locals (cRun s) of
        None \<Rightarrow> []
      | Some fl \<Rightarrow> map (\<lambda>(k, a). conc_features r ordP fl s a) (filter (\<lambda>(k', a). k' = k) (run_todo (cRun s))))"

lemma due_idle [simp]: "run_todo (cRun s) = [] \<Longrightarrow> due r ordP s k = []"
  by (simp add: due_def split: option.split)

lemma go_get_deref: "go_get (deref S m) k = map_option (heap S) (go_get m k)"
  by (simp add: deref_def map_of_map)

lemma conc_features_cong:
  assumes "heap (cFlows s') a = heap (cFlows s) a"
    and "\<And>ip p. go_get (fl_portSnapshot fl) ip = Some p \<Longrightarrow> heap (cPorts s') p = heap (cPorts s) p"
  shows "conc_features r ordP fl s' a = conc_features r ordP fl s a"
  using assms by (auto simp: conc_features_def flow_features_def go_get_deref split: option.splits)

text \<open>An accumulator that is the fold of a window gives the vector of that window.\<close>

lemma conc_features_window:
  assumes "locals_ok s w" and "run_locals (cRun s) = Some fl"
    and "heap (cFlows s) a = fold (obs r) ms zero_accumulator"
  shows "conc_features r ordP fl s a =
         window_vector r ordP \<lparr>cw_packets = ms, cw_ports = snapP w, cw_start = win_start w,
                               cw_end = win_end w\<rparr>"
proof -
  let ?src = "firstSrcIP (fold (obs r) ms zero_accumulator)"
  have "snap_entry s w (fl_portSnapshot fl) (ports_taken (cRun s)) ?src"
    and "fl_windowStart fl = win_start w" "fl_windowEnd fl = win_end w"
    using assms(1,2) by (auto simp: locals_ok_def)
  moreover have "entropyBits r ordP newPortTracker = 0"
    by (simp add: entropyBits_def newPortTracker_def)
  ultimately show ?thesis
    by (auto simp: conc_features_def window_vector_def Let_def assms(3) flow_features_def
             go_get_deref snap_entry_def split: option.splits)
qed

lemma filter_key_perm:
  assumes "go_map_ok m" and "mset todo = mset m"
  shows "filter (\<lambda>(k', a). k' = k) todo = (case go_get m k of None \<Rightarrow> [] | Some a \<Rightarrow> [(k, a)])"
proof -
  have "filter (\<lambda>(k', a). k' = k) m = (case go_get m k of None \<Rightarrow> [] | Some a \<Rightarrow> [(k, a)])"
    using assms(1)
    by (induction m) (auto simp: go_map_ok_def filter_empty_conv image_iff split: option.splits)
  moreover have "mset (filter (\<lambda>(k', a). k' = k) todo) = mset (filter (\<lambda>(k', a). k' = k) m)"
    using assms(2) by simp
  ultimately have "mset (filter (\<lambda>(k', a). k' = k) todo) =
      mset (case go_get m k of None \<Rightarrow> [] | Some a \<Rightarrow> [(k, a)])" by (simp only:)
  then show ?thesis
    by (cases "go_get m k"; simp only: option.case mset.simps mset_zero_iff)
       (metis add_mset_add_single mset_single_iff)
qed

definition due_ok :: "(real \<Rightarrow> real) \<Rightarrow> ((u16 \<times> u32) list \<Rightarrow> (u16 \<times> u32) list) \<Rightarrow> conc \<Rightarrow> windows \<Rightarrow>
    conc_label list \<Rightarrow> bool" where
  "due_ok r ordP s w tr \<longleftrightarrow>
     (\<forall>k. map (window_vector r ordP) (closedF w k) = along (built k) tr @ due r ordP s k)"

lemma due_ok_ingest:
  assumes step: "ingest_step r s l s'" and "flow_reads s" and "port_reads s" and "tables_ok r s w"
    and locals: "locals_ok s w" and todo: "todo_ok s" and "due_ok r ordP s w tr"
  shows "due_ok r ordP s' (window_step l w) (tr @ [l])"
proof -
  have ports: "heap (cPorts s') p = heap (cPorts s) p"
    if "run_locals (cRun s) = Some fl" and "go_get (fl_portSnapshot fl) ip = Some p" for fl ip p
    using that locals ingest_frozen_port [OF step assms(3,4)]
    by (force simp: locals_ok_def snap_entry_def split: option.splits)
  have "conc_features r ordP fl s' a = conc_features r ordP fl s a"
    if "run_locals (cRun s) = Some fl" and "(k, a) \<in> set (run_todo (cRun s))" for fl k a
    using that todo ingest_frozen_flow [OF step assms(2,4)] ports
    by (intro conc_features_cong) (auto simp: todo_ok_def)
  then have "due r ordP s' k = due r ordP s k" for k
    by (auto simp: due_def ingest_run_kept [OF step] split: option.splits)
  then show ?thesis using assms(7) by (simp add: due_ok_def ingest_run_kept [OF step])
qed

lemma due_take_flows:
  assumes tab: "wf.rep r (cFlows s) (openF w)" and flows: "tab (cFlows s) i = flows"
    and perm: "mset todo = mset flows" and locals: "locals_ok s w"
    and run: "cRun s = InFlows fl i flows"
  shows "due r ordP (flush_take_flows fl i todo s) k =
         (if flow_idx k = i \<and> openF w k \<noteq> []
          then [window_vector r ordP \<lparr>cw_packets = openF w k, cw_ports = snapP w,
                                      cw_start = win_start w, cw_end = win_end w\<rparr>]
          else [])"
proof -
  have "go_map_ok flows" using tab flows by (auto simp: holds_windows_def)
  then have due: "due r ordP (flush_take_flows fl i todo s) k =
      (case go_get flows k of None \<Rightarrow> [] | Some a \<Rightarrow> [conc_features r ordP fl s a])"
    using perm
    by (auto simp: due_def flush_defs filter_key_perm [of flows] conc_features_def split: option.split)
  show ?thesis
  proof (cases "go_get flows k")
    case None
    then have "flow_idx k = i \<Longrightarrow> openF w k = []"
      using wf.rep_absent [OF tab, of k] flows by auto
    then show ?thesis using None due by auto
  next
    case (Some a)
    then have "(k, a) \<in> set (tab (cFlows s) i)" using flows by (simp add: map_of_SomeD)
    then have k: "flow_idx k = i" "go_get (tab (cFlows s) (flow_idx k)) k = Some a"
      using wf.rep_mem [OF tab] by blast+
    have "run_locals (cRun s) = Some fl" using run by simp
    from conc_features_window [OF locals this wf.rep_entry(1) [OF tab k(2)]] show ?thesis
      using wf.rep_entry(2) [OF tab k(2)] k(1) Some due by simp
  qed
qed

lemma due_ok_flush:
  assumes "flush_step r ordP s l s'" and "flow_reads s" and "tables_ok r s w"
    and "locals_ok s w" and "due_ok r ordP s w tr"
  shows "due_ok r ordP s' (window_step l w) (tr @ [l])"
  using assms(1)
proof cases
  case (f_take_flows fl i flows todo)
  have "wf.rep r (cFlows s) (openF w)" "tab (cFlows s) i = flows"
    using assms(2,3) f_take_flows(3) by (auto simp: tables_ok_def flow_reads_def)
  then show ?thesis
    using assms(5) due_take_flows [OF _ _ f_take_flows(4) assms(4) f_take_flows(3)] f_take_flows
    by (simp add: due_ok_def)
qed (use assms(5) in \<open>auto simp: due_ok_def due_def flush_defs conc_features_def\<close>)

section \<open>The invariant along a run\<close>

definition conc_inv :: "(real \<Rightarrow> real) \<Rightarrow> ((u16 \<times> u32) list \<Rightarrow> (u16 \<times> u32) list) \<Rightarrow> conc \<Rightarrow> windows \<Rightarrow>
    conc_label list \<Rightarrow> bool" where
  "conc_inv r ordP s w tr \<longleftrightarrow>
     locks_ok s \<and> flow_reads s \<and> port_reads s \<and> tables_ok r s w \<and> locals_ok s w \<and> todo_ok s \<and>
     due_ok r ordP s w tr"

lemma conc_inv_new: "conc_inv r ordP (new_conc now) (no_windows now) []"
proof -
  have "flow_occ (new_conc now) = (\<lambda>_. None)" "port_occ (new_conc now) = (\<lambda>_. None)"
    by (auto simp: flow_occ_def port_occ_def new_conc_def split: option.split)
  then show ?thesis
    by (simp add: conc_inv_def locks_ok_def flow_reads_def port_reads_def tables_ok_def locals_ok_def
          todo_ok_def due_ok_def new_conc_def no_windows_def wf.rep_new wp.rep_new)
       (simp add: new_locked_def excl_init)
qed

lemma conc_inv_step:
  assumes step: "conc_step r ordP s l s'" and inv: "conc_inv r ordP s w tr"
  shows "conc_inv r ordP s' (window_step l w) (tr @ [l])"
  using step
proof cases
  case c_ingest
  then show ?thesis
    using inv unfolding conc_inv_def
    by (blast intro: locks_ok_ingest flow_reads_ingest port_reads_ingest tables_ok_ingest
          locals_ok_ingest todo_ok_ingest due_ok_ingest)
next
  case c_flush
  then show ?thesis
    using inv unfolding conc_inv_def
    by (blast intro: locks_ok_flush flow_reads_flush port_reads_flush tables_ok_flush
          locals_ok_flush todo_ok_flush due_ok_flush)
next
  case (c_begin now final)
  have "snap_entry s' (window_step l w) [] 0 ip" for ip by (simp add: snap_entry_def c_begin)
  then show ?thesis
    using inv locks_ok_step [OF step] c_begin
    by (auto simp: conc_inv_def flow_reads_def port_reads_def tables_ok_def locals_ok_def todo_ok_def
          due_ok_def flush_defs)
next
  case (c_receive ff rest)
  have "snap_entry s' w snap n ip = snap_entry s w snap n ip" for snap n ip
    by (simp add: snap_entry_def c_receive split: option.split)
  moreover have "due r ordP s' k = due r ordP s k" for k
    by (simp add: due_def conc_features_def c_receive split: option.split)
  ultimately show ?thesis
    using inv locks_ok_step [OF step] c_receive
    by (auto simp: conc_inv_def flow_reads_def port_reads_def tables_ok_def locals_ok_def todo_ok_def
          due_ok_def)
qed

lemma conc_run_inv:
  assumes "conc_run r ordP (new_conc now) tr s"
  shows "conc_inv r ordP s (windows_of now tr) tr"
  using assms
proof (induction rule: conc_run.induct)
  case cr_start
  show ?case using conc_inv_new [of r ordP now] by simp
next
  case (cr_step tr s l s')
  then show ?case using conc_inv_step by fastforce
qed

end
