(* ===== verification/InterleavingProps.thy ===== *)
theory InterleavingProps
  imports InterleavingInv
begin

text \<open>
  What every interleaving of \<open>Ingest\<close> calls, the flush and the consumer guarantees: the
  feature vectors are those of the closed windows of the trace, no packet and no vector goes
  unaccounted, a flush ends whatever the other goroutines do, and the packets a flow gets
  while a flush runs are described by the wrong port distribution.
\<close>

section \<open>Runs\<close>

lemma conc_run_trans:
  "conc_run r ordP s1 tr2 s2 \<Longrightarrow> conc_run r ordP s0 tr1 s1 \<Longrightarrow> conc_run r ordP s0 (tr1 @ tr2) s2"
proof (induction rule: conc_run.induct)
  case (cr_step tr s l s')
  then show ?case using conc_run.cr_step [of r ordP s0 "tr1 @ tr" s l s'] by simp
qed simp

lemma conc_run_one: "conc_step r ordP s l s' \<Longrightarrow> conc_run r ordP s [l] s'"
  using conc_run.cr_step [OF conc_run.cr_start] by fastforce

lemma conc_run_Cons:
  "conc_step r ordP s l s1 \<Longrightarrow> conc_run r ordP s1 tr s2 \<Longrightarrow> conc_run r ordP s (l # tr) s2"
  using conc_run_trans [OF _ conc_run_one] by fastforce

text \<open>Every packet of a flow is in one of its windows, in the order the flow was locked.\<close>

lemma windows_partition:
  "concat (map cw_packets (closedF (windows_of now tr) k)) @ openF (windows_of now tr) k =
     along (seen k) tr"
proof (induction tr rule: rev_induct)
  case (snoc l tr)
  show ?case using snoc.IH by (cases l) auto
qed (simp add: no_windows_def)

lemma due_length: "todo_ok s \<Longrightarrow> length (due r ordP s k) \<le> 1"
proof -
  assume "todo_ok s"
  then have "go_map_ok (run_todo (cRun s))" by (simp add: todo_ok_def)
  from filter_key_perm [OF this refl] show ?thesis by (simp add: due_def split: option.split)
qed

text \<open>When no accumulator waits to be sent, the vectors built are those of the closed windows.\<close>

lemma closed_built:
  "conc_inv r ordP s w tr \<Longrightarrow> run_todo (cRun s) = [] \<Longrightarrow>
     along (built k) tr = map (window_vector r ordP) (closedF w k)"
  unfolding conc_inv_def due_ok_def by simp

section \<open>Where packets and vectors are\<close>

fun called :: "nat \<Rightarrow> conc_label \<Rightarrow> FlowPacketMeta list" where
  "called t (Called t' m) = (if t' = t then [m] else [])"
| "called t _ = []"

fun decided :: "nat \<Rightarrow> conc_label \<Rightarrow> FlowPacketMeta list" where
  "decided t (Observed t' m) = (if t' = t then [m] else [])"
| "decided t (Refused t' m) = (if t' = t then [m] else [])"
| "decided t _ = []"

fun observed_by :: "nat \<Rightarrow> conc_label \<Rightarrow> FlowPacketMeta list" where
  "observed_by t (Observed t' m) = (if t' = t then [m] else [])"
| "observed_by t _ = []"

fun port_observed_by :: "nat \<Rightarrow> conc_label \<Rightarrow> FlowPacketMeta list" where
  "port_observed_by t (PortObserved t' m) = (if t' = t then [m] else [])"
| "port_observed_by t _ = []"

fun refused_by :: "nat \<Rightarrow> conc_label \<Rightarrow> FlowPacketMeta list" where
  "refused_by t (Refused t' m) = (if t' = t then [m] else [])"
| "refused_by t _ = []"

fun counted_by :: "nat \<Rightarrow> conc_label \<Rightarrow> unit list" where
  "counted_by t (RefusalCounted t') = (if t' = t then [()] else [])"
| "counted_by t _ = []"

fun undecided :: "ingest_pc \<Rightarrow> FlowPacketMeta list" where
  "undecided (WantFlow m) = [m]"
| "undecided (InFlow m p) = [m]"
| "undecided _ = []"

fun port_pending :: "ingest_pc \<Rightarrow> FlowPacketMeta list" where
  "port_pending (WantPort m) = [m]"
| "port_pending (InPort m p) = [m]"
| "port_pending _ = []"

fun is_counted :: "conc_label \<Rightarrow> bool" where
  "is_counted (RefusalCounted t) = True"
| "is_counted _ = False"

fun is_lost :: "conc_label \<Rightarrow> bool" where
  "is_lost (Lost k ff) = True"
| "is_lost _ = False"

definition calls_ok :: "conc \<Rightarrow> conc_label list \<Rightarrow> nat \<Rightarrow> bool" where
  "calls_ok s tr t \<longleftrightarrow>
     along (called t) tr = along (decided t) tr @ undecided (cIngest s t) \<and>
     along (observed_by t) tr = along (port_observed_by t) tr @ port_pending (cIngest s t) \<and>
     length (along (refused_by t) tr) =
       length (along (counted_by t) tr) + (if cIngest s t = Refusing then 1 else 0)"

definition channel_ok :: "conc \<Rightarrow> conc_label list \<Rightarrow> bool" where
  "channel_ok s tr \<longleftrightarrow>
     along sent tr = along received tr @ cOut s \<and> length (cOut s) \<le> outputBufferSize \<and>
     cDroppedOutput s = of_nat (length (filter is_lost tr)) \<and>
     cDroppedNewFlows s = of_nat (length (filter is_counted tr))"

lemma calls_ok_step:
  assumes "conc_step r ordP s l s'" and "calls_ok s tr t"
  shows "calls_ok s' (tr @ [l]) t"
  using assms(1)
proof cases
  case c_ingest
  then show ?thesis
    using assms(2) by cases (auto simp: calls_ok_def ingest_simps)
next
  case c_flush
  then show ?thesis using assms(2) by cases (auto simp: calls_ok_def flush_defs)
qed (use assms(2) in \<open>simp_all add: calls_ok_def flush_defs\<close>)

lemma channel_ok_step:
  assumes "conc_step r ordP s l s'" and "channel_ok s tr"
  shows "channel_ok s' (tr @ [l])"
  using assms(1)
proof cases
  case c_ingest
  then show ?thesis using assms(2) by cases (auto simp: channel_ok_def ingest_simps)
next
  case c_flush
  then show ?thesis using assms(2) by cases (auto simp: channel_ok_def flush_defs)
qed (use assms(2) in \<open>auto simp: channel_ok_def flush_defs\<close>)

lemma accounting_run:
  "conc_run r ordP (new_conc now) tr s \<Longrightarrow> calls_ok s tr t \<and> channel_ok s tr"
proof (induction rule: conc_run.induct)
  case cr_start
  show ?case by (simp add: calls_ok_def channel_ok_def new_conc_def outputBufferSize_def)
next
  case (cr_step tr s l s')
  then show ?case using calls_ok_step channel_ok_step by blast
qed

end
