(* ===== verification/SequentialRuns.thy ===== *)
theory SequentialRuns
  imports InterleavingProps
begin

text \<open>
  Runs in which nobody interferes: a call of \<open>Ingest\<close> from its entry to its return, the port
  phase and the flow phase of a flush.  They are the functions of \<open>Aggregator\<close>, so whatever
  the function model does is a behaviour of the goroutines.
\<close>

section \<open>Calls\<close>

abbreviation calls_returned :: "conc \<Rightarrow> bool" where
  "calls_returned s \<equiv> \<forall>t. cIngest s t = Returned_ok"

abbreviation mutexes_free :: "conc \<Rightarrow> bool" where
  "mutexes_free s \<equiv> \<forall>i. \<not> mu (cFlows s) i \<and> \<not> mu (cPorts s) i"

lemma store_section:
  "\<not> mu S i \<Longrightarrow> release i (store_at i v0 f k p (acquire i S)) = store_at i v0 f k p S"
  by (cases p) (simp_all add: locked_defs fun_upd_idem)

lemma empty_section: "\<not> mu S i \<Longrightarrow> release i (empty_shard i (acquire i S)) = empty_shard i S"
  by (simp add: locked_defs fun_upd_idem)

lemma refuse_section: "\<not> mu S i \<Longrightarrow> release i (acquire i S) = S"
  by (simp add: locked_defs fun_upd_idem)

lemmas run_intros = conc_run_Cons conc_run.cr_start conc_step.c_ingest conc_step.c_flush

text \<open>A call that is accepted, and one that is refused.\<close>

definition call_labels :: "nat \<Rightarrow> FlowPacketMeta \<Rightarrow> conc_label list" where
  "call_labels t m = [Called t m, IngestInner t, Observed t m, IngestInner t, PortObserved t m]"

definition after_call :: "(real \<Rightarrow> real) \<Rightarrow> FlowPacketMeta \<Rightarrow> conc \<Rightarrow> conc" where
  "after_call r m s =
     s\<lparr>cFlows := store_at (flow_idx (key_of m)) zero_accumulator (obs r m) (key_of m)
                   (go_get (tab (cFlows s) (flow_idx (key_of m))) (key_of m)) (cFlows s),
       cPorts := store_at (port_idx (SrcIP m)) newPortTracker (observe_port (DstPort m)) (SrcIP m)
                   (go_get (tab (cPorts s) (port_idx (SrcIP m))) (SrcIP m)) (cPorts s)\<rparr>"

definition full_for :: "FlowPacketMeta \<Rightarrow> conc \<Rightarrow> bool" where
  "full_for m s \<longleftrightarrow>
     ingest_refuses m (go_get (tab (cFlows s) (flow_idx (key_of m))) (key_of m)) s"

lemma ingest_back: "cIngest s t = pc \<Longrightarrow> s\<lparr>cIngest := (cIngest s)(t := pc)\<rparr> = s"
  by (cases s) (simp add: fun_upd_idem)

lemma call_alone:
  assumes idle: "cIngest s t = Returned_ok" and free: "mutexes_free s" and room: "\<not> full_for m s"
  shows "conc_run r ordP s (call_labels t m) (after_call r m s)"
proof -
  let ?p = "go_get (tab (cFlows s) (flow_idx (key_of m))) (key_of m)"
  let ?q = "go_get (tab (cPorts s) (port_idx (SrcIP m))) (SrcIP m)"
  let ?s1 = "at_ingest t (WantFlow m) s"
  let ?s2 = "ingest_lock_flow t m ?s1"
  let ?s3 = "ingest_observe r t m ?p ?s2"
  let ?s4 = "ingest_lock_port t m ?s3"
  let ?s5 = "ingest_observe_port t m ?q ?s4"
  have "ingest_step r s (Called t m) ?s1" using idle by (rule ingest_step.i_call)
  moreover have "ingest_step r ?s1 (IngestInner t) ?s2"
    using free by (intro ingest_step.i_lock_flow) simp_all
  moreover have "ingest_step r ?s2 (Observed t m) ?s3"
    using room by (intro ingest_step.i_observe) (simp_all add: ingest_simps full_for_def ingest_refuses_def)
  moreover have "ingest_step r ?s3 (IngestInner t) ?s4"
    using free by (intro ingest_step.i_lock_port) (simp_all add: ingest_simps)
  moreover have "ingest_step r ?s4 (PortObserved t m) ?s5"
    by (intro ingest_step.i_observe_port) (simp add: ingest_simps)
  moreover have "?s5 = after_call r m s"
    using free idle ingest_back [of s t Returned_ok]
    by (cases s) (simp add: ingest_simps at_ingest_def after_call_def store_section)
  ultimately show ?thesis unfolding call_labels_def by (metis run_intros)
qed

lemma refused_call_alone:
  assumes idle: "cIngest s t = Returned_ok" and free: "mutexes_free s" and full: "full_for m s"
  shows "conc_run r ordP s [Called t m, IngestInner t, Refused t m, RefusalCounted t]
           (s\<lparr>cDroppedNewFlows := cDroppedNewFlows s + 1\<rparr>)"
proof -
  let ?s1 = "at_ingest t (WantFlow m) s"
  let ?s2 = "ingest_lock_flow t m ?s1"
  let ?s3 = "ingest_refuse t m ?s2"
  let ?s4 = "ingest_count_refused t ?s3"
  have "ingest_step r s (Called t m) ?s1" using idle by (rule ingest_step.i_call)
  moreover have "ingest_step r ?s1 (IngestInner t) ?s2"
    using free by (intro ingest_step.i_lock_flow) simp_all
  moreover have "ingest_step r ?s2 (Refused t m) ?s3"
    using full by (intro ingest_step.i_refuse) (simp_all add: ingest_simps full_for_def ingest_refuses_def)
  moreover have "ingest_step r ?s3 (RefusalCounted t) ?s4"
    by (intro ingest_step.i_count) (simp add: ingest_simps)
  moreover have "?s4 = s\<lparr>cDroppedNewFlows := cDroppedNewFlows s + 1\<rparr>"
    using free idle ingest_back [of s t Returned_ok]
    by (cases s) (simp add: ingest_simps at_ingest_def refuse_section)
  ultimately show ?thesis by (metis run_intros)
qed

section \<open>The port phase\<close>

definition port_labels :: "nat \<Rightarrow> conc_label list" where
  "port_labels i = concat (map (\<lambda>j. [FlushInner, PortsTaken j]) [i ..< numShards])"

definition after_ports :: "flush_locals \<Rightarrow> nat \<Rightarrow> conc \<Rightarrow> conc" where
  "after_ports fl i s =
     s\<lparr>cPorts := fold empty_shard [i ..< numShards] (cPorts s),
       cRun := WantPorts (fl\<lparr>fl_portSnapshot :=
         fold (\<lambda>j. merge_ports (tab (cPorts s) j)) [i ..< numShards] (fl_portSnapshot fl)\<rparr>) numShards\<rparr>"

lemma port_phase_round:
  assumes "cRun s = WantPorts fl i" and "i < numShards" and "\<not> mu (cPorts s) i"
  shows "conc_run r ordP s [FlushInner, PortsTaken i]
    (s\<lparr>cPorts := empty_shard i (cPorts s),
       cRun := WantPorts (fl\<lparr>fl_portSnapshot := merge_ports (tab (cPorts s) i) (fl_portSnapshot fl)\<rparr>) (Suc i)\<rparr>)"
    (is "conc_run _ _ _ _ ?s2")
proof -
  let ?s1 = "flush_lock_ports fl i s"
  have "flush_step r ordP s FlushInner ?s1" using assms by (intro flush_step.f_lock_ports)
  moreover have "flush_step r ordP ?s1 (PortsTaken i) (flush_take_ports fl i (tab (cPorts s) i) ?s1)"
    by (intro flush_step.f_take_ports) (simp add: flush_defs)
  moreover have "flush_take_ports fl i (tab (cPorts s) i) ?s1 = ?s2"
    using empty_section [OF assms(3)] by (simp add: flush_defs)
  ultimately show ?thesis by (metis run_intros)
qed

lemma merge_tail:
  "fold (\<lambda>j. merge_ports (tab (empty_shard i P) j)) [Suc i ..< n] = fold (\<lambda>j. merge_ports (tab P j)) [Suc i ..< n]"
  by (intro ext fold_cong) simp_all

lemma port_phase:
  assumes "cRun s = WantPorts fl i" and "i \<le> numShards" and "\<And>j. \<not> mu (cPorts s) j"
  shows "conc_run r ordP s (port_labels i) (after_ports fl i s)"
  using assms
proof (induction "numShards - i" arbitrary: i s fl)
  case 0
  have eq: "after_ports fl i s = s" using 0 by (cases s) (simp add: after_ports_def)
  show ?case unfolding eq using conc_run.cr_start [of r ordP s] 0 by (simp add: port_labels_def)
next
  case (Suc n)
  let ?fl1 = "fl\<lparr>fl_portSnapshot := merge_ports (tab (cPorts s) i) (fl_portSnapshot fl)\<rparr>"
  let ?s1 = "s\<lparr>cPorts := empty_shard i (cPorts s), cRun := WantPorts ?fl1 (Suc i)\<rparr>"
  have upt: "[i ..< numShards] = i # [Suc i ..< numShards]"
    using Suc.hyps(2) by (intro upt_conv_Cons) simp
  have "port_labels i = [FlushInner, PortsTaken i] @ port_labels (Suc i)"
    by (simp add: port_labels_def upt)
  moreover have "conc_run r ordP ?s1 (port_labels (Suc i)) (after_ports ?fl1 (Suc i) ?s1)"
    using Suc by (intro Suc.hyps(1)) simp_all
  moreover have "conc_run r ordP s [FlushInner, PortsTaken i] ?s1"
    using Suc by (intro port_phase_round) simp_all
  moreover have "after_ports ?fl1 (Suc i) ?s1 = after_ports fl i s"
    by (simp add: after_ports_def upt merge_tail del: locked_fields fun_upd_apply)
  ultimately show ?case using conc_run_trans by fastforce
qed

section \<open>The state of the function model\<close>

lemma go_get_deref_None [simp]: "go_get (deref S m) k = None \<longleftrightarrow> go_get m k = None"
  by (simp add: go_get_deref)

definition deref_shards :: "('k, 'v) locked \<Rightarrow> ('k, 'v) go_map list" where
  "deref_shards S = map (\<lambda>i. deref S (tab S i)) [0 ..< numShards]"

definition abs_agg :: "conc \<Rightarrow> Aggregator" where
  "abs_agg s =
     \<lparr>flowShards = deref_shards (cFlows s), portShards = deref_shards (cPorts s), out = cOut s,
      out_closed = cClosed s, windowStart = cWindowStart s, droppedNewFlows = cDroppedNewFlows s,
      droppedOutput = cDroppedOutput s\<rparr>"

lemma deref_shards_nth [simp]: "i < numShards \<Longrightarrow> deref_shards S ! i = deref S (tab S i)"
  by (simp add: deref_shards_def)

lemma length_deref [simp]: "length (deref S m) = length m"
  by (simp add: deref_def)

lemma deref_cong: "(\<And>k a. (k, a) \<in> set m \<Longrightarrow> heap S a = heap S' a) \<Longrightarrow> deref S m = deref S' m"
  by (auto simp: deref_def)

text \<open>A change of one object is a change of the one entry that refers to it.\<close>

lemma deref_set:
  assumes "go_map_ok m" and "go_get m k = Some a" and "\<And>k'. (k', a) \<in> set m \<Longrightarrow> k' = k"
  shows "deref (S\<lparr>heap := (heap S)(a := v)\<rparr>) m = go_set (deref S m) k v"
  using assms
proof (induction m)
  case (Cons x m)
  obtain k' b where x: "x = (k', b)" by (cases x)
  show ?case
  proof (cases "k' = k")
    case True
    then have "(k'', a) \<notin> set m" for k''
      using Cons.prems x by (force simp: go_map_ok_def)
    then have "deref (S\<lparr>heap := (heap S)(a := v)\<rparr>) m = deref S m" by (intro deref_cong) auto
    then show ?thesis using True x Cons.prems(2) by (simp add: deref_def)
  next
    case False
    then have "b \<noteq> a" using Cons.prems(3) x by auto
    moreover have "deref (S\<lparr>heap := (heap S)(a := v)\<rparr>) m = go_set (deref S m) k v"
      using Cons.prems False x by (intro Cons.IH) (auto simp: go_map_ok_def)
    ultimately show ?thesis using False x by (simp add: deref_def)
  qed
qed simp

lemma deref_shards_update:
  assumes "length shards = numShards"
    and "\<And>j. j < numShards \<Longrightarrow> j \<noteq> i \<Longrightarrow> deref S (tab S j) = shards ! j"
    and "i < numShards \<Longrightarrow> deref S (tab S i) = m"
  shows "deref_shards S = shards[i := m]"
proof (rule nth_equalityI)
  show "length (deref_shards S) = length (shards[i := m])" using assms(1) by (simp add: deref_shards_def)
next
  fix j
  assume "j < length (deref_shards S)"
  then have j: "j < numShards" by (simp add: deref_shards_def)
  show "deref_shards S ! j = shards[i := m] ! j"
    using assms j by (cases "j = i") simp_all
qed

context windowed
begin

lemma deref_store:
  assumes rep: "rep S win" and k: "idx k < numShards" and p: "go_get (tab S (idx k)) k = p"
  shows "deref_shards (store_at (idx k) v0 f k p S) =
         shard_set idx (deref_shards S) k (f (case p of None \<Rightarrow> v0 | Some a \<Rightarrow> heap S a))"
proof (cases p)
  case None
  have old: "deref (store_at (idx k) v0 f k p S) (tab S j) = deref S (tab S j)" for j
    using rep None by (intro deref_cong) (auto simp: holds_windows_def)
  have "go_get (deref S (tab S (idx k))) k = None" using p None by simp
  then have "deref (store_at (idx k) v0 f k p S) (tab (store_at (idx k) v0 f k p S) (idx k)) =
      go_set (deref S (tab S (idx k))) k (f v0)"
    using None p old [of "idx k"] by (simp add: go_set_absent_append deref_def)
  then show ?thesis
    unfolding shard_set_def using k None old
    by (intro deref_shards_update) (simp_all add: deref_shards_def)
next
  case (Some a)
  have ok: "go_map_ok (tab S (idx k))" using rep by (simp add: holds_windows_def)
  have only: "k' = k" if "(k', a) \<in> set (tab S j)" for k' j
    using that rep p Some rep_mem [OF rep] unfolding holds_windows_def by metis
  have "deref (store_at (idx k) v0 f k p S) (tab S j) = deref S (tab S j)" if "j \<noteq> idx k" for j
    using that only Some rep by (intro deref_cong) (auto simp: holds_windows_def)
  moreover have "deref (store_at (idx k) v0 f k p S) (tab S (idx k)) =
      go_set (deref S (tab S (idx k))) k (f (heap S a))"
    unfolding Some store_at.simps using p Some only by (intro deref_set ok) auto
  ultimately show ?thesis
    unfolding shard_set_def using k Some
    by (intro deref_shards_update) (simp_all add: deref_shards_def)
qed

lemma deref_get:
  "idx k < numShards \<Longrightarrow> shard_get idx (deref_shards S) k = map_option (heap S) (go_get (tab S (idx k)) k)"
  by (simp add: shard_get_def go_get_deref)

end

lemma full_for_refused: "full_for m s \<longleftrightarrow> refused m (abs_agg s)"
  using shardIndex_less [of "key_of m"]
  by (simp add: full_for_def ingest_refuses_def refused_def abs_agg_def shard_get_def)

lemma after_call_Ingest:
  assumes "wf.rep r (cFlows s) win" and "wp.rep (cPorts s) pwin" and "\<not> full_for m s"
  shows "abs_agg (after_call r m s) = Ingest r m (abs_agg s)"
proof -
  have "\<not> refused m (abs_agg s)" using assms(3) by (simp add: full_for_refused)
  then show ?thesis
    using wf.deref_store [OF assms(1) shardIndex_less refl, of "key_of m" "obs r m"]
      wp.deref_store [OF assms(2) srcIPShardIndex_less refl, of "SrcIP m" "observe_port (DstPort m)"]
    by (simp add: Ingest_accepted Ingest_port_alt abs_agg_def after_call_def comp_def
          wf.deref_get [OF shardIndex_less] wp.deref_get [OF srcIPShardIndex_less]
          cong: option.case_cong)
qed

section \<open>The flow phase\<close>

text \<open>What a flush alone leaves untouched while it swaps and sends.\<close>

definition same_calls :: "conc \<Rightarrow> conc \<Rightarrow> bool" where
  "same_calls s s' \<longleftrightarrow> cIngest s' = cIngest s \<and> cPorts s' = cPorts s"

lemma send_phase:
  assumes "cRun s = Sending fl i todo"
  shows "\<exists>tr s'. conc_run r ordP s tr s' \<and> cRun s' = Sending fl i [] \<and> same_calls s s' \<and>
           cFlows s' = cFlows s \<and>
           abs_agg s' = fold send_out (map (\<lambda>(k, a). conc_features r ordP fl s a) todo) (abs_agg s)"
  using assms
proof (induction todo arbitrary: s)
  case Nil
  then show ?case using conc_run.cr_start by (fastforce simp: same_calls_def)
next
  case (Cons x todo)
  obtain k a where x: "x = (k, a)" by (cases x)
  let ?ff = "conc_features r ordP fl s a"
  have run: "cRun s = Sending fl i ((k, a) # todo)" using Cons.prems x by simp
  obtain l s1 where step: "flush_step r ordP s l s1" and s1: "cRun s1 = Sending fl i todo" "same_calls s s1"
    "cFlows s1 = cFlows s" "abs_agg s1 = send_out ?ff (abs_agg s)"
  proof (cases "length (cOut s) < outputBufferSize")
    case True
    then show ?thesis
      using that [OF flush_step.f_send [OF run]]
      by (simp add: same_calls_def abs_agg_def send_out_def)
  next
    case False
    then show ?thesis
      using that [OF flush_step.f_lose [OF run]]
      by (simp add: same_calls_def abs_agg_def send_out_def)
  qed
  obtain tr s2 where s2: "conc_run r ordP s1 tr s2" "cRun s2 = Sending fl i []" "same_calls s1 s2"
    "cFlows s2 = cFlows s1"
    "abs_agg s2 = fold send_out (map (\<lambda>(k, a). conc_features r ordP fl s1 a) todo) (abs_agg s1)"
    using Cons.IH [OF s1(1)] by blast
  have "conc_features r ordP fl s1 = conc_features r ordP fl s"
    using s1(2,3) by (simp add: fun_eq_iff conc_features_def same_calls_def)
  then have "abs_agg s2 = fold send_out (map (\<lambda>(k, a). conc_features r ordP fl s a) (x # todo)) (abs_agg s)"
    using s2(5) s1(4) x by simp
  moreover have "conc_run r ordP s (l # tr) s2"
    using conc_step.c_flush [OF step] s2(1) by (rule conc_run_Cons)
  ultimately show ?case using s2 s1 unfolding same_calls_def by metis
qed

text \<open>Any order of the entries is an order of the pointers.\<close>

lemma map_order:
  "mset ys = image_mset f (mset xs) \<Longrightarrow> \<exists>xs'. mset xs' = mset xs \<and> map f xs' = ys"
proof (induction ys arbitrary: xs)
  case (Cons y ys)
  then have "y \<in># image_mset f (mset xs)" by (metis list.set_intros(1) set_mset_mset)
  then obtain x where x: "x \<in># mset xs" "f x = y" by auto
  then have "mset xs = add_mset x (mset (remove1 x xs))" by simp
  then have "mset ys = image_mset f (mset (remove1 x xs))"
    using Cons.prems x(2) by (metis add_mset_add_mset_same_iff image_mset_add_mset mset.simps(2))
  then obtain xs' where "mset xs' = mset (remove1 x xs)" "map f xs' = ys" using Cons.IH by blast
  then show ?case using x by (intro exI [of _ "x # xs'"]) simp
qed simp

lemma deref_order: "mset fas = mset (deref S m) \<Longrightarrow> \<exists>todo. mset todo = mset m \<and> deref S todo = fas"
  unfolding deref_def by (rule map_order) simp

lemma flow_phase_round:
  assumes run: "cRun s = WantFlows fl i" and i: "i < numShards" and free: "\<not> mu (cFlows s) i"
    and perm: "\<And>l. mset (ordF l) = mset l"
  shows "\<exists>tr s'. conc_run r ordP s tr s' \<and> cRun s' = WantFlows fl (Suc i) \<and> same_calls s s' \<and>
           cFlows s' = empty_shard i (cFlows s) \<and>
           abs_agg s' = flush_shard (flow_features r ordP (deref (cPorts s) (fl_portSnapshot fl))
                          (fl_windowStart fl) (fl_windowEnd fl)) ordF i (abs_agg s)"
proof -
  obtain todo where todo: "mset todo = mset (tab (cFlows s) i)"
    "deref (cFlows s) todo = ordF (deref (cFlows s) (tab (cFlows s) i))"
    using deref_order [OF perm] by blast
  let ?s1 = "flush_lock_flows fl i s"
  let ?s2 = "s\<lparr>cFlows := empty_shard i (cFlows s), cRun := Sending fl i todo\<rparr>"
  have "flush_step r ordP s FlushInner ?s1" using run i free by (rule flush_step.f_lock_flows)
  moreover have "flush_step r ordP ?s1 (FlowsTaken i) (flush_take_flows fl i todo ?s1)"
    using todo(1) by (intro flush_step.f_take_flows) (simp_all add: flush_defs)
  moreover have "flush_take_flows fl i todo ?s1 = ?s2"
    using empty_section [OF free] by (simp add: flush_defs)
  ultimately have run2: "conc_run r ordP s [FlushInner, FlowsTaken i] ?s2" by (metis run_intros)
  obtain tr s3 where s3: "conc_run r ordP ?s2 tr s3" "cRun s3 = Sending fl i []" "same_calls ?s2 s3"
    "cFlows s3 = cFlows ?s2"
    "abs_agg s3 = fold send_out (map (\<lambda>(k, a). conc_features r ordP fl ?s2 a) todo) (abs_agg ?s2)"
    using send_phase [of ?s2 fl i todo r ordP] by auto
  let ?s4 = "s3\<lparr>cRun := WantFlows fl (Suc i)\<rparr>"
  have run4: "conc_run r ordP s3 [FlushInner] ?s4"
    using flush_step.f_next [OF s3(2)] by (intro conc_run_one conc_step.c_flush)
  have "deref_shards (empty_shard i (cFlows s)) = (deref_shards (cFlows s))[i := []]"
    using i by (intro deref_shards_update) (simp_all add: deref_def, simp add: deref_shards_def)
  then have "abs_agg ?s2 = (abs_agg s)\<lparr>flowShards := (flowShards (abs_agg s))[i := []]\<rparr>"
    by (simp add: abs_agg_def)
  moreover have "map (\<lambda>(k, a). conc_features r ordP fl ?s2 a) todo =
      map (flow_features r ordP (deref (cPorts s) (fl_portSnapshot fl)) (fl_windowStart fl)
        (fl_windowEnd fl) \<circ> snd) (ordF (flowShards (abs_agg s) ! i))"
    using i by (simp add: abs_agg_def todo(2) [symmetric]) (auto simp: deref_def conc_features_def)
  ultimately have "abs_agg ?s4 = flush_shard (flow_features r ordP (deref (cPorts s) (fl_portSnapshot fl))
      (fl_windowStart fl) (fl_windowEnd fl)) ordF i (abs_agg s)"
    using s3(5) by (simp add: flush_shard_alt) (simp add: abs_agg_def)
  moreover have "same_calls s ?s4" "cFlows ?s4 = empty_shard i (cFlows s)"
    using s3(3,4) by (simp_all add: same_calls_def)
  ultimately show ?thesis
    using conc_run_trans [OF run4 conc_run_trans [OF s3(1) run2]] by force
qed

lemma flow_phase:
  assumes "cRun s = WantFlows fl i" and "i \<le> numShards" and "mutexes_free s"
    and perm: "\<And>l. mset (ordF l) = mset l"
  shows "\<exists>tr s'. conc_run r ordP s tr s' \<and> cRun s' = WantFlows fl numShards \<and> same_calls s s' \<and>
           mutexes_free s' \<and>
           abs_agg s' = fold (flush_shard (flow_features r ordP (deref (cPorts s) (fl_portSnapshot fl))
                          (fl_windowStart fl) (fl_windowEnd fl)) ordF) [i ..< numShards] (abs_agg s)"
  using assms(1-3)
proof (induction "numShards - i" arbitrary: i s)
  case 0
  then show ?case using conc_run.cr_start by (fastforce simp: same_calls_def)
next
  case (Suc n)
  then have i: "i < numShards" and n: "n = numShards - Suc i" by simp_all
  obtain tr1 s1 where s1: "conc_run r ordP s tr1 s1" "cRun s1 = WantFlows fl (Suc i)" "same_calls s s1"
    "cFlows s1 = empty_shard i (cFlows s)"
    "abs_agg s1 = flush_shard (flow_features r ordP (deref (cPorts s) (fl_portSnapshot fl))
       (fl_windowStart fl) (fl_windowEnd fl)) ordF i (abs_agg s)"
    using flow_phase_round [where ordF = ordF, OF Suc.prems(1) i _ perm, of r ordP] Suc.prems(3) by blast
  have "mutexes_free s1" using s1(3,4) Suc.prems(3) by (simp add: same_calls_def)
  then obtain tr2 s2 where s2: "conc_run r ordP s1 tr2 s2" "cRun s2 = WantFlows fl numShards"
    "same_calls s1 s2" "mutexes_free s2"
    "abs_agg s2 = fold (flush_shard (flow_features r ordP (deref (cPorts s1) (fl_portSnapshot fl))
       (fl_windowStart fl) (fl_windowEnd fl)) ordF) [Suc i ..< numShards] (abs_agg s1)"
    using Suc.hyps(1) [OF n s1(2)] i by (auto simp: Suc_le_eq)
  have "abs_agg s2 = fold (flush_shard (flow_features r ordP (deref (cPorts s) (fl_portSnapshot fl))
       (fl_windowStart fl) (fl_windowEnd fl)) ordF) [i ..< numShards] (abs_agg s)"
    using s2(5) s1(3,5) upt_conv_Cons [OF i] by (simp add: same_calls_def)
  moreover have "same_calls s s2" using s1(3) s2(3) by (simp add: same_calls_def)
  ultimately show ?case using conc_run_trans [OF s2(1) s1(1)] s2(2,4) by blast
qed

section \<open>A flush\<close>

lemma deref_map_set: "deref S (go_set m k a) = go_set (deref S m) k (heap S a)"
  by (induction m) (auto simp: deref_def)

lemma deref_merge:
  "deref S (merge_ports ports snap) = fold (\<lambda>(ip, pt) snap. go_set snap ip pt) (deref S ports) (deref S snap)"
proof (induction ports arbitrary: snap)
  case (Cons x ports)
  then show ?case by (cases x) (simp add: merge_ports_def deref_def deref_map_set [unfolded deref_def])
qed (simp add: merge_ports_def deref_def)

lemma fold_concat_map: "fold f (concat (map g xs)) = fold (\<lambda>x. fold f (g x)) xs"
  by (induction xs) (simp_all add: fun_eq_iff)

lemma deref_snapshot:
  "deref S (fold (\<lambda>j. merge_ports (tab S j)) xs snap) =
     fold (\<lambda>(ip, pt) snap. go_set snap ip pt) (concat (map (\<lambda>j. deref S (tab S j)) xs)) (deref S snap)"
  by (induction xs arbitrary: snap) (simp_all add: deref_merge)

lemma fold_empty_shard:
  "tab (fold empty_shard xs S) j = (if j \<in> set xs then [] else tab S j)"
  "heap (fold empty_shard xs S) = heap S" "mu (fold empty_shard xs S) = mu S"
  by (induction xs arbitrary: S) auto

lemma deref_shards_empty: "deref_shards (fold empty_shard [0 ..< numShards] S) = replicate numShards []"
  by (rule nth_equalityI) (simp_all add: deref_shards_def deref_def fold_empty_shard)

text \<open>From the select to the first flow shard.\<close>

lemma flush_ports_alone:
  assumes run: "cRun s = Selecting" and free: "mutexes_free s"
  shows "\<exists>tr s' fl. conc_run r ordP s tr s' \<and> cRun s' = WantFlows fl 0 \<and> mutexes_free s' \<and>
           cIngest s' = cIngest s \<and> fl_windowStart fl = windowStart (abs_agg s) \<and> fl_windowEnd fl = now \<and>
           fl_final fl = final \<and>
           deref (cPorts s') (fl_portSnapshot fl) = port_snapshot (portShards (abs_agg s)) \<and>
           abs_agg s' = (abs_agg s)\<lparr>windowStart := now, portShards := replicate numShards []\<rparr>"
proof -
  let ?fl = "\<lparr>fl_windowStart = cWindowStart s, fl_windowEnd = now, fl_portSnapshot = [], fl_final = final\<rparr>"
  let ?snap = "fold (\<lambda>j. merge_ports (tab (cPorts s) j)) [0 ..< numShards] []"
  let ?fl' = "?fl\<lparr>fl_portSnapshot := ?snap\<rparr>"
  let ?s1 = "flush_begin final now s" and ?s2 = "after_ports ?fl 0 (flush_begin final now s)"
  let ?s3 = "?s2\<lparr>cRun := WantFlows ?fl' 0\<rparr>"
  have r1: "conc_run r ordP s [FlushBegins now] ?s1"
    using run by (intro conc_run_one conc_step.c_begin)
  have r2: "conc_run r ordP ?s1 (port_labels 0) ?s2"
    using free by (intro port_phase) (simp_all add: flush_begin_def)
  have "flush_step r ordP ?s2 FlushInner ?s3"
    by (intro flush_step.f_ports_done [of _ _ numShards]) (simp_all add: after_ports_def flush_begin_def)
  then have r3: "conc_run r ordP ?s2 [FlushInner] ?s3" by (intro conc_run_one conc_step.c_flush)
  have "mutexes_free ?s3" using free by (simp add: after_ports_def flush_begin_def fold_empty_shard)
  moreover have "abs_agg ?s3 = (abs_agg s)\<lparr>windowStart := now, portShards := replicate numShards []\<rparr>"
    by (simp add: abs_agg_def after_ports_def flush_begin_def deref_shards_empty)
  moreover have "deref (cPorts ?s3) (fl_portSnapshot ?fl') = port_snapshot (portShards (abs_agg s))"
    using deref_snapshot [of "cPorts s" "[0 ..< numShards]" "[]"]
    by (simp add: after_ports_def flush_begin_def port_snapshot_def abs_agg_def deref_shards_def
          deref_def fold_empty_shard)
  moreover have "cIngest ?s3 = cIngest s" by (simp add: after_ports_def flush_begin_def)
  moreover have "fl_windowStart ?fl' = windowStart (abs_agg s)" by (simp add: abs_agg_def)
  ultimately show ?thesis
    using conc_run_trans [OF r3 conc_run_trans [OF r2 r1]]
    by (intro exI [of _ ?s3] exI [of _ ?fl'] exI) auto
qed

lemma flush_alone:
  assumes "cRun s = Selecting" and "mutexes_free s" and perm: "\<And>l. mset (ordF l) = mset l"
  shows "\<exists>tr s'. conc_run r ordP s tr s' \<and> cIngest s' = cIngest s \<and> mutexes_free s' \<and>
           cRun s' = (if final then RunReturned else Selecting) \<and>
           abs_agg s' = (if final then (flush r ordP ordF now (abs_agg s))\<lparr>out_closed := True\<rparr>
                         else flush r ordP ordF now (abs_agg s))"
proof -
  from flush_ports_alone [OF assms(1,2), of r ordP now final] obtain tr1 s1 fl where
    s1: "conc_run r ordP s tr1 s1" "cRun s1 = WantFlows fl 0" "mutexes_free s1" "cIngest s1 = cIngest s"
    and fl: "fl_windowStart fl = windowStart (abs_agg s)" "fl_windowEnd fl = now" "fl_final fl = final"
      "deref (cPorts s1) (fl_portSnapshot fl) = port_snapshot (portShards (abs_agg s))"
    and abs1: "abs_agg s1 = (abs_agg s)\<lparr>windowStart := now, portShards := replicate numShards []\<rparr>"
    by blast
  from flow_phase [where ordF = ordF, OF s1(2) le0 s1(3) perm, of r ordP] obtain tr2 s2 where
    s2: "conc_run r ordP s1 tr2 s2" "cRun s2 = WantFlows fl numShards" "same_calls s1 s2" "mutexes_free s2"
    and abs2: "abs_agg s2 = fold (flush_shard (flow_features r ordP (deref (cPorts s1) (fl_portSnapshot fl))
       (fl_windowStart fl) (fl_windowEnd fl)) ordF) [0 ..< numShards] (abs_agg s1)"
    by blast
  have abs: "abs_agg s2 = flush r ordP ordF now (abs_agg s)"
    unfolding abs2 abs1 fl flush_def Let_def ..
  have "conc_run r ordP s2 [FlushEnds] (flush_end fl s2)"
    using flush_step.f_end [OF s2(2)] by (intro conc_run_one conc_step.c_flush) simp
  then have "conc_run r ordP s ((tr1 @ tr2) @ [FlushEnds]) (flush_end fl s2)"
    using conc_run_trans s1(1) s2(1) by blast
  moreover have "abs_agg (flush_end fl s2) =
      (if final then (abs_agg s2)\<lparr>out_closed := True\<rparr> else abs_agg s2)"
    by (simp add: flush_end_def fl(3) abs_agg_def)
  moreover have "cIngest (flush_end fl s2) = cIngest s" "mutexes_free (flush_end fl s2)"
    "cRun (flush_end fl s2) = (if final then RunReturned else Selecting)"
    using s1(4) s2(3,4) by (simp_all add: flush_end_def fl(3) same_calls_def)
  ultimately show ?thesis unfolding abs by blast
qed

section \<open>Sequences of calls\<close>

datatype agg_op = Do_Ingest FlowPacketMeta | Do_Run run_event | Do_Receive

text \<open>The function model: the aggregator, and whether \<open>Run\<close> still goes on.\<close>

fun seq_op ::
    "(real \<Rightarrow> real) \<Rightarrow> ((u16 \<times> u32) list \<Rightarrow> (u16 \<times> u32) list) \<Rightarrow> (flow_shard \<Rightarrow> flow_shard) \<Rightarrow>
     agg_op \<Rightarrow> Aggregator \<times> bool \<Rightarrow> Aggregator \<times> bool" where
  "seq_op r ordP ordF (Do_Ingest m) (a, going) = (Ingest r m a, going)"
| "seq_op r ordP ordF (Do_Run ev) (a, going) = (if going then Run_event r ordP ordF ev a else (a, going))"
| "seq_op r ordP ordF Do_Receive (a, going) = (a\<lparr>out := drop 1 (out a)\<rparr>, going)"

definition same_state :: "conc \<Rightarrow> Aggregator \<times> bool \<Rightarrow> bool" where
  "same_state s ag \<longleftrightarrow> abs_agg s = fst ag \<and> calls_returned s \<and> mutexes_free s \<and>
     cRun s = (if snd ag then Selecting else RunReturned)"

lemma deref_shards_new: "deref_shards (new_locked v) = replicate numShards []"
  by (rule nth_equalityI) (simp_all add: deref_shards_def new_locked_def deref_def)

lemma same_state_new: "same_state (new_conc t0) (NewAggregator t0, True)"
  by (simp add: same_state_def abs_agg_def new_conc_def NewAggregator_def deref_shards_new)
     (simp add: new_locked_def)

lemma same_state_ingest:
  assumes run: "conc_run r ordP (new_conc t0) tr s" and "same_state s (a, going)"
  shows "\<exists>tr' s'. conc_run r ordP s tr' s' \<and> same_state s' (Ingest r m a, going)"
proof (cases "full_for m s")
  case True
  then have "Ingest r m a = a\<lparr>droppedNewFlows := droppedNewFlows a + 1\<rparr>"
    using assms(2) by (simp add: same_state_def full_for_refused Ingest_refused)
  then show ?thesis
    using refused_call_alone [OF _ _ True, of 0 r ordP] assms(2)
    by (intro exI conjI) (auto simp: same_state_def abs_agg_def)
next
  case False
  have "conc_inv r ordP s (windows_of t0 tr) tr" using run by (rule conc_run_inv)
  then have "abs_agg (after_call r m s) = Ingest r m a"
    using after_call_Ingest [OF _ _ False] assms(2)
    by (auto simp: conc_inv_def tables_ok_def same_state_def)
  then show ?thesis
    using call_alone [OF _ _ False, of 0 r ordP] assms(2)
    by (intro exI conjI) (auto simp: same_state_def after_call_def)
qed

lemma same_state_op:
  assumes run: "conc_run r ordP (new_conc t0) tr s" and same: "same_state s (a, going)"
    and perm: "\<And>l. mset (ordF l) = mset l"
  shows "\<exists>tr' s'. conc_run r ordP s tr' s' \<and> same_state s' (seq_op r ordP ordF op (a, going))"
proof (cases op)
  case (Do_Ingest m)
  then show ?thesis using same_state_ingest [OF run same] by simp
next
  case (Do_Run ev)
  show ?thesis
  proof (cases going)
    case True
    then have s: "cRun s = Selecting" "mutexes_free s" "abs_agg s = a" "calls_returned s"
      using same by (simp_all add: same_state_def)
    note alone = flush_alone [where ordF = ordF and r = r and ordP = ordP, OF s(1,2) perm, unfolded s(3)]
    show ?thesis
    proof (cases ev)
      case (Tick now)
      from alone [of False now] obtain tr' s' where "conc_run r ordP s tr' s'"
        "same_state s' (Run_event r ordP ordF ev a)"
        unfolding same_state_def using s(4) Tick by auto
      then show ?thesis using Do_Run True by auto
    next
      case (CtxDone now)
      from alone [of True now] obtain tr' s' where "conc_run r ordP s tr' s'"
        "same_state s' (Run_event r ordP ordF ev a)"
        unfolding same_state_def using s(4) CtxDone by auto
      then show ?thesis using Do_Run True by auto
    qed
  qed (use same Do_Run conc_run.cr_start in fastforce)
next
  case Do_Receive
  show ?thesis
  proof (cases "cOut s")
    case Nil
    then show ?thesis
      using same Do_Receive conc_run.cr_start [of r ordP s]
      by (intro exI [of _ "[]"] exI [of _ s]) (auto simp: same_state_def abs_agg_def)
  next
    case (Cons ff rest)
    from conc_run_one [OF conc_step.c_receive [OF this]] show ?thesis
      using same Do_Receive Cons by (intro exI conjI) (auto simp: same_state_def abs_agg_def)
  qed
qed

lemma sequential_run:
  assumes "\<And>l. mset (ordF l) = mset l"
  shows "\<exists>tr s. conc_run r ordP (new_conc t0) tr s \<and>
           same_state s (fold (seq_op r ordP ordF) ops (NewAggregator t0, True))"
proof (induction ops rule: rev_induct)
  case Nil
  show ?case using conc_run.cr_start same_state_new by fastforce
next
  case (snoc op ops)
  then obtain tr s where s: "conc_run r ordP (new_conc t0) tr s"
    "same_state s (fold (seq_op r ordP ordF) ops (NewAggregator t0, True))" by blast
  obtain a going where ag: "fold (seq_op r ordP ordF) ops (NewAggregator t0, True) = (a, going)"
    by (cases "fold (seq_op r ordP ordF) ops (NewAggregator t0, True)")
  from same_state_op [where ordF = ordF, OF s(1) s(2) [unfolded ag] assms, of op]
  show ?case using conc_run_trans [OF _ s(1)] ag by fastforce
qed

end
