(* ===== verification/FlushProgress.thy ===== *)
theory FlushProgress
  imports InterleavingProps
begin

text \<open>
  A flush always ends.  \<open>left\<close> counts the steps it has at most left to take; no other
  goroutine can raise it, because a shard never holds more than its cap, and the only thing
  a flush ever waits for is a mutex whose holder's very next step frees it.
\<close>

section \<open>The steps a flush has left\<close>

text \<open>Per flow shard: lock, take, one send per flow, next; per port shard: lock and take.\<close>

abbreviation shard_cost :: nat where
  "shard_cost \<equiv> maxFlowsPerShard + 3"

abbreviation flush_cost :: nat where
  "flush_cost \<equiv> 2 * numShards + numShards * shard_cost + 2"

fun left :: "run_pc \<Rightarrow> nat" where
  "left (WantPorts fl i) = 2 * (numShards - i) + numShards * shard_cost + 2"
| "left (InPorts fl i ports) = 2 * (numShards - Suc i) + numShards * shard_cost + 3"
| "left (WantFlows fl i) = (numShards - i) * shard_cost + 1"
| "left (InFlows fl i flows) = (numShards - Suc i) * shard_cost + maxFlowsPerShard + 3"
| "left (Sending fl i todo) = (numShards - Suc i) * shard_cost + length todo + 2"
| "left _ = 0"

definition idle :: "conc \<Rightarrow> bool" where
  "idle s \<longleftrightarrow> cRun s = Selecting \<or> cRun s = RunReturned"

lemma left_zero: "left (cRun s) = 0 \<longleftrightarrow> idle s"
  by (cases "cRun s") (auto simp: idle_def)

text \<open>Sections are entered for existing shards only.\<close>

fun shard_in_range :: "run_pc \<Rightarrow> bool" where
  "shard_in_range (InPorts fl i ports) \<longleftrightarrow> i < numShards"
| "shard_in_range (InFlows fl i flows) \<longleftrightarrow> i < numShards"
| "shard_in_range (Sending fl i todo) \<longleftrightarrow> i < numShards"
| "shard_in_range _ \<longleftrightarrow> True"

lemma range_step:
  assumes "conc_step r ordP s l s'" and "shard_in_range (cRun s)"
  shows "shard_in_range (cRun s')"
  using assms(1)
proof cases
  case c_ingest
  then show ?thesis using assms(2) by (simp add: ingest_run_kept)
next
  case c_flush
  then show ?thesis using assms(2) by cases (auto simp: flush_defs)
qed (use assms(2) in \<open>simp_all add: flush_defs\<close>)

lemma range_run: "conc_run r ordP (new_conc now) tr s \<Longrightarrow> shard_in_range (cRun s)"
  by (induction rule: conc_run.induct) (auto simp: new_conc_def intro: range_step)

text \<open>One flush step uses up at least one; the rest leave the count alone.\<close>

lemma left_flush:
  assumes "flush_step r ordP s l s'" and "flow_reads s" and "tables_ok r s w"
    and "shard_in_range (cRun s)"
  shows "left (cRun s') < left (cRun s)"
  using assms(1)
proof cases
  case (f_lock_flows fl i)
  then have "numShards - i = Suc (numShards - Suc i)" by simp
  then show ?thesis using f_lock_flows by (simp add: flush_defs)
next
  case (f_take_flows fl i flows todo)
  then have "length todo = length (tab (cFlows s) i)"
    using assms(2) by (auto simp: flow_reads_def dest: mset_eq_length)
  then have "length todo \<le> maxFlowsPerShard" using assms(3) by (simp add: tables_ok_def)
  then show ?thesis using f_take_flows by (simp add: flush_defs)
qed (use assms(4) in \<open>auto simp: flush_defs\<close>)

fun is_begin :: "conc_label \<Rightarrow> bool" where
  "is_begin (FlushBegins now) = True"
| "is_begin _ = False"

fun is_flush :: "conc_label \<Rightarrow> bool" where
  "is_flush (PortsTaken i) = True"
| "is_flush (FlowsTaken i) = True"
| "is_flush (Sent k ff) = True"
| "is_flush (Lost k ff) = True"
| "is_flush FlushInner = True"
| "is_flush FlushEnds = True"
| "is_flush _ = False"

lemma flush_label: "flush_step r ordP s l s' \<Longrightarrow> is_flush l"
  by (induction rule: flush_step.induct) simp_all

lemma left_run:
  assumes "conc_run r ordP s tr' s'" and "conc_run r ordP (new_conc now) tr s"
    and "\<not> list_ex is_begin tr'"
  shows "length (filter is_flush tr') + left (cRun s') \<le> left (cRun s)"
  using assms
proof (induction rule: conc_run.induct)
  case (cr_step tr' s1 l s2)
  have run: "conc_run r ordP (new_conc now) (tr @ tr') s1"
    using cr_step.hyps(1) cr_step.prems(1) by (rule conc_run_trans)
  have IH: "length (filter is_flush tr') + left (cRun s1) \<le> left (cRun s)"
    using cr_step by simp
  from cr_step.hyps(2) show ?case
  proof cases
    case c_ingest
    then have "\<not> is_flush l" by cases simp_all
    then show ?thesis using c_ingest IH by (simp add: ingest_run_kept)
  next
    case c_flush
    have "left (cRun s2) < left (cRun s1)"
      using left_flush [OF c_flush] conc_run_inv [OF run] range_run [OF run]
      unfolding conc_inv_def by blast
    then show ?thesis using IH by simp
  qed (use cr_step.prems IH in auto)
qed simp

lemma left_bound: "conc_run r ordP (new_conc now) tr s \<Longrightarrow> left (cRun s) \<le> flush_cost"
proof (induction rule: conc_run.induct)
  case (cr_step tr s l s')
  from cr_step.hyps(2) show ?case
  proof cases
    case c_flush
    have "left (cRun s') < left (cRun s)"
      using left_flush [OF c_flush] conc_run_inv [OF cr_step.hyps(1)] range_run [OF cr_step.hyps(1)]
      unfolding conc_inv_def by blast
    then show ?thesis using cr_step.IH by simp
  qed (use cr_step.IH in \<open>simp_all add: ingest_run_kept flush_defs\<close>)
qed (simp add: new_conc_def)

section \<open>A flush is never stuck\<close>

text \<open>The mutex the flush waits for.\<close>

fun wants_port :: "run_pc \<Rightarrow> nat option" where
  "wants_port (WantPorts fl i) = (if i < numShards then Some i else None)"
| "wants_port _ = None"

fun wants_flow :: "run_pc \<Rightarrow> nat option" where
  "wants_flow (WantFlows fl i) = (if i < numShards then Some i else None)"
| "wants_flow _ = None"

lemma flush_enabled:
  assumes "\<not> idle s" and "\<And>i. wants_port (cRun s) = Some i \<Longrightarrow> \<not> mu (cPorts s) i"
    and "\<And>i. wants_flow (cRun s) = Some i \<Longrightarrow> \<not> mu (cFlows s) i"
  shows "\<exists>l s'. flush_step r ordP s l s'"
proof (cases "cRun s")
  case (WantPorts fl i)
  then show ?thesis
    using assms(2) flush_step.f_lock_ports [OF WantPorts] flush_step.f_ports_done [OF WantPorts]
    by (cases "i < numShards") auto
next
  case (InPorts fl i ports)
  then show ?thesis by (blast intro: flush_step.f_take_ports)
next
  case (WantFlows fl i)
  then show ?thesis
    using assms(3) flush_step.f_lock_flows [OF WantFlows] flush_step.f_end [OF WantFlows]
    by (cases "i < numShards") auto
next
  case (InFlows fl i flows)
  then show ?thesis by (blast intro: flush_step.f_take_flows)
next
  case (Sending fl i todo)
  show ?thesis
  proof (cases todo)
    case (Cons x rest)
    then have "cRun s = Sending fl i ((fst x, snd x) # rest)" using Sending by simp
    then show ?thesis
      using flush_step.f_send [of s fl i "fst x" "snd x" rest]
        flush_step.f_lose [of s fl i "fst x" "snd x" rest] by blast
  qed (use Sending in \<open>blast intro: flush_step.f_next\<close>)
qed (use assms(1) in \<open>simp_all add: idle_def\<close>)

text \<open>
  Inside a critical section the next step is always possible, and it leaves the section.
  \<open>leaves t\<close> marks the labels of these steps of the call \<open>t\<close>.
\<close>

fun leaves :: "nat \<Rightarrow> conc_label \<Rightarrow> bool" where
  "leaves t (Observed t' m) \<longleftrightarrow> t' = t"
| "leaves t (Refused t' m) \<longleftrightarrow> t' = t"
| "leaves t (PortObserved t' m) \<longleftrightarrow> t' = t"
| "leaves t _ \<longleftrightarrow> False"

text \<open>The call whose critical section the flush waits for.\<close>

definition waits_for :: "conc \<Rightarrow> nat \<Rightarrow> bool" where
  "waits_for s t \<longleftrightarrow>
     (\<exists>i. wants_port (cRun s) = Some i \<and> port_section (cIngest s t) = Some i \<or>
          wants_flow (cRun s) = Some i \<and> flow_section (cIngest s t) = Some i)"

lemma section_leaves:
  assumes "flow_section (cIngest s t) = Some i \<or> port_section (cIngest s t) = Some i"
  shows "\<exists>l s'. ingest_step r s l s' \<and> leaves t l \<and> (flow_section (cIngest s t) = Some i \<longrightarrow> \<not> mu (cFlows s') i) \<and>
           (port_section (cIngest s t) = Some i \<longrightarrow> \<not> mu (cPorts s') i)"
proof (cases "cIngest s t")
  case (InFlow m p)
  show ?thesis
  proof (cases "ingest_refuses m p s")
    case True
    from ingest_step.i_refuse [OF InFlow this] show ?thesis
      using assms InFlow by (fastforce simp: ingest_simps)
  next
    case False
    from ingest_step.i_observe [OF InFlow this] show ?thesis
      using assms InFlow by (fastforce simp: ingest_simps)
  qed
next
  case (InPort m p)
  from ingest_step.i_observe_port [OF this] show ?thesis
    using assms InPort by (fastforce simp: ingest_simps)
qed (use assms in simp_all)

lemma wants_one: "wants_port pc = Some i \<Longrightarrow> wants_flow pc = None"
  by (cases pc) simp_all

lemma flush_after_ingest:
  assumes step: "ingest_step r s l s1" and "\<not> idle s"
    and "wants_port (cRun s) = Some i \<and> \<not> mu (cPorts s1) i \<or> wants_flow (cRun s) = Some i \<and> \<not> mu (cFlows s1) i"
  shows "\<exists>l' s2. flush_step r ordP s1 l' s2"
  using assms(2,3) wants_one
  by (intro flush_enabled) (auto simp: ingest_run_kept [OF step] idle_def)

lemma flush_progress:
  assumes "locks_ok s" and "\<not> idle s"
  shows "(\<exists>l s'. flush_step r ordP s l s') \<or>
         (\<exists>t l s1 l' s2. waits_for s t \<and> ingest_step r s l s1 \<and> leaves t l \<and> flush_step r ordP s1 l' s2)"
proof (cases "\<exists>l s'. flush_step r ordP s l s'")
  case False
  have flow: "mu (cFlows s) i \<Longrightarrow> \<exists>h. flow_occ s h = Some i"
    and port: "mu (cPorts s) i \<Longrightarrow> \<exists>h. port_occ s h = Some i" for i
    using assms(1) unfolding locks_ok_def by (auto intro: excl_held)
  from False flush_enabled [OF assms(2)]
  consider i where "wants_port (cRun s) = Some i" "mu (cPorts s) i"
    | i where "wants_flow (cRun s) = Some i" "mu (cFlows s) i" by blast
  then show ?thesis
  proof cases
    case (1 i)
    then obtain t where t: "port_section (cIngest s t) = Some i"
      using port [of i] by (cases "cRun s") (auto simp: port_occ_def split: option.splits)
    then obtain l s1 where step: "ingest_step r s l s1" "leaves t l" and free: "\<not> mu (cPorts s1) i"
      using section_leaves [of s t i r] by blast
    moreover have "waits_for s t" using 1(1) t by (auto simp: waits_for_def)
    ultimately show ?thesis using flush_after_ingest [OF step(1) assms(2)] 1(1) by blast
  next
    case (2 i)
    then obtain t where t: "flow_section (cIngest s t) = Some i"
      using flow [of i] by (cases "cRun s") (auto simp: flow_occ_def split: option.splits)
    then obtain l s1 where step: "ingest_step r s l s1" "leaves t l" and free: "\<not> mu (cFlows s1) i"
      using section_leaves [of s t i r] by blast
    moreover have "waits_for s t" using 2(1) t by (auto simp: waits_for_def)
    ultimately show ?thesis using flush_after_ingest [OF step(1) assms(2)] 2(1) by blast
  qed
qed blast

text \<open>One or two steps bring the flush forward.\<close>

lemma flush_advances:
  assumes run: "conc_run r ordP (new_conc now) tr s" and "\<not> idle s"
  shows "\<exists>tr' s'. conc_run r ordP s tr' s' \<and> length tr' \<le> 2 \<and> left (cRun s') < left (cRun s) \<and>
           (\<forall>l \<in> set tr'. is_flush l \<or> (\<exists>t. leaves t l))"
proof -
  have inv: "conc_inv r ordP s (windows_of now tr) tr" using run by (rule conc_run_inv)
  from flush_progress [of s r ordP] inv assms(2) consider
    l s' where "flush_step r ordP s l s'"
    | t l s1 l' s2 where "ingest_step r s l s1" "flush_step r ordP s1 l' s2" "leaves t l"
    unfolding conc_inv_def by blast
  then show ?thesis
  proof cases
    case 1
    then have "left (cRun s') < left (cRun s)"
      using inv left_flush range_run [OF run] unfolding conc_inv_def by blast
    with conc_run_one [OF conc_step.c_flush [OF 1]] flush_label [OF 1] show ?thesis by force
  next
    case (2 t l s1 l' s2)
    have s1: "conc_run r ordP s [l] s1" using 2(1) by (intro conc_run_one conc_step.c_ingest)
    have run1: "conc_run r ordP (new_conc now) (tr @ [l]) s1" using s1 run by (rule conc_run_trans)
    have "left (cRun s2) < left (cRun s1)"
      using left_flush [OF 2(2)] conc_run_inv [OF run1] range_run [OF run1]
      unfolding conc_inv_def by blast
    moreover have "conc_run r ordP s ([l] @ [l']) s2"
      using conc_run_one [OF conc_step.c_flush [OF 2(2)]] s1 by (rule conc_run_trans)
    ultimately show ?thesis using ingest_run_kept(1) [OF 2(1)] flush_label [OF 2(2)] 2(3) by force
  qed
qed

lemma flush_completes:
  assumes "conc_run r ordP (new_conc now) tr s"
  shows "\<exists>tr' s'. conc_run r ordP s tr' s' \<and> idle s' \<and> length tr' \<le> 2 * left (cRun s) \<and>
           (\<forall>l \<in> set tr'. is_flush l \<or> (\<exists>t. leaves t l))"
  using assms
proof (induction "left (cRun s)" arbitrary: tr s rule: less_induct)
  case less
  show ?case
  proof (cases "idle s")
    case True
    then show ?thesis using conc_run.cr_start by fastforce
  next
    case False
    then obtain tr1 s1 where tr1: "conc_run r ordP s tr1 s1" "length tr1 \<le> 2" "left (cRun s1) < left (cRun s)"
      "\<forall>l \<in> set tr1. is_flush l \<or> (\<exists>t. leaves t l)"
      using flush_advances [OF less.prems] by blast
    obtain tr2 s2 where "conc_run r ordP s1 tr2 s2" "idle s2" "length tr2 \<le> 2 * left (cRun s1)"
      "\<forall>l \<in> set tr2. is_flush l \<or> (\<exists>t. leaves t l)"
      using less.hyps [OF tr1(3) conc_run_trans [OF tr1(1) less.prems]] by blast
    then show ?thesis using tr1 conc_run_trans [OF _ tr1(1)]
      by (intro exI [where x = "tr1 @ tr2"] exI [where x = s2]) auto
  qed
qed

end
