(* ===== verification/ConcurrencyProps.thy ===== *)
theory ConcurrencyProps
  imports SequentialRuns FlushProgress
begin

text \<open>
  The properties of the interleaved aggregator, and the one schedule its comments do not
  expect: packets that arrive between the port phase and the flow phase of a flush.
\<close>

section \<open>A flush that runs alone\<close>

lemma alone_enabled:
  assumes "locks_ok s" and "calls_returned s" and "\<not> idle s"
  shows "\<exists>l s'. flush_step r ordP s l s'"
proof (rule flush_enabled [OF assms(3)])
  fix i
  assume want: "wants_port (cRun s) = Some i"
  have "port_occ s h \<noteq> Some i" for h
    using assms(2) want by (cases h; cases "cRun s") (auto simp: port_occ_def)
  then show "\<not> mu (cPorts s) i"
    using assms(1) excl_held unfolding locks_ok_def by blast
next
  fix i
  assume want: "wants_flow (cRun s) = Some i"
  have "flow_occ s h \<noteq> Some i" for h
    using assms(2) want by (cases h; cases "cRun s") (auto simp: flow_occ_def)
  then show "\<not> mu (cFlows s) i"
    using assms(1) excl_held unfolding locks_ok_def by blast
qed

lemma flush_step_label: "flush_step r ordP s l s' \<Longrightarrow> is_flush l \<and> cIngest s' = cIngest s"
  by (induction rule: flush_step.induct) (auto simp: flush_defs)

lemma is_flush_step: "conc_step r ordP s l s' \<Longrightarrow> is_flush l \<Longrightarrow> flush_step r ordP s l s'"
  by (erule conc_step.cases) (auto elim!: ingest_step.cases)

lemma alone_completes:
  assumes "conc_run r ordP (new_conc now) tr s" and "calls_returned s"
  shows "\<exists>tr' s'. conc_run r ordP s tr' s' \<and> idle s' \<and> list_all is_flush tr'"
  using assms
proof (induction "left (cRun s)" arbitrary: tr s rule: less_induct)
  case less
  show ?case
  proof (cases "idle s")
    case True
    then show ?thesis using conc_run.cr_start by fastforce
  next
    case False
    have inv: "conc_inv r ordP s (windows_of now tr) tr" using less.prems(1) by (rule conc_run_inv)
    then obtain l s1 where step: "flush_step r ordP s l s1"
      using alone_enabled [OF _ less.prems(2) False] unfolding conc_inv_def by blast
    then have s1: "conc_run r ordP s [l] s1" by (intro conc_run_one conc_step.c_flush)
    have "left (cRun s1) < left (cRun s)"
      using inv left_flush [OF step] range_run [OF less.prems(1)] unfolding conc_inv_def by blast
    moreover have "calls_returned s1" using flush_step_label [OF step] less.prems(2) by simp
    ultimately obtain tr2 s2 where "conc_run r ordP s1 tr2 s2" "idle s2" "list_all is_flush tr2"
      using less.hyps conc_run_trans [OF s1 less.prems(1)] by blast
    then show ?thesis using conc_run_trans [OF _ s1] flush_step_label [OF step] by fastforce
  qed
qed

text \<open>What holds while a flush that found no port trackers swaps the flow shards alone.\<close>

fun ports_over :: "run_pc \<Rightarrow> bool" where
  "ports_over (WantPorts fl i) \<longleftrightarrow> \<not> i < numShards"
| "ports_over (InPorts fl i ports) \<longleftrightarrow> False"
| "ports_over _ \<longleftrightarrow> True"

fun flows_taken :: "run_pc \<Rightarrow> nat" where
  "flows_taken (WantPorts fl i) = 0"
| "flows_taken (InPorts fl i ports) = 0"
| "flows_taken (WantFlows fl i) = i"
| "flows_taken (InFlows fl i flows) = i"
| "flows_taken (Sending fl i todo) = Suc i"
| "flows_taken _ = numShards"

definition gap_inv :: "conc \<Rightarrow> windows \<Rightarrow> bool" where
  "gap_inv s w \<longleftrightarrow> ports_over (cRun s) \<and> snapP w = (\<lambda>_. []) \<and>
     (\<forall>k. \<forall>cw \<in> set (closedF w k). cw_ports cw = (\<lambda>_. [])) \<and> (\<forall>k. length (closedF w k) \<le> 1) \<and>
     (\<forall>k. flows_taken (cRun s) \<le> flow_idx k \<longrightarrow> closedF w k = []) \<and>
     (\<forall>j < flows_taken (cRun s). tab (cFlows s) j = [])"

lemma gap_inv_flush:
  assumes "flush_step r ordP s l s'" and "shard_in_range (cRun s)" and "gap_inv s w"
  shows "gap_inv s' (window_step l w)"
  using assms(1)
proof cases
  case (f_take_flows fl i flows todo)
  then show ?thesis using assms(3) by (auto simp: gap_inv_def flush_defs less_Suc_eq)
next
  case (f_end fl i)
  then show ?thesis
    using assms(3) shardIndex_less by (auto simp: gap_inv_def flush_defs not_le [symmetric])
qed (use assms(2,3) in \<open>auto simp: gap_inv_def flush_defs\<close>)

lemma gap_inv_run:
  assumes "conc_run r ordP s tr' s'" and "conc_run r ordP (new_conc now) tr s"
    and "list_all is_flush tr'" and "gap_inv s (windows_of now tr)"
  shows "gap_inv s' (windows_of now (tr @ tr'))"
  using assms
proof (induction rule: conc_run.induct)
  case (cr_step tr' s1 l s2)
  have "conc_run r ordP (new_conc now) (tr @ tr') s1"
    using cr_step.hyps(1) cr_step.prems(1) by (rule conc_run_trans)
  moreover have "flush_step r ordP s1 l s2" using is_flush_step [OF cr_step.hyps(2)] cr_step.prems(2) by simp
  ultimately have "gap_inv s2 (window_step l (windows_of now (tr @ tr')))"
    using gap_inv_flush range_run cr_step by fastforce
  then show ?case using windows_of_snoc [of now "tr @ tr'" l] by simp
qed simp

section \<open>Calls one after another\<close>

lemma after_call_other:
  "cRun (after_call r m s) = cRun s" "cIngest (after_call r m s) = cIngest s"
  "mutexes_free (after_call r m s) \<longleftrightarrow> mutexes_free s"
  "length (tab (cFlows (after_call r m s)) j) \<le> Suc (length (tab (cFlows s) j))"
  by (cases "go_get (tab (cFlows s) (flow_idx (key_of m))) (key_of m)";
      auto simp: after_call_def go_map)+

lemma calls_alone:
  assumes "cIngest s t = Returned_ok" and "mutexes_free s"
    and "\<And>j. length (tab (cFlows s) j) + length ms \<le> maxFlowsPerShard"
  shows "conc_run r ordP s (concat (map (call_labels t) ms)) (fold (after_call r) ms s)"
  using assms
proof (induction ms arbitrary: s)
  case Nil
  then show ?case using conc_run.cr_start by fastforce
next
  case (Cons m ms)
  have "\<not> full_for m s"
    using Cons.prems(3) [of "flow_idx (key_of m)"] by (simp add: full_for_def ingest_refuses_def)
  with Cons.prems have one: "conc_run r ordP s (call_labels t m) (after_call r m s)"
    by (intro call_alone) simp_all
  have "length (tab (cFlows (after_call r m s)) j) + length ms \<le> maxFlowsPerShard" for j
    using after_call_other(4) [of r m s j] Cons.prems(3) [of j] by simp
  with Cons have "conc_run r ordP (after_call r m s) (concat (map (call_labels t) ms))
      (fold (after_call r) ms (after_call r m s))"
    by (intro Cons.IH) (simp_all add: after_call_other)
  then show ?case using conc_run_trans [OF _ one] by simp
qed

lemma calls_other: "cRun (fold (after_call r) ms s) = cRun s \<and> cIngest (fold (after_call r) ms s) = cIngest s"
  by (induction ms arbitrary: s) (simp_all add: after_call_other)

section \<open>The gap between the two phases of a flush\<close>

lemma call_labels_along:
  "along (built k) (concat (map (call_labels t) ms)) = []"
  "along (seen k) (concat (map (call_labels t) ms)) = flow_packets k ms"
  "along (called t) (concat (map (call_labels t) ms)) = ms"
  "along (port_observed_by t) (concat (map (call_labels t) ms)) = ms"
  "filter is_begin (concat (map (call_labels t) ms)) = []"
  by (induction ms) (simp_all add: call_labels_def flow_packets_def)

lemma flush_labels_along:
  assumes "list_all is_flush tr"
  shows "along (seen k) tr = []" "along (called t) tr = []" "along (port_observed_by t) tr = []"
    "filter is_begin tr = []"
  using assms by (induction tr; auto elim: is_flush.elims)+

lemma port_labels_along:
  "list_all is_flush (port_labels i)" "along (built k) (port_labels i) = []"
  by (auto simp: port_labels_def list_all_iff)

definition gap_labels :: "int \<Rightarrow> FlowPacketMeta list \<Rightarrow> conc_label list" where
  "gap_labels now ms = FlushBegins now # port_labels 0 @ concat (map (call_labels 0) ms)"

lemma new_locked_empty:
  "fold empty_shard xs (new_locked v) = new_locked v"
  "fold (\<lambda>j. merge_ports (tab (new_locked v) j)) xs snap = snap"
  by (induction xs arbitrary: snap) (simp_all add: empty_shard_def new_locked_def merge_ports_def fun_upd_idem)

text \<open>A flush of an empty aggregator has taken the port shards; then the packets come.\<close>

lemma gap_reached:
  assumes "length ms \<le> maxFlowsPerShard"
  shows "\<exists>s. conc_run r ordP (new_conc t0) (gap_labels now ms) s \<and> calls_returned s \<and>
           gap_inv s (windows_of t0 (gap_labels now ms))"
proof -
  let ?s0 = "new_conc t0" and ?s1 = "flush_begin False now (new_conc t0)"
  let ?fl = "\<lparr>fl_windowStart = t0, fl_windowEnd = now, fl_portSnapshot = [], fl_final = False\<rparr>"
  let ?s2 = "?s1\<lparr>cRun := WantPorts ?fl numShards\<rparr>"
  let ?finis = "fold (after_call r) ms ?s2"
  have "conc_step r ordP ?s0 (FlushBegins now) ?s1"
    by (rule conc_step.c_begin) (simp add: new_conc_def)
  moreover have "after_ports ?fl 0 ?s1 = ?s2"
    by (simp add: after_ports_def flush_begin_def new_conc_def new_locked_empty)
  then have "conc_run r ordP ?s1 (port_labels 0) ?s2"
    using port_phase [of ?s1 ?fl 0 r ordP] by (simp add: flush_begin_def new_conc_def new_locked_def)
  moreover have "conc_run r ordP ?s2 (concat (map (call_labels 0) ms)) ?finis"
    using assms by (intro calls_alone) (simp_all add: flush_begin_def new_conc_def new_locked_def)
  ultimately have run: "conc_run r ordP ?s0 (gap_labels now ms) ?finis"
    unfolding gap_labels_def by (metis conc_run_Cons conc_run_trans)
  have cr: "cRun ?finis = WantPorts ?fl numShards" "calls_returned ?finis"
    by (simp_all add: calls_other flush_begin_def new_conc_def)
  obtain s where s: "conc_run r ordP ?s0 (gap_labels now ms) s" "cRun s = WantPorts ?fl numShards"
    "calls_returned s" using run cr by blast
  have inv: "conc_inv r ordP s (windows_of t0 (gap_labels now ms)) (gap_labels now ms)"
    using s(1) by (rule conc_run_inv)
  have todo: "run_todo (cRun s) = []" by (simp add: s(2))
  have none: "along (built k) (gap_labels now ms) = []" for k
    by (simp add: gap_labels_def port_labels_along call_labels_along del: concat_eq_Nil_conv)
  have "closedF (windows_of t0 (gap_labels now ms)) k = []" for k
    using closed_built [OF inv todo, of k] unfolding none by simp
  moreover have "snapP (windows_of t0 (gap_labels now ms)) = (\<lambda>_. [])"
    using inv s(2) by (auto simp: conc_inv_def locals_ok_def snap_entry_def)
  ultimately have "gap_inv s (windows_of t0 (gap_labels now ms))"
    using s(2) by (simp add: gap_inv_def)
  then show ?thesis using s(1,3) by blast
qed

text \<open>The entropy in a vector is that of the port window its flush took, whatever the flow's packets.\<close>

lemma window_entropy:
  "PortEntropyBits (window_vector r ordP cw) =
     entropyBits r ordP (tracker (map DstPort (cw_ports cw (firstSrcIP (fold (obs r) (cw_packets cw) zero_accumulator)))))"
  by (simp add: window_vector_def Let_def flow_features_def)

lemma built_entropy:
  assumes run: "conc_run r ordP (new_conc t0) tr s" and n: "n < length (along (built k) tr)"
    and cw: "cw = closedF (windows_of t0 tr) k ! n"
  shows "PortEntropyBits (along (built k) tr ! n) =
           entropyBits r ordP (fold observe_port (map DstPort (cw_ports cw (firstSrcIP (fold (obs r) (cw_packets cw) zero_accumulator)))) newPortTracker)"
proof -
  have "due_ok r ordP s (windows_of t0 tr) tr" using conc_run_inv [OF run] unfolding conc_inv_def by blast
  then obtain late where late: "map (window_vector r ordP) (closedF (windows_of t0 tr) k) = along (built k) tr @ late"
    unfolding due_ok_def by blast
  have "length (closedF (windows_of t0 tr) k) = length (along (built k) tr) + length late"
    using arg_cong [OF late, of length] by (simp only: length_map length_append)
  with n have len: "n < length (closedF (windows_of t0 tr) k)" by linarith
  have "along (built k) tr ! n = map (window_vector r ordP) (closedF (windows_of t0 tr) k) ! n"
    unfolding late using n by (simp add: nth_append)
  also have "\<dots> = window_vector r ordP cw" using len cw by simp
  finally show ?thesis using window_entropy by simp
qed

lemma gap_vector:
  assumes "cw_ports cw = (\<lambda>_. [])"
  shows "PacketCount (window_vector r ordP cw) = of_nat (length (cw_packets cw)) \<and>
         PortEntropyBits (window_vector r ordP cw) = 0"
  by (simp add: window_vector_def Let_def flow_features_def assms fold_packetCount
        entropyBits_def newPortTracker_def)

lemma gap_closed:
  assumes run: "conc_run r ordP (new_conc t0) tr s" and "idle s" and gap: "gap_inv s (windows_of t0 tr)"
    and "along (seen k) tr = ms" and "ms \<noteq> []"
  shows "\<exists>ff. along (built k) tr = [ff] \<and> PacketCount ff = of_nat (length ms) \<and> PortEntropyBits ff = 0"
proof -
  let ?w = "windows_of t0 tr"
  have inv: "conc_inv r ordP s ?w tr" using run by (rule conc_run_inv)
  have taken: "flows_taken (cRun s) = numShards" using \<open>idle s\<close> by (auto simp: idle_def)
  have "tab (cFlows s) (flow_idx k) = []" using gap taken shardIndex_less by (simp add: gap_inv_def)
  then have "openF ?w k = []"
    using inv wf.rep_absent [of r "cFlows s" "openF ?w" k] by (simp add: conc_inv_def tables_ok_def)
  with windows_partition [of t0 tr k] assms(4)
  have ms: "concat (map cw_packets (closedF ?w k)) = ms" by simp
  have "length (closedF ?w k) \<le> 1" using gap by (simp add: gap_inv_def)
  with ms \<open>ms \<noteq> []\<close> obtain cw where cw: "closedF ?w k = [cw]" by (cases "closedF ?w k") auto
  have "cw_ports cw = (\<lambda>_. [])" "cw_packets cw = ms"
    using gap ms unfolding gap_inv_def by (metis cw list.set_intros(1), simp add: cw)
  moreover have "run_todo (cRun s) = []" using \<open>idle s\<close> by (auto simp: idle_def)
  from closed_built [OF inv this, of k] have "along (built k) tr = [window_vector r ordP cw]"
    unfolding cw by simp
  ultimately show ?thesis using gap_vector by auto
qed

lemma gap_run:
  assumes "length ms \<le> maxFlowsPerShard"
  shows "\<exists>tr s. conc_run r ordP (new_conc t0) tr s \<and> idle s \<and> length (filter is_begin tr) = 1 \<and>
           along (called 0) tr = ms \<and> along (port_observed_by 0) tr = ms \<and>
           (\<forall>k. along (seen k) tr = flow_packets k ms) \<and> gap_inv s (windows_of t0 tr)"
proof -
  obtain s where s: "conc_run r ordP (new_conc t0) (gap_labels 0 ms) s" "calls_returned s"
    "gap_inv s (windows_of t0 (gap_labels 0 ms))"
    using gap_reached [OF assms] by blast
  from alone_completes [OF s(1,2)] obtain tr' s' where
    tr': "conc_run r ordP s tr' s'" "idle s'" "list_all is_flush tr'" by blast
  let ?tr = "gap_labels 0 ms @ tr'"
  note labels = flush_labels_along [OF tr'(3)] flush_labels_along [OF port_labels_along(1)]
    call_labels_along gap_labels_def
  have "conc_run r ordP (new_conc t0) ?tr s'" using tr'(1) s(1) by (rule conc_run_trans)
  moreover have "gap_inv s' (windows_of t0 ?tr)" using gap_inv_run [OF tr'(1) s(1) tr'(3) s(3)] .
  moreover have "length (filter is_begin ?tr) = 1" "along (called 0) ?tr = ms"
    "along (port_observed_by 0) ?tr = ms" "\<forall>k. along (seen k) ?tr = flow_packets k ms"
    by (simp_all add: labels del: concat_eq_Nil_conv)
  ultimately show ?thesis using tr'(2) by blast
qed

section \<open>Properties\<close>

text \<open>
  (C7) Whatever the schedule of concurrent \<open>Ingest\<close> calls, the flush and the consumer: the
  vectors built for a flow are, in order, those the sequential code computes for the flow's
  closed windows, except for at most one whose accumulator is still in the flush's hands.
  The windows and the open one contain every packet observed for the flow exactly once and
  in order, and the entry in the table is the fold of the open window.
\<close>

theorem concurrent_windows:
  assumes "conc_run r ordP (new_conc now) tr s"
  shows "(\<exists>late. map (window_vector r ordP) (closedF (windows_of now tr) k) = along (built k) tr @ late \<and>
            length late \<le> 1 \<and> (idle s \<longrightarrow> late = [])) \<and>
         concat (map cw_packets (closedF (windows_of now tr) k)) @ openF (windows_of now tr) k =
           along (seen k) tr \<and>
         (case go_get (tab (cFlows s) (flow_idx k)) k of
            None \<Rightarrow> openF (windows_of now tr) k = []
          | Some a \<Rightarrow> heap (cFlows s) a = fold (obs r) (openF (windows_of now tr) k) zero_accumulator)"
proof -
  have inv: "conc_inv r ordP s (windows_of now tr) tr" using assms by (rule conc_run_inv)
  then have tab: "wf.rep r (cFlows s) (openF (windows_of now tr))"
    by (simp add: conc_inv_def tables_ok_def)
  have "idle s \<Longrightarrow> due r ordP s k = []" by (auto simp: idle_def)
  then have "\<exists>late. map (window_vector r ordP) (closedF (windows_of now tr) k) = along (built k) tr @ late \<and>
      length late \<le> 1 \<and> (idle s \<longrightarrow> late = [])"
    using inv due_length [of s r ordP k] unfolding conc_inv_def due_ok_def by blast
  then show ?thesis
    using windows_partition [of now tr k] wf.rep_absent [OF tab, of k] wf.rep_entry(1) [OF tab, of k]
    by (auto split: option.split)
qed

theorem concurrent_windows_witness:
  "\<exists>tr s. conc_run fl64 (\<lambda>l. l) (new_conc 0) tr s \<and>
     concat (map cw_packets (closedF (windows_of 0 tr) (key_of example_packet))) @
       openF (windows_of 0 tr) (key_of example_packet) = [example_packet]"
proof -
  have "length [example_packet] \<le> maxFlowsPerShard" by (simp add: maxFlowsPerShard_def)
  from gap_run [OF this, of fl64 "\<lambda>l. l" 0] obtain tr s where
    run: "conc_run fl64 (\<lambda>l. l) (new_conc 0) tr s"
    and seen: "along (seen (key_of example_packet)) tr = flow_packets (key_of example_packet) [example_packet]"
    by blast
  from concurrent_windows [OF run, of "key_of example_packet"] run seen
  show ?thesis by (auto simp: flow_packets_def)
qed

text \<open>
  (C26) Nothing is lost unnoticed in any schedule: every packet handed to an \<open>Ingest\<close> is
  observed or refused by that very call, in order, up to the one in progress; every observed
  packet reaches the port tracker; every refusal is counted in \<open>droppedNewFlows\<close>; the
  consumer receives the vectors that were sent, in order; the channel never holds more than
  its capacity and every other vector is counted in \<open>droppedOutput\<close>.
\<close>

theorem concurrent_accounting:
  assumes "conc_run r ordP (new_conc now) tr s"
  shows "along (called t) tr = along (decided t) tr @ undecided (cIngest s t) \<and>
         along (observed_by t) tr = along (port_observed_by t) tr @ port_pending (cIngest s t) \<and>
         length (along (refused_by t) tr) =
           length (along (counted_by t) tr) + (if cIngest s t = Refusing then 1 else 0) \<and>
         along sent tr = along received tr @ cOut s \<and> length (cOut s) \<le> outputBufferSize \<and>
         cDroppedOutput s = of_nat (length (filter is_lost tr)) \<and>
         cDroppedNewFlows s = of_nat (length (filter is_counted tr))"
  using accounting_run [OF assms, of t] unfolding calls_ok_def channel_ok_def by blast

theorem concurrent_accounting_witness:
  "\<exists>tr s. conc_run fl64 (\<lambda>l. l) (new_conc 0) tr s \<and> cIngest s 0 = WantFlow example_packet \<and>
     along (called 0) tr = along (decided 0) tr @ [example_packet]"
proof -
  let ?s = "at_ingest 0 (WantFlow example_packet) (new_conc 0)"
  have run: "conc_run fl64 (\<lambda>l. l) (new_conc 0) [Called 0 example_packet] ?s"
    by (intro conc_run_one conc_step.c_ingest ingest_step.i_call) (simp add: new_conc_def)
  have "cIngest ?s 0 = WantFlow example_packet" by simp
  with concurrent_accounting [OF run, of 0] run show ?thesis
    by (intro exI [of _ "[Called 0 example_packet]"] exI [of _ ?s]) simp
qed

text \<open>
  (C21) A flush ends, and mutexes are all it ever waits for.  From any reachable state and under
  any schedule the \<open>Run\<close> goroutine takes at most 262226 more steps before it is back at its
  select or has returned, however many packets arrive meanwhile.  While it is flushing, either
  its next step is possible, whatever the consumer does, or the mutex it wants is held by an
  \<open>Ingest\<close> call whose next step is possible, frees it, and makes a step of the flush possible.
  So it can always finish by its own steps and by steps that leave such a section alone: no
  receive of the consumer and no new call is needed.
\<close>

theorem flush_ends:
  assumes "conc_run r ordP (new_conc now) tr s"
  shows "(\<forall>tr' s'. conc_run r ordP s tr' s' \<longrightarrow> \<not> list_ex is_begin tr' \<longrightarrow>
            length (filter is_flush tr') \<le> 262226) \<and>
         (cRun s = Selecting \<or> cRun s = RunReturned \<or> (\<exists>l s'. flush_step r ordP s l s') \<or>
          (\<exists>t l s1 l' s2. waits_for s t \<and> ingest_step r s l s1 \<and> leaves t l \<and> flush_step r ordP s1 l' s2)) \<and>
         (\<exists>tr' s'. conc_run r ordP s tr' s' \<and> (cRun s' = Selecting \<or> cRun s' = RunReturned) \<and>
            (\<forall>l \<in> set tr'. is_flush l \<or> (\<exists>t. leaves t l)) \<and> length tr' \<le> 2 * 262226)"
proof -
  have bound: "left (cRun s) \<le> 262226"
    using left_bound [OF assms] by (simp add: numShards_def maxFlowsPerShard_def)
  have "length (filter is_flush tr') \<le> 262226"
    if "conc_run r ordP s tr' s'" "\<not> list_ex is_begin tr'" for tr' s'
    using left_run [OF that(1) assms that(2)] bound by linarith
  moreover have "locks_ok s" using conc_run_inv [OF assms] unfolding conc_inv_def by blast
  then have "cRun s = Selecting \<or> cRun s = RunReturned \<or> (\<exists>l s'. flush_step r ordP s l s') \<or>
      (\<exists>t l s1 l' s2. waits_for s t \<and> ingest_step r s l s1 \<and> leaves t l \<and> flush_step r ordP s1 l' s2)"
    using flush_progress [of s r ordP] unfolding idle_def by blast
  moreover obtain tr' s' where "conc_run r ordP s tr' s'" "idle s'" "length tr' \<le> 2 * left (cRun s)"
    "\<forall>l \<in> set tr'. is_flush l \<or> (\<exists>t. leaves t l)"
    using flush_completes [OF assms] by blast
  then have "\<exists>tr' s'. conc_run r ordP s tr' s' \<and> (cRun s' = Selecting \<or> cRun s' = RunReturned) \<and>
      (\<forall>l \<in> set tr'. is_flush l \<or> (\<exists>t. leaves t l)) \<and> length tr' \<le> 2 * 262226"
    using bound unfolding idle_def by (meson mult_le_mono2 order_trans)
  ultimately show ?thesis by blast
qed

theorem flush_ends_witness:
  "\<exists>s tr' s'. conc_run fl64 (\<lambda>l. l) (new_conc 0) [FlushBegins 1] s \<and> cRun s \<noteq> Selecting \<and>
     conc_run fl64 (\<lambda>l. l) s tr' s' \<and> (\<forall>l \<in> set tr'. is_flush l \<or> (\<exists>t. leaves t l)) \<and>
     (cRun s' = Selecting \<or> cRun s' = RunReturned)"
proof -
  let ?s = "flush_begin False 1 (new_conc 0)"
  have run: "conc_run fl64 (\<lambda>l. l) (new_conc 0) [FlushBegins 1] ?s"
    by (intro conc_run_one conc_step.c_begin) (simp add: new_conc_def)
  have "cRun ?s \<noteq> Selecting" by (simp add: flush_begin_def)
  with flush_ends [OF run] run show ?thesis by blast
qed

text \<open>
  (C20) The window of a flow and the port window that describes its source are not the same
  packets.  In every run, the entropy in the vector built for a closed window of a flow is that
  of the destination ports in the port window the same flush took earlier for the source its
  accumulator recorded, and so zero when that port window is empty.  And this loses a burst: for
  every burst of up to 16384 packets, to however many ports, there is a run of a fresh
  aggregator with one flush, in which the burst arrives after the port shards and before the
  flow shards are taken, every packet is observed and reaches a port tracker, and yet that
  flush builds for each flow of the burst one vector, with all its packets counted and a port
  entropy of zero.
\<close>

theorem flush_gap_entropy:
  "(\<forall>tr s k n. conc_run r ordP (new_conc t0) tr s \<longrightarrow> n < length (along (built k) tr) \<longrightarrow>
      (let cw = closedF (windows_of t0 tr) k ! n; ports = cw_ports cw (firstSrcIP (fold (obs r) (cw_packets cw) zero_accumulator))
       in PortEntropyBits (along (built k) tr ! n) =
            entropyBits r ordP (fold observe_port (map DstPort ports) newPortTracker) \<and>
          (ports = [] \<longrightarrow> PortEntropyBits (along (built k) tr ! n) = 0))) \<and>
   (length ms \<le> 16384 \<longrightarrow>
      (\<exists>tr s. conc_run r ordP (new_conc t0) tr s \<and> (cRun s = Selecting \<or> cRun s = RunReturned) \<and>
         length (filter is_begin tr) = 1 \<and> along (called 0) tr = ms \<and> along (port_observed_by 0) tr = ms \<and>
         (\<forall>k. flow_packets k ms \<noteq> [] \<longrightarrow>
            (\<exists>ff. along (built k) tr = [ff] \<and> PacketCount ff = of_nat (length (flow_packets k ms)) \<and>
                  PortEntropyBits ff = 0))))"
proof -
  have every: "let cw = closedF (windows_of t0 tr) k ! n; ports = cw_ports cw (firstSrcIP (fold (obs r) (cw_packets cw) zero_accumulator))
      in PortEntropyBits (along (built k) tr ! n) =
           entropyBits r ordP (fold observe_port (map DstPort ports) newPortTracker) \<and>
         (ports = [] \<longrightarrow> PortEntropyBits (along (built k) tr ! n) = 0)"
    if "conc_run r ordP (new_conc t0) tr s" "n < length (along (built k) tr)" for tr s k n
    using built_entropy [OF that refl] by (simp add: Let_def entropyBits_def newPortTracker_def)
  have "\<exists>tr s. conc_run r ordP (new_conc t0) tr s \<and> (cRun s = Selecting \<or> cRun s = RunReturned) \<and>
      length (filter is_begin tr) = 1 \<and> along (called 0) tr = ms \<and> along (port_observed_by 0) tr = ms \<and>
      (\<forall>k. flow_packets k ms \<noteq> [] \<longrightarrow>
         (\<exists>ff. along (built k) tr = [ff] \<and> PacketCount ff = of_nat (length (flow_packets k ms)) \<and>
               PortEntropyBits ff = 0))"
    if ms: "length ms \<le> 16384"
  proof -
    from ms have "length ms \<le> maxFlowsPerShard" by (simp add: maxFlowsPerShard_def)
    from gap_run [OF this, of r ordP t0] obtain tr s where
      tr: "conc_run r ordP (new_conc t0) tr s" "idle s" "length (filter is_begin tr) = 1"
      "along (called 0) tr = ms" "along (port_observed_by 0) tr = ms"
      "\<forall>k. along (seen k) tr = flow_packets k ms" "gap_inv s (windows_of t0 tr)" by blast
    have "\<exists>ff. along (built k) tr = [ff] \<and> PacketCount ff = of_nat (length (flow_packets k ms)) \<and>
        PortEntropyBits ff = 0" if "flow_packets k ms \<noteq> []" for k
      using gap_closed [OF tr(1,2,7) tr(6) [rule_format] that] .
    then show ?thesis using tr unfolding idle_def by blast
  qed
  with every show ?thesis by blast
qed

theorem flush_gap_entropy_witness:
  "\<exists>tr s ff. conc_run fl64 (\<lambda>l. l) (new_conc 0) tr s \<and>
     along (called 0) tr = [example_packet, example_packet\<lparr>DstPort := 81\<rparr>] \<and>
     along (built (key_of example_packet)) tr = [ff] \<and> PortEntropyBits ff = 0"
proof -
  have "flow_packets (key_of example_packet) [example_packet, example_packet\<lparr>DstPort := 81\<rparr>] \<noteq> []"
    by (simp add: flow_packets_def)
  moreover have "length [example_packet, example_packet\<lparr>DstPort := 81\<rparr>] \<le> 16384" by simp
  ultimately show ?thesis
    using conjunct2 [OF flush_gap_entropy [of fl64 "\<lambda>l. l" 0 "[example_packet, example_packet\<lparr>DstPort := 81\<rparr>]"]]
    by meson
qed

text \<open>
  (C27) The function model of the aggregator, on which the rest of the development rests, is
  a set of schedules of the goroutines: any sequence of \<open>Ingest\<close> calls, events of \<open>Run\<close> and
  receives, with any iteration order of the maps, is carried out by a run in which nobody
  interferes, and its state, read through the pointers, is the one the functions compute.
\<close>

theorem sequential_schedules:
  assumes "\<And>l. mset (ordF l) = mset l"
  shows "\<exists>tr s. conc_run r ordP (new_conc t0) tr s \<and> calls_returned s \<and>
           abs_agg s = fst (fold (seq_op r ordP ordF) ops (NewAggregator t0, True)) \<and>
           cRun s = (if snd (fold (seq_op r ordP ordF) ops (NewAggregator t0, True))
                     then Selecting else RunReturned)"
  using sequential_run [where ordF = ordF, OF assms, of r ordP t0 ops] unfolding same_state_def by blast

theorem sequential_schedules_witness:
  "\<exists>tr s. conc_run fl64 (\<lambda>l. l) (new_conc 0) tr s \<and> cRun s = RunReturned \<and>
     abs_agg s = (flush fl64 (\<lambda>l. l) rev 7 (Ingest fl64 example_packet (NewAggregator 0)))\<lparr>out_closed := True\<rparr>"
  using sequential_schedules [of rev fl64 "\<lambda>l. l" 0 "[Do_Ingest example_packet, Do_Run (CtxDone 7)]"]
  by auto

end
