(* ===== verification/Spec2Isabelle.thy ===== *)
theory Spec2Isabelle
  imports Prelude GoNet Contracts KernelWire LpmKeys Sharding Float64 Aggregator FlowProps FlowStats
    Inference Verdicts Detection EbpfApi MapManager MapProps Feedback FeedbackProps FeedbackSafety
    BlockList Monitor Daemon DaemonProps DaemonSafety Inspector Cli CliMain XdpCursor XdpParsers XdpFilters
    Firewall FirewallSpec FirewallMaps FrameBuild FirewallProps FirewallRates ClosedLoop
    LockedShards Interleaving InterleavingInv InterleavingProps SequentialRuns FlushProgress
    ConcurrencyProps
begin

text \<open>
  \<^bold>\<open>Verification of AI-IDA\<close>

  AI-IDA is a network defence in two halves.  A kernel program (Rust, eBPF/XDP) filters packets
  with the help of maps pinned in the BPF file system and reports packets through a ring
  buffer.  A control plane (Go, \<^verbatim>\<open>src/user-space\<close>) reads the ring buffer, aggregates packets into
  flow windows of 100 ms, classifies each window with three decision trees, and writes the
  sources of malicious flows into the reputation map, from which a janitor removes them after
  five minutes.  A command line shows status and edits the maps by hand.  This development
  models both halves and the way data takes between them.

  \<^bold>\<open>Parts and theories\<close>

  \<^item> \<^verbatim>\<open>pkg/types/contracts.go\<close>: \<open>Contracts\<close> (levels, drop reasons, actions, the telemetry record
    and its decoder, names and flags), \<open>LpmKeys\<close> (\<open>NewLpmKey\<close>).  The functions of Go's \<open>net\<close>
    package it uses (parsing and printing of addresses and prefixes) are written out in \<open>GoNet\<close>.
  \<^item> \<^verbatim>\<open>src/common\<close> (Rust): \<open>KernelWire\<close>, the enumerations and the telemetry struct as the bytes
    the kernel writes.  Lemmas: the Go decoder reads them back, both sides classify alike.
  \<^item> \<^verbatim>\<open>pkg/aggregator/flow.go\<close>: \<open>Aggregator\<close> over \<open>Sharding\<close> (a locale of sharded maps,
    interpreted on both hash functions).  \<open>FlowProps\<close>: the state invariant, accounting of every
    packet, what \<open>flush\<close> sends.  \<open>FlowStats\<close>: Welford's update and the port entropy, exact and
    under rounding.  The same file again with its goroutines: \<open>LockedShards\<close> (a shard's mutex, its
    table of pointers and the heap behind them; the locale \<open>windowed\<close>, interpreted on the flow
    shards and on the port shards), \<open>Interleaving\<close> (\<open>Ingest\<close>, \<open>Run\<close> and \<open>flush\<close> as program counters and
    a labelled step relation, and the windows of a trace as their specification),
    \<open>InterleavingInv\<close> (the invariant), \<open>InterleavingProps\<close> (accounting), \<open>SequentialRuns\<close> (calls that
    run undisturbed are the functions of \<open>Aggregator\<close>), \<open>FlushProgress\<close>, \<open>ConcurrencyProps\<close>.
  \<^item> \<^verbatim>\<open>pkg/inference/trees.go\<close>: \<open>Inference\<close>; \<open>Verdicts\<close> on single feature vectors, \<open>Detection\<close> on
    windows of packets.
  \<^item> \<^verbatim>\<open>pkg/engine/map_manager.go\<close>: \<open>MapManager\<close> over \<open>EbpfApi\<close>, which has the calls of the
    package \<open>cilium/ebpf\<close> as a record of functions, their documented behaviour as the locale
    \<open>ebpf_maps\<close>, and an interpretation on the maps that \<^verbatim>\<open>kernel-space/src/maps.rs\<close> declares.
    \<open>MapProps\<close> has the effect of each operation and that nothing leaks.
  \<^item> \<^verbatim>\<open>pkg/engine/feedback.go\<close>: \<open>Feedback\<close> (discovery of safe networks, \<open>handle\<close>, the janitor,
    \<open>Run\<close>); \<open>FeedbackProps\<close> (reachable states and their invariants), \<open>FeedbackSafety\<close>, and
    \<open>BlockList\<close>, a deterministic list of blocked hosts with expiry times that controller and
    kernel refine.
  \<^item> \<^verbatim>\<open>pkg/engine/monitor.go\<close>: \<open>Monitor\<close>.  \<^verbatim>\<open>pkg/engine/xdp_inspector.go\<close>: \<open>Inspector\<close>.
  \<^item> \<^verbatim>\<open>pkg/engine/daemon.go\<close>: \<open>Daemon\<close>, the read loop, the signal goroutine and the three goroutines
    of the pipeline as a labelled step relation over one state, frames, read errors, signals and
    cancellation from outside on the labels; \<open>DaemonProps\<close> (runs and their invariants), \<open>DaemonSafety\<close>.
  \<^item> \<^verbatim>\<open>cmd/main.go\<close>: \<open>Cli\<close> (the five commands), \<open>CliMain\<close> (their declarations and \<open>main\<close>, with cobra's
    choice of the command as a parameter).
  \<^item> \<^verbatim>\<open>src/kernel-space/src\<close> (Rust): \<open>XdpCursor\<close> (\<^verbatim>\<open>cursor.rs\<close>, and the relation \<open>follows\<close> between cursor
    programs and functions on bytes), \<open>XdpParsers\<close> (\<^verbatim>\<open>parsers/*.rs\<close> and a reference decoder for
    each), \<open>XdpFilters\<close> (\<^verbatim>\<open>filters/*.rs\<close> and the locale \<open>token_bucket\<close>, interpreted on both rate
    limiters), \<open>Firewall\<close> (\<^verbatim>\<open>main.rs\<close>).  \<open>FirewallSpec\<close>: the pipeline as classification, judgement
    and report, and that the program computes it.  \<open>FirewallMaps\<close>: the locale \<open>xdp_maps\<close>, which
    extends \<open>ebpf_maps\<close> with what the program expects of its map calls, interpreted on the maps of
    \<^verbatim>\<open>maps.rs\<close>.  \<open>FrameBuild\<close>: frames from their fields.  \<open>FirewallProps\<close>, \<open>FirewallRates\<close>: properties
    of single packets and of sequences.  \<open>ClosedLoop\<close>: kernel program and daemon together.

  \<open>Prelude\<close> has the machine words, Go maps as association lists, and decimal printing.

  \<^bold>\<open>How code becomes definitions\<close>

  Structs are records, enumerations of numbers are words with named constants, errors are
  values of sums or options, one constructor per message.  Machine integers keep their width
  and wrap around.  Functions that change state take and return it.  A nil map on which a
  method is called, a panic in Go, is the error value \<open>NilMapPanic\<close>.  Strings are lists of
  ASCII characters.  Time is a number of nanoseconds and each reading of the clock an
  argument.  The order in which \<open>range\<close> visits a map is an argument too, and the properties
  hold for every permutation; in \<open>Interleaving\<close> the order of the flows is chosen anew at each flush,
  that of the counters inside a port tracker is one function for a run.

  A floating-point operation is the exact one followed by a rounding \<open>r\<close>.  The locale \<open>rounding\<close>
  of \<open>Float64\<close> states what the proofs need; it is interpreted on \<open>fl64\<close>, binary64 to nearest
  even with subnormals, and on the identity.  \<open>sqrt\<close>, \<open>exp\<close>, \<open>log\<close> and powers of two are taken
  to be correctly rounded and multiplication and addition not to be fused; values stay far
  below the overflow threshold, so infinities do not occur.

  The daemon interleaves at the granularity of channel operations and of whole \<open>Ingest\<close>,
  \<open>flush\<close> and \<open>handle\<close> calls; the controller's table is only used by one goroutine.  That
  \<open>Ingest\<close> and \<open>flush\<close> lock shard by shard is the subject of \<open>Interleaving\<close>, where a step is one
  access to shared state: entering a critical section with the lookup it begins with, leaving
  it with the write it ends with, one atomic counter, one channel operation.  Accumulators and
  trackers are objects on a heap there, since \<open>flush\<close> reads them after it has given the mutex
  back.

  In the kernel program a \<open>Result\<close> has a third value \<open>Fault\<close> for a read outside of the packet.
  Addresses are 64-bit words; the one assumption is that a packet does not lie within a page of
  the end of the address space (\<open>ctx_ok\<close>).  Fields of the packet are read in little-endian order, as
  the target does, and converted where the code does so.  What the program takes from
  \<open>aya_ebpf\<close> is the record \<open>aya\<close>.  One CPU is modelled: its part of the rate limiter, the log limiter
  and the ring buffer are a state passed from packet to packet.

  \<^bold>\<open>What is shown\<close>

  \<^item> The whole loop (\<open>ClosedLoop\<close>): the packets of a SYN flood lead, through the kernel program's
    records, the daemon's verdict and the reputation map, to the kernel program dropping the
    source.
  \<^item> The kernel program (\<open>FirewallProps\<close>, \<open>FirewallRates\<close>): memory safety and equality with the
    reference, headers read back, blocked prefixes and ports dropped, dry-run against enforcement, what escapes the
    filters, records decoded by the Go side, bounds of both rate limiters.
  \<^item> The daemon (\<open>DaemonSafety\<close>): over all interleavings no address is blocked without a
    frame of its own and a malicious verdict, and no always-safe address ever; a SYN flood leads
    to a block; the log level is restored; the daemon ends only when asked to, and
    then it always can; blocks outlive the process.
  \<^item> The controller (\<open>FeedbackSafety\<close>, \<open>BlockList\<close>): it refines a list of
    blocked hosts with their times, its table and the kernel agree, blocks last five minutes,
    sweeps remove exactly expired blocks, and the one way in which a block can be forgotten.
  \<^item> Detection (\<open>Detection\<close>, \<open>Verdicts\<close>): which windows are flagged, which never are, and that
    the detection depends on which endpoint has the lower address.
  \<^item> The aggregator (\<open>FlowProps\<close>, \<open>FlowStats\<close>): invariants, accounting, exactness, bounds.
  \<^item> Its goroutines (\<open>ConcurrencyProps\<close>): in every interleaving the vectors are those of the
    windows of the trace and nothing is lost uncounted; a flush ends within a fixed number of
    steps and waits for nothing but mutexes that their holders give back; the functions of \<open>Aggregator\<close> are the schedules without
    interference; packets that arrive between the two phases of a flush are
    described by the wrong window of ports.
  \<^item> Data formats, maps and commands (\<open>KernelWire\<close>, \<open>LpmKeys\<close>, \<open>MapProps\<close>, \<open>Monitor\<close>,
    \<open>Inspector\<close>, \<open>Cli\<close>, \<open>CliMain\<close>): round trips, the full effect of every operation, errors,
    exit codes.

  No definition needs fuel: every loop recurses on data or on its constant bound (two VLAN tags,
  four IPv6 extension headers), and what runs without end (the daemon, the controller, the
  aggregator, the packet stream) is a relation or one call per event.

  \<^bold>\<open>Not modelled\<close>

  Console banners; which signal arrives, and the timing of ticks; cobra itself, of which
  only the documented check of the number of arguments is used; the loader, which only attaches the kernel program and
  pins its maps; several CPUs at once, where the code updates the shared log limiter without
  synchronisation; \<open>ParsedPacket\<close> of \<^verbatim>\<open>parsers/mod.rs\<close>, a struct that nothing uses.
\<close>

end
